(* ===== verification/Prelude.thy ===== *)
theory Prelude
  imports Main "HOL-Library.Code_Target_Nat"
begin

text \<open>
  Prelude of the development: the parts of Rust and its standard library that the
  modelled sources use.

  \<^item> \<open>result\<close>, \<open>try_bind\<close>: \<^verbatim>\<open>Result<T, E>\<close>, and the \<^verbatim>\<open>?\<close> operator on an operation that
    takes \<^verbatim>\<open>&mut self\<close>. A stateful operation is a function from its state to a result
    paired with the new state, so an error path keeps the state changes made before it.
  \<^item> \<open>checked_add\<close>, \<open>checked_sub\<close>, \<open>checked_mul\<close>, \<open>saturating_add\<close>, \<open>wrap64\<close>: integer
    operations on \<^verbatim>\<open>usize\<close> and \<^verbatim>\<open>u64\<close>, which are natural numbers up to \<open>usize_max\<close>
    (a 64-bit target).
\<close>

section \<open>Results and state\<close>

datatype ('a, 'e) result = Ok 'a | Err 'e

fun is_ok :: "('a, 'e) result \<Rightarrow> bool" where
  "is_ok (Ok _) = True"
| "is_ok (Err _) = False"

fun rbind :: "('a, 'e) result \<Rightarrow> ('a \<Rightarrow> ('b, 'e) result) \<Rightarrow> ('b, 'e) result" where
  "rbind (Ok x) k = k x"
| "rbind (Err e) k = Err e"

fun ok_or :: "'a option \<Rightarrow> 'e \<Rightarrow> ('a, 'e) result" where
  "ok_or (Some x) e = Ok x"
| "ok_or None e = Err e"

fun try_bind ::
  "('a, 'e) result \<times> 's \<Rightarrow> ('a \<Rightarrow> 's \<Rightarrow> ('b, 'e) result \<times> 's) \<Rightarrow> ('b, 'e) result \<times> 's" where
  "try_bind (Ok x, s) k = k x s"
| "try_bind (Err e, s) k = (Err e, s)"

lemma is_ok_iff: "is_ok r \<longleftrightarrow> (\<exists>x. r = Ok x)"
  by (cases r) auto

lemma rbind_Ok_iff: "rbind r k = Ok y \<longleftrightarrow> (\<exists>x. r = Ok x \<and> k x = Ok y)"
  by (cases r) auto

lemma rbind_Err_iff: "rbind r k = Err e \<longleftrightarrow> r = Err e \<or> (\<exists>x. r = Ok x \<and> k x = Err e)"
  by (cases r) auto

lemma ok_or_Ok_iff [simp]: "ok_or r e = Ok x \<longleftrightarrow> r = Some x"
  by (cases r) auto

lemma ok_or_Err_iff [simp]: "ok_or r e = Err e' \<longleftrightarrow> r = None \<and> e' = e"
  by (cases r) auto

lemma try_bind_split:
  "P (try_bind r k) \<longleftrightarrow>
    (\<forall>x s. r = (Ok x, s) \<longrightarrow> P (k x s)) \<and> (\<forall>e s. r = (Err e, s) \<longrightarrow> P (Err e, s))"
  by (cases r; cases "fst r") auto

lemma try_bind_split_asm:
  "P (try_bind r k) \<longleftrightarrow>
    \<not> ((\<exists>x s. r = (Ok x, s) \<and> \<not> P (k x s)) \<or> (\<exists>e s. r = (Err e, s) \<and> \<not> P (Err e, s)))"
  by (simp add: try_bind_split)

lemmas try_bind_splits = try_bind_split try_bind_split_asm

lemma try_bind_snd:
  "P (snd r) \<Longrightarrow> (\<And>x s. P s \<Longrightarrow> P (snd (k x s))) \<Longrightarrow> P (snd (try_bind r k))"
  by (cases r; cases "fst r") auto

section \<open>Machine integers\<close>

definition usize_max :: nat where
  "usize_max = 2 ^ 64 - 1"

definition wrap64 :: "nat \<Rightarrow> nat" where
  "wrap64 n = n mod 2 ^ 64"

definition checked_add :: "nat \<Rightarrow> nat \<Rightarrow> nat option" where
  "checked_add a b = (if a + b \<le> usize_max then Some (a + b) else None)"

definition checked_sub :: "nat \<Rightarrow> nat \<Rightarrow> nat option" where
  "checked_sub a b = (if b \<le> a then Some (a - b) else None)"

definition checked_mul :: "nat \<Rightarrow> nat \<Rightarrow> nat option" where
  "checked_mul a b = (if a * b \<le> usize_max then Some (a * b) else None)"

definition saturating_add :: "nat \<Rightarrow> nat \<Rightarrow> nat" where
  "saturating_add a b = min (a + b) usize_max"

lemma wrap64_small [simp]: "n \<le> usize_max \<Longrightarrow> wrap64 n = n"
  by (simp add: wrap64_def usize_max_def)

lemma checked_add_Some_iff [simp]: "checked_add a b = Some c \<longleftrightarrow> c = a + b \<and> a + b \<le> usize_max"
  by (auto simp: checked_add_def)

lemma checked_add_None_iff [simp]: "checked_add a b = None \<longleftrightarrow> usize_max < a + b"
  by (auto simp: checked_add_def)

lemma checked_sub_Some_iff [simp]: "checked_sub a b = Some c \<longleftrightarrow> c = a - b \<and> b \<le> a"
  by (auto simp: checked_sub_def)

lemma checked_sub_None_iff [simp]: "checked_sub a b = None \<longleftrightarrow> a < b"
  by (auto simp: checked_sub_def)

lemma saturating_add_le: "saturating_add a b \<le> usize_max"
  by (simp add: saturating_add_def)

lemma saturating_add_mono: "a \<le> usize_max \<Longrightarrow> a \<le> saturating_add a b"
  by (simp add: saturating_add_def)

section \<open>Totals over finite maps\<close>

definition map_total :: "('v \<Rightarrow> nat) \<Rightarrow> ('k \<rightharpoonup> 'v) \<Rightarrow> nat" where
  "map_total f m = (\<Sum>k\<in>dom m. f (the (m k)))"

lemma map_total_empty [simp]: "map_total f Map.empty = 0"
  by (simp add: map_total_def)

lemma map_total_insert:
  assumes "finite (dom m)" "m k = None"
  shows "map_total f (m(k \<mapsto> v)) = map_total f m + f v"
proof -
  have "k \<notin> dom m" using assms(2) by auto
  moreover have "(\<Sum>j\<in>dom m. f (the ((m(k \<mapsto> v)) j))) = map_total f m"
    unfolding map_total_def using \<open>k \<notin> dom m\<close> by (intro sum.cong) auto
  ultimately show ?thesis using assms(1) by (simp add: map_total_def)
qed

lemma map_total_remove:
  assumes "finite (dom m)" "m k = Some c"
  shows "map_total f (m(k := None)) + f c = map_total f m"
proof -
  have "m = (m(k := None))(k \<mapsto> c)" using assms(2) by auto
  then have "map_total f m = map_total f ((m(k := None))(k \<mapsto> c))" by simp
  also have "\<dots> = map_total f (m(k := None)) + f c"
    using assms(1) by (intro map_total_insert) auto
  finally show ?thesis by simp
qed

lemma map_total_replace:
  assumes "finite (dom m)" "m k = Some c"
  shows "map_total f (m(k \<mapsto> v)) + f c = map_total f m + f v"
proof -
  have "map_total f (m(k \<mapsto> v)) = map_total f (m(k := None)) + f v"
    using map_total_insert[of "m(k := None)" k f v] assms(1) by simp
  then show ?thesis using map_total_remove[OF assms, of f] by simp
qed

lemma map_total_member_le:
  assumes "finite (dom m)" "m k = Some c"
  shows "f c \<le> map_total f m"
  using map_total_remove[OF assms, of f] by simp

lemma map_total_comp: "map_total f m = map_total id (map_option f \<circ> m)"
  unfolding map_total_def by (rule sum.cong) (auto simp: dom_def)

end
