(* ===== verification/Errors.thy ===== *)
theory Errors
  imports Prelude "HOL-Library.Char_ord" "HOL-Library.List_Lexorder"
begin

text \<open>
  The error vocabulary of the program (\<^verbatim>\<open>ErrorCode\<close> and \<^verbatim>\<open>AppError\<close> of
  \<^verbatim>\<open>edge-domain/src/lib.rs\<close>). The 126 variants of the source's one flat enum are grouped by
  subsystem, because a datatype of that width is out of proportion; the variants keep their
  names, and \<open>ErrorCode\<close> is their disjoint union. \<open>as_str\<close> and \<open>default_user_message\<close> are
  the two tables of the source, and \<open>all_error_codes\<close> lists every variant in the order of its
  string.
\<close>

section \<open>Error codes\<close>

datatype ConfigCode =
    ConfigAdminBindConflict
  | ConfigAdminExternalBindWithoutAuth
  | ConfigAcmeChallengeBlockedByRedirect
  | ConfigHttp01WithoutHttpListener
  | ConfigHttpsRouteCertificateMissing
  | ConfigInvalidAcmeEmail
  | ConfigInvalidBindAddress
  | ConfigHealthCheckInvalidInterval
  | ConfigHealthCheckInvalidPath
  | ConfigHealthCheckInvalidStatusRange
  | ConfigHealthCheckInvalidThreshold
  | ConfigInvalidLoadBalancingPolicy
  | ConfigInvalidLogMode
  | ConfigResourceLimitInvalid
  | ConfigRetryPolicyInvalid
  | ConfigPassiveHealthPolicyInvalid
  | ConfigInvalidUpstreamUrl
  | ConfigTrustBundleRefInvalid
  | ConfigTrustBundleNotFound
  | ConfigTlsServerNameInvalid
  | ConfigUpstreamHttpHostInvalid
  | ConfigTlsPolicyInvalid
  | ConfigClientAuthPolicyInvalid
  | ConfigUpstreamIdDuplicate
  | ConfigUpstreamIdRequired
  | ConfigListenerDuplicate
  | ConfigProductionAcmeRequiresOptIn
  | ConfigCurrentRevisionInvalid
  | ConfigCurrentRevisionMissing
  | ConfigBootstrapSeedInvalid
  | ConfigRevisionNotFound
  | ConfigRouteDuplicate
  | ConfigRouteMatchEmpty
  | ConfigRouteMissingService
  | ConfigSchemaVersionMissing
  | ConfigServiceWithoutUpstream
  | ConfigStoreFailed
  | ConfigUnsafeUpstreamUrl

datatype TrustCode =
    TrustBundleInvalid
  | TrustBundleAlreadyExists
  | TrustBundleLimitExceeded
  | TrustBundleReferenced
  | TrustBundleStoreFailed
  | UpstreamTlsUntrusted
  | UpstreamTlsIdentityMismatch
  | UpstreamTlsProfileInvalid
  | TlsHandshakeFailed
  | TlsHandshakeTimeout

datatype AdminCode =
    AcmeChallengeFailed
  | AcmeTermsNotAccepted
  | AdminAuthRequired
  | AdminCsrfRequired
  | AdminEndpointNotImplemented
  | AdminInvalidCredentials
  | AdminRouteNotFound
  | AdminSetupAlreadyComplete
  | AdminSetupRequired
  | CertificateExpired
  | CertificateInvalid
  | CertificateNotFound
  | CertificateStoreFailed

datatype HttpCode =
    HttpConnectMethodRejected
  | HttpHeaderTooLarge
  | HttpMalformedRequest
  | HttpRequestBodyTooLarge
  | HttpRequestLineTooLarge
  | HttpTransferEncodingContentLengthConflict

datatype RuntimeCode =
    RuntimeCommandRejected
  | RuntimeHealthUnavailable
  | RuntimeUpstreamBadGateway
  | RuntimeUpstreamTimeout
  | ResourcePayloadCapacityReached
  | ResourceAllocationFailed
  | ResourceAccountingInvariantFailed

datatype ProcessCode =
    SupportBundleBoundsExceeded
  | SupportBundleReportInvalid
  | ProcessCommandInvalid
  | ProcessCommandNotImplemented
  | DataDirectoryBusy
  | DataDirectoryLockFailed
  | DataDirectoryLockStateInvalid
  | InternalBug

datatype BackupCode =
    BackupManifestInvalid
  | BackupSchemaUnsupported
  | BackupLimitExceeded
  | BackupSecretInputInvalid
  | BackupSourceInvalid
  | BackupSourceChanged
  | BackupDestinationUnsafe
  | BackupDestinationExists
  | BackupEncryptionFailed
  | BackupWriteFailed
  | BackupPublishFailed
  | BackupStateTransitionInvalid
  | BackupAuthenticationFailed
  | BackupFormatInvalid
  | BackupDigestMismatch
  | BackupPathUnsafe

datatype RestoreCode =
    RestoreTargetBusy
  | RestoreTargetNotEmpty
  | RestoreTargetUnsafe
  | RestoreStageFailed
  | RestoreConfigInvalid
  | RestoreCertificateInvalid
  | RestoreSecretInvalid
  | RestorePreflightFailed
  | RestoreCommitFailed
  | RestoreRollbackFailed
  | RestoreTransactionUnresolved
  | RestoreTransactionAmbiguous
  | RestorePlatformUnsupported
  | RestoreStateTransitionInvalid

datatype AuditCode =
    AuditUnavailable
  | AuditMutationBlocked
  | AuditRecordInvalid
  | AuditRecordTooLarge
  | AuditCapacityReached
  | AuditSequenceInvalid
  | AuditChainMismatch
  | AuditInteriorCorruption
  | AuditTrailingFrameIncomplete
  | AuditUnsupportedVersion
  | AuditAppendFailed
  | AuditSyncFailed
  | AuditCursorInvalid
  | AuditReconciliationUnknown

datatype ErrorCode =
    Config ConfigCode
  | Trust TrustCode
  | Admin AdminCode
  | Http HttpCode
  | Runtime RuntimeCode
  | Process ProcessCode
  | Backup BackupCode
  | Restore RestoreCode
  | Audit AuditCode

primrec config_as_str :: "ConfigCode \<Rightarrow> string" where
    "config_as_str ConfigAdminBindConflict = ''CONFIG_ADMIN_BIND_CONFLICT''"
  | "config_as_str ConfigAdminExternalBindWithoutAuth = ''CONFIG_ADMIN_EXTERNAL_BIND_WITHOUT_AUTH''"
  | "config_as_str ConfigAcmeChallengeBlockedByRedirect = ''CONFIG_ACME_CHALLENGE_BLOCKED_BY_REDIRECT''"
  | "config_as_str ConfigHttp01WithoutHttpListener = ''CONFIG_HTTP01_WITHOUT_HTTP_LISTENER''"
  | "config_as_str ConfigHttpsRouteCertificateMissing = ''CONFIG_HTTPS_ROUTE_CERTIFICATE_MISSING''"
  | "config_as_str ConfigInvalidAcmeEmail = ''CONFIG_INVALID_ACME_EMAIL''"
  | "config_as_str ConfigInvalidBindAddress = ''CONFIG_INVALID_BIND_ADDRESS''"
  | "config_as_str ConfigHealthCheckInvalidInterval = ''CONFIG_HEALTH_CHECK_INVALID_INTERVAL''"
  | "config_as_str ConfigHealthCheckInvalidPath = ''CONFIG_HEALTH_CHECK_INVALID_PATH''"
  | "config_as_str ConfigHealthCheckInvalidStatusRange = ''CONFIG_HEALTH_CHECK_INVALID_STATUS_RANGE''"
  | "config_as_str ConfigHealthCheckInvalidThreshold = ''CONFIG_HEALTH_CHECK_INVALID_THRESHOLD''"
  | "config_as_str ConfigInvalidLoadBalancingPolicy = ''CONFIG_INVALID_LOAD_BALANCING_POLICY''"
  | "config_as_str ConfigInvalidLogMode = ''CONFIG_INVALID_LOG_MODE''"
  | "config_as_str ConfigResourceLimitInvalid = ''CONFIG_RESOURCE_LIMIT_INVALID''"
  | "config_as_str ConfigRetryPolicyInvalid = ''CONFIG_RETRY_POLICY_INVALID''"
  | "config_as_str ConfigPassiveHealthPolicyInvalid = ''CONFIG_PASSIVE_HEALTH_POLICY_INVALID''"
  | "config_as_str ConfigInvalidUpstreamUrl = ''CONFIG_INVALID_UPSTREAM_URL''"
  | "config_as_str ConfigTrustBundleRefInvalid = ''CONFIG_TRUST_BUNDLE_REF_INVALID''"
  | "config_as_str ConfigTrustBundleNotFound = ''CONFIG_TRUST_BUNDLE_NOT_FOUND''"
  | "config_as_str ConfigTlsServerNameInvalid = ''CONFIG_TLS_SERVER_NAME_INVALID''"
  | "config_as_str ConfigUpstreamHttpHostInvalid = ''CONFIG_UPSTREAM_HTTP_HOST_INVALID''"
  | "config_as_str ConfigTlsPolicyInvalid = ''CONFIG_TLS_POLICY_INVALID''"
  | "config_as_str ConfigClientAuthPolicyInvalid = ''CONFIG_CLIENT_AUTH_POLICY_INVALID''"
  | "config_as_str ConfigUpstreamIdDuplicate = ''CONFIG_UPSTREAM_ID_DUPLICATE''"
  | "config_as_str ConfigUpstreamIdRequired = ''CONFIG_UPSTREAM_ID_REQUIRED''"
  | "config_as_str ConfigListenerDuplicate = ''CONFIG_LISTENER_DUPLICATE''"
  | "config_as_str ConfigProductionAcmeRequiresOptIn = ''CONFIG_PRODUCTION_ACME_REQUIRES_OPT_IN''"
  | "config_as_str ConfigCurrentRevisionInvalid = ''CONFIG_CURRENT_REVISION_INVALID''"
  | "config_as_str ConfigCurrentRevisionMissing = ''CONFIG_CURRENT_REVISION_MISSING''"
  | "config_as_str ConfigBootstrapSeedInvalid = ''CONFIG_BOOTSTRAP_SEED_INVALID''"
  | "config_as_str ConfigRevisionNotFound = ''CONFIG_REVISION_NOT_FOUND''"
  | "config_as_str ConfigRouteDuplicate = ''CONFIG_ROUTE_DUPLICATE''"
  | "config_as_str ConfigRouteMatchEmpty = ''CONFIG_ROUTE_MATCH_EMPTY''"
  | "config_as_str ConfigRouteMissingService = ''CONFIG_ROUTE_MISSING_SERVICE''"
  | "config_as_str ConfigSchemaVersionMissing = ''CONFIG_SCHEMA_VERSION_MISSING''"
  | "config_as_str ConfigServiceWithoutUpstream = ''CONFIG_SERVICE_WITHOUT_UPSTREAM''"
  | "config_as_str ConfigStoreFailed = ''CONFIG_STORE_FAILED''"
  | "config_as_str ConfigUnsafeUpstreamUrl = ''CONFIG_UNSAFE_UPSTREAM_URL''"

primrec trust_as_str :: "TrustCode \<Rightarrow> string" where
    "trust_as_str TrustBundleInvalid = ''TRUST_BUNDLE_INVALID''"
  | "trust_as_str TrustBundleAlreadyExists = ''TRUST_BUNDLE_ALREADY_EXISTS''"
  | "trust_as_str TrustBundleLimitExceeded = ''TRUST_BUNDLE_LIMIT_EXCEEDED''"
  | "trust_as_str TrustBundleReferenced = ''TRUST_BUNDLE_REFERENCED''"
  | "trust_as_str TrustBundleStoreFailed = ''TRUST_BUNDLE_STORE_FAILED''"
  | "trust_as_str UpstreamTlsUntrusted = ''UPSTREAM_TLS_UNTRUSTED''"
  | "trust_as_str UpstreamTlsIdentityMismatch = ''UPSTREAM_TLS_IDENTITY_MISMATCH''"
  | "trust_as_str UpstreamTlsProfileInvalid = ''UPSTREAM_TLS_PROFILE_INVALID''"
  | "trust_as_str TlsHandshakeFailed = ''TLS_HANDSHAKE_FAILED''"
  | "trust_as_str TlsHandshakeTimeout = ''TLS_HANDSHAKE_TIMEOUT''"

primrec admin_as_str :: "AdminCode \<Rightarrow> string" where
    "admin_as_str AcmeChallengeFailed = ''ACME_CHALLENGE_FAILED''"
  | "admin_as_str AcmeTermsNotAccepted = ''ACME_TERMS_NOT_ACCEPTED''"
  | "admin_as_str AdminAuthRequired = ''ADMIN_AUTH_REQUIRED''"
  | "admin_as_str AdminCsrfRequired = ''ADMIN_CSRF_REQUIRED''"
  | "admin_as_str AdminEndpointNotImplemented = ''ADMIN_ENDPOINT_NOT_IMPLEMENTED''"
  | "admin_as_str AdminInvalidCredentials = ''ADMIN_INVALID_CREDENTIALS''"
  | "admin_as_str AdminRouteNotFound = ''ADMIN_ROUTE_NOT_FOUND''"
  | "admin_as_str AdminSetupAlreadyComplete = ''ADMIN_SETUP_ALREADY_COMPLETE''"
  | "admin_as_str AdminSetupRequired = ''ADMIN_SETUP_REQUIRED''"
  | "admin_as_str CertificateExpired = ''CERTIFICATE_EXPIRED''"
  | "admin_as_str CertificateInvalid = ''CERTIFICATE_INVALID''"
  | "admin_as_str CertificateNotFound = ''CERTIFICATE_NOT_FOUND''"
  | "admin_as_str CertificateStoreFailed = ''CERTIFICATE_STORE_FAILED''"

primrec http_as_str :: "HttpCode \<Rightarrow> string" where
    "http_as_str HttpConnectMethodRejected = ''HTTP_CONNECT_METHOD_REJECTED''"
  | "http_as_str HttpHeaderTooLarge = ''HTTP_HEADER_TOO_LARGE''"
  | "http_as_str HttpMalformedRequest = ''HTTP_MALFORMED_REQUEST''"
  | "http_as_str HttpRequestBodyTooLarge = ''HTTP_REQUEST_BODY_TOO_LARGE''"
  | "http_as_str HttpRequestLineTooLarge = ''HTTP_REQUEST_LINE_TOO_LARGE''"
  | "http_as_str HttpTransferEncodingContentLengthConflict = ''HTTP_TRANSFER_ENCODING_CONTENT_LENGTH_CONFLICT''"

primrec runtime_as_str :: "RuntimeCode \<Rightarrow> string" where
    "runtime_as_str RuntimeCommandRejected = ''RUNTIME_COMMAND_REJECTED''"
  | "runtime_as_str RuntimeHealthUnavailable = ''RUNTIME_HEALTH_UNAVAILABLE''"
  | "runtime_as_str RuntimeUpstreamBadGateway = ''RUNTIME_UPSTREAM_BAD_GATEWAY''"
  | "runtime_as_str RuntimeUpstreamTimeout = ''RUNTIME_UPSTREAM_TIMEOUT''"
  | "runtime_as_str ResourcePayloadCapacityReached = ''RESOURCE_PAYLOAD_CAPACITY_REACHED''"
  | "runtime_as_str ResourceAllocationFailed = ''RESOURCE_ALLOCATION_FAILED''"
  | "runtime_as_str ResourceAccountingInvariantFailed = ''RESOURCE_ACCOUNTING_INVARIANT_FAILED''"

primrec process_as_str :: "ProcessCode \<Rightarrow> string" where
    "process_as_str SupportBundleBoundsExceeded = ''SUPPORT_BUNDLE_BOUNDS_EXCEEDED''"
  | "process_as_str SupportBundleReportInvalid = ''SUPPORT_BUNDLE_REPORT_INVALID''"
  | "process_as_str ProcessCommandInvalid = ''PROCESS_COMMAND_INVALID''"
  | "process_as_str ProcessCommandNotImplemented = ''PROCESS_COMMAND_NOT_IMPLEMENTED''"
  | "process_as_str DataDirectoryBusy = ''DATA_DIRECTORY_BUSY''"
  | "process_as_str DataDirectoryLockFailed = ''DATA_DIRECTORY_LOCK_FAILED''"
  | "process_as_str DataDirectoryLockStateInvalid = ''DATA_DIRECTORY_LOCK_STATE_INVALID''"
  | "process_as_str InternalBug = ''INTERNAL_BUG''"

primrec backup_as_str :: "BackupCode \<Rightarrow> string" where
    "backup_as_str BackupManifestInvalid = ''BACKUP_MANIFEST_INVALID''"
  | "backup_as_str BackupSchemaUnsupported = ''BACKUP_SCHEMA_UNSUPPORTED''"
  | "backup_as_str BackupLimitExceeded = ''BACKUP_LIMIT_EXCEEDED''"
  | "backup_as_str BackupSecretInputInvalid = ''BACKUP_SECRET_INPUT_INVALID''"
  | "backup_as_str BackupSourceInvalid = ''BACKUP_SOURCE_INVALID''"
  | "backup_as_str BackupSourceChanged = ''BACKUP_SOURCE_CHANGED''"
  | "backup_as_str BackupDestinationUnsafe = ''BACKUP_DESTINATION_UNSAFE''"
  | "backup_as_str BackupDestinationExists = ''BACKUP_DESTINATION_EXISTS''"
  | "backup_as_str BackupEncryptionFailed = ''BACKUP_ENCRYPTION_FAILED''"
  | "backup_as_str BackupWriteFailed = ''BACKUP_WRITE_FAILED''"
  | "backup_as_str BackupPublishFailed = ''BACKUP_PUBLISH_FAILED''"
  | "backup_as_str BackupStateTransitionInvalid = ''BACKUP_STATE_TRANSITION_INVALID''"
  | "backup_as_str BackupAuthenticationFailed = ''BACKUP_AUTHENTICATION_FAILED''"
  | "backup_as_str BackupFormatInvalid = ''BACKUP_FORMAT_INVALID''"
  | "backup_as_str BackupDigestMismatch = ''BACKUP_DIGEST_MISMATCH''"
  | "backup_as_str BackupPathUnsafe = ''BACKUP_PATH_UNSAFE''"

primrec restore_as_str :: "RestoreCode \<Rightarrow> string" where
    "restore_as_str RestoreTargetBusy = ''RESTORE_TARGET_BUSY''"
  | "restore_as_str RestoreTargetNotEmpty = ''RESTORE_TARGET_NOT_EMPTY''"
  | "restore_as_str RestoreTargetUnsafe = ''RESTORE_TARGET_UNSAFE''"
  | "restore_as_str RestoreStageFailed = ''RESTORE_STAGE_FAILED''"
  | "restore_as_str RestoreConfigInvalid = ''RESTORE_CONFIG_INVALID''"
  | "restore_as_str RestoreCertificateInvalid = ''RESTORE_CERTIFICATE_INVALID''"
  | "restore_as_str RestoreSecretInvalid = ''RESTORE_SECRET_INVALID''"
  | "restore_as_str RestorePreflightFailed = ''RESTORE_PREFLIGHT_FAILED''"
  | "restore_as_str RestoreCommitFailed = ''RESTORE_COMMIT_FAILED''"
  | "restore_as_str RestoreRollbackFailed = ''RESTORE_ROLLBACK_FAILED''"
  | "restore_as_str RestoreTransactionUnresolved = ''RESTORE_TRANSACTION_UNRESOLVED''"
  | "restore_as_str RestoreTransactionAmbiguous = ''RESTORE_TRANSACTION_AMBIGUOUS''"
  | "restore_as_str RestorePlatformUnsupported = ''RESTORE_PLATFORM_UNSUPPORTED''"
  | "restore_as_str RestoreStateTransitionInvalid = ''RESTORE_STATE_TRANSITION_INVALID''"

primrec audit_as_str :: "AuditCode \<Rightarrow> string" where
    "audit_as_str AuditUnavailable = ''AUDIT_UNAVAILABLE''"
  | "audit_as_str AuditMutationBlocked = ''AUDIT_MUTATION_BLOCKED''"
  | "audit_as_str AuditRecordInvalid = ''AUDIT_RECORD_INVALID''"
  | "audit_as_str AuditRecordTooLarge = ''AUDIT_RECORD_TOO_LARGE''"
  | "audit_as_str AuditCapacityReached = ''AUDIT_CAPACITY_REACHED''"
  | "audit_as_str AuditSequenceInvalid = ''AUDIT_SEQUENCE_INVALID''"
  | "audit_as_str AuditChainMismatch = ''AUDIT_CHAIN_MISMATCH''"
  | "audit_as_str AuditInteriorCorruption = ''AUDIT_INTERIOR_CORRUPTION''"
  | "audit_as_str AuditTrailingFrameIncomplete = ''AUDIT_TRAILING_FRAME_INCOMPLETE''"
  | "audit_as_str AuditUnsupportedVersion = ''AUDIT_UNSUPPORTED_VERSION''"
  | "audit_as_str AuditAppendFailed = ''AUDIT_APPEND_FAILED''"
  | "audit_as_str AuditSyncFailed = ''AUDIT_SYNC_FAILED''"
  | "audit_as_str AuditCursorInvalid = ''AUDIT_CURSOR_INVALID''"
  | "audit_as_str AuditReconciliationUnknown = ''AUDIT_RECONCILIATION_UNKNOWN''"

primrec as_str :: "ErrorCode \<Rightarrow> string" where
    "as_str (Config c) = config_as_str c"
  | "as_str (Trust c) = trust_as_str c"
  | "as_str (Admin c) = admin_as_str c"
  | "as_str (Http c) = http_as_str c"
  | "as_str (Runtime c) = runtime_as_str c"
  | "as_str (Process c) = process_as_str c"
  | "as_str (Backup c) = backup_as_str c"
  | "as_str (Restore c) = restore_as_str c"
  | "as_str (Audit c) = audit_as_str c"

primrec config_default_user_message :: "ConfigCode \<Rightarrow> string" where
    "config_default_user_message ConfigAdminBindConflict = ''The admin bind address conflicts with a listener.''"
  | "config_default_user_message ConfigAdminExternalBindWithoutAuth = ''Admin access exposed outside localhost requires authentication.''"
  | "config_default_user_message ConfigAcmeChallengeBlockedByRedirect = ''ACME HTTP-01 challenge traffic must not be blocked by redirects.''"
  | "config_default_user_message ConfigHttp01WithoutHttpListener = ''ACME HTTP-01 requires an HTTP listener.''"
  | "config_default_user_message ConfigHttpsRouteCertificateMissing = ''HTTPS routes require a certificate reference or resolver.''"
  | "config_default_user_message ConfigInvalidAcmeEmail = ''The ACME account email is invalid.''"
  | "config_default_user_message ConfigInvalidBindAddress = ''The bind address is invalid.''"
  | "config_default_user_message ConfigHealthCheckInvalidInterval = ''The health-check timing values are invalid.''"
  | "config_default_user_message ConfigHealthCheckInvalidPath = ''The health-check path is invalid.''"
  | "config_default_user_message ConfigHealthCheckInvalidStatusRange = ''The health-check status range is invalid.''"
  | "config_default_user_message ConfigHealthCheckInvalidThreshold = ''The health-check threshold is invalid.''"
  | "config_default_user_message ConfigInvalidLoadBalancingPolicy = ''The load-balancing policy is not supported.''"
  | "config_default_user_message ConfigInvalidLogMode = ''The log mode is not supported.''"
  | "config_default_user_message ConfigResourceLimitInvalid = ''The runtime resource limit is invalid.''"
  | "config_default_user_message ConfigRetryPolicyInvalid = ''The retry policy is invalid.''"
  | "config_default_user_message ConfigPassiveHealthPolicyInvalid = ''The passive health policy is invalid.''"
  | "config_default_user_message ConfigInvalidUpstreamUrl = ''The upstream URL is not supported.''"
  | "config_default_user_message ConfigTrustBundleRefInvalid = ''The trust bundle reference is invalid.''"
  | "config_default_user_message ConfigTrustBundleNotFound = ''The referenced trust bundle was not found.''"
  | "config_default_user_message ConfigTlsServerNameInvalid = ''The TLS server name is invalid.''"
  | "config_default_user_message ConfigUpstreamHttpHostInvalid = ''The upstream HTTP Host is invalid.''"
  | "config_default_user_message ConfigTlsPolicyInvalid = ''The upstream TLS policy is invalid.''"
  | "config_default_user_message ConfigClientAuthPolicyInvalid = ''The listener client-auth policy is invalid.''"
  | "config_default_user_message ConfigUpstreamIdDuplicate = ''Upstream names must be unique within a service.''"
  | "config_default_user_message ConfigUpstreamIdRequired = ''Multiple upstreams require explicit stable names.''"
  | "config_default_user_message ConfigListenerDuplicate = ''A listener with the same id already exists.''"
  | "config_default_user_message ConfigProductionAcmeRequiresOptIn = ''Production ACME requires explicit opt-in.''"
  | "config_default_user_message ConfigCurrentRevisionInvalid = ''The current config revision is invalid.''"
  | "config_default_user_message ConfigCurrentRevisionMissing = ''The current config revision is missing.''"
  | "config_default_user_message ConfigBootstrapSeedInvalid = ''The bootstrap config seed is invalid.''"
  | "config_default_user_message ConfigRevisionNotFound = ''The requested config revision was not found.''"
  | "config_default_user_message ConfigRouteDuplicate = ''A route with the same match already exists.''"
  | "config_default_user_message ConfigRouteMatchEmpty = ''A route must include at least one host and one path.''"
  | "config_default_user_message ConfigRouteMissingService = ''The route references a missing service.''"
  | "config_default_user_message ConfigSchemaVersionMissing = ''The config schema version is required.''"
  | "config_default_user_message ConfigServiceWithoutUpstream = ''A service must have at least one upstream.''"
  | "config_default_user_message ConfigStoreFailed = ''The config store operation failed.''"
  | "config_default_user_message ConfigUnsafeUpstreamUrl = ''The upstream URL targets a blocked metadata endpoint.''"

primrec trust_default_user_message :: "TrustCode \<Rightarrow> string" where
    "trust_default_user_message TrustBundleInvalid = ''The trust bundle material is invalid.''"
  | "trust_default_user_message TrustBundleAlreadyExists = ''The trust bundle reference already exists.''"
  | "trust_default_user_message TrustBundleLimitExceeded = ''The trust bundle resource limit was exceeded.''"
  | "trust_default_user_message TrustBundleReferenced = ''The trust bundle is referenced by a config revision.''"
  | "trust_default_user_message TrustBundleStoreFailed = ''The trust bundle store operation failed.''"
  | "trust_default_user_message UpstreamTlsUntrusted = ''The upstream TLS certificate is not trusted.''"
  | "trust_default_user_message UpstreamTlsIdentityMismatch = ''The upstream TLS identity does not match.''"
  | "trust_default_user_message UpstreamTlsProfileInvalid = ''The upstream TLS profile is invalid.''"
  | "trust_default_user_message TlsHandshakeFailed = ''The TLS handshake failed.''"
  | "trust_default_user_message TlsHandshakeTimeout = ''The TLS handshake timed out.''"

primrec admin_default_user_message :: "AdminCode \<Rightarrow> string" where
    "admin_default_user_message AcmeChallengeFailed = ''The ACME challenge failed.''"
  | "admin_default_user_message AcmeTermsNotAccepted = ''ACME terms of service must be accepted first.''"
  | "admin_default_user_message AdminAuthRequired = ''Admin authentication is required.''"
  | "admin_default_user_message AdminCsrfRequired = ''A valid CSRF token is required.''"
  | "admin_default_user_message AdminEndpointNotImplemented = ''The admin endpoint is not implemented yet.''"
  | "admin_default_user_message AdminInvalidCredentials = ''The admin credentials are invalid.''"
  | "admin_default_user_message AdminRouteNotFound = ''The admin route was not found.''"
  | "admin_default_user_message AdminSetupAlreadyComplete = ''Admin setup is already complete.''"
  | "admin_default_user_message AdminSetupRequired = ''Admin setup is required before login.''"
  | "admin_default_user_message CertificateExpired = ''The certificate is expired.''"
  | "admin_default_user_message CertificateInvalid = ''The certificate material is invalid.''"
  | "admin_default_user_message CertificateNotFound = ''The certificate was not found.''"
  | "admin_default_user_message CertificateStoreFailed = ''The certificate store operation failed.''"

primrec http_default_user_message :: "HttpCode \<Rightarrow> string" where
    "http_default_user_message HttpConnectMethodRejected = ''CONNECT is not supported by this reverse proxy.''"
  | "http_default_user_message HttpHeaderTooLarge = ''The request headers are too large.''"
  | "http_default_user_message HttpMalformedRequest = ''The HTTP request is malformed.''"
  | "http_default_user_message HttpRequestBodyTooLarge = ''The request body is too large.''"
  | "http_default_user_message HttpRequestLineTooLarge = ''The request line is too large.''"
  | "http_default_user_message HttpTransferEncodingContentLengthConflict = ''Transfer-Encoding and Content-Length cannot be combined.''"

primrec runtime_default_user_message :: "RuntimeCode \<Rightarrow> string" where
    "runtime_default_user_message RuntimeCommandRejected = ''The runtime rejected the command.''"
  | "runtime_default_user_message RuntimeHealthUnavailable = ''Runtime health status is unavailable.''"
  | "runtime_default_user_message RuntimeUpstreamBadGateway = ''The upstream returned bad gateway.''"
  | "runtime_default_user_message RuntimeUpstreamTimeout = ''The upstream timed out.''"
  | "runtime_default_user_message ResourcePayloadCapacityReached = ''The runtime payload capacity was reached.''"
  | "runtime_default_user_message ResourceAllocationFailed = ''The runtime payload allocation failed.''"
  | "runtime_default_user_message ResourceAccountingInvariantFailed = ''The runtime resource accounting invariant failed.''"

primrec process_default_user_message :: "ProcessCode \<Rightarrow> string" where
    "process_default_user_message SupportBundleBoundsExceeded = ''The support bundle exceeded its collection bounds.''"
  | "process_default_user_message SupportBundleReportInvalid = ''The support bundle collector returned an invalid report.''"
  | "process_default_user_message ProcessCommandInvalid = ''The process command is invalid.''"
  | "process_default_user_message ProcessCommandNotImplemented = ''The process command is not implemented yet.''"
  | "process_default_user_message DataDirectoryBusy = ''The data directory is in use by another process.''"
  | "process_default_user_message DataDirectoryLockFailed = ''The data directory lock operation failed.''"
  | "process_default_user_message DataDirectoryLockStateInvalid = ''The data directory lock state is invalid.''"
  | "process_default_user_message InternalBug = ''An internal error occurred.''"

primrec backup_default_user_message :: "BackupCode \<Rightarrow> string" where
    "backup_default_user_message BackupManifestInvalid = ''The backup manifest is invalid.''"
  | "backup_default_user_message BackupSchemaUnsupported = ''The backup schema is not supported.''"
  | "backup_default_user_message BackupLimitExceeded = ''The backup resource limit was exceeded.''"
  | "backup_default_user_message BackupSecretInputInvalid = ''The backup secret input is invalid.''"
  | "backup_default_user_message BackupSourceInvalid = ''The backup source is invalid.''"
  | "backup_default_user_message BackupSourceChanged = ''The backup source changed during creation.''"
  | "backup_default_user_message BackupDestinationUnsafe = ''The backup destination is unsafe.''"
  | "backup_default_user_message BackupDestinationExists = ''The backup destination already exists.''"
  | "backup_default_user_message BackupEncryptionFailed = ''The backup encryption operation failed.''"
  | "backup_default_user_message BackupWriteFailed = ''The backup write operation failed.''"
  | "backup_default_user_message BackupPublishFailed = ''The backup publish operation failed.''"
  | "backup_default_user_message BackupStateTransitionInvalid = ''The backup state transition is invalid.''"
  | "backup_default_user_message BackupAuthenticationFailed = ''The backup could not be authenticated.''"
  | "backup_default_user_message BackupFormatInvalid = ''The backup format is invalid.''"
  | "backup_default_user_message BackupDigestMismatch = ''The backup digest does not match.''"
  | "backup_default_user_message BackupPathUnsafe = ''The backup contains an unsafe path.''"

primrec restore_default_user_message :: "RestoreCode \<Rightarrow> string" where
    "restore_default_user_message RestoreTargetBusy = ''The restore target is in use.''"
  | "restore_default_user_message RestoreTargetNotEmpty = ''The restore target is not empty.''"
  | "restore_default_user_message RestoreTargetUnsafe = ''The restore target is unsafe.''"
  | "restore_default_user_message RestoreStageFailed = ''The restore staging operation failed.''"
  | "restore_default_user_message RestoreConfigInvalid = ''The restored configuration is invalid.''"
  | "restore_default_user_message RestoreCertificateInvalid = ''A restored certificate is invalid.''"
  | "restore_default_user_message RestoreSecretInvalid = ''A restored secret is invalid.''"
  | "restore_default_user_message RestorePreflightFailed = ''The restored runtime preflight failed.''"
  | "restore_default_user_message RestoreCommitFailed = ''The restore commit failed.''"
  | "restore_default_user_message RestoreRollbackFailed = ''The restore rollback failed.''"
  | "restore_default_user_message RestoreTransactionUnresolved = ''The restore transaction is unresolved.''"
  | "restore_default_user_message RestoreTransactionAmbiguous = ''The restore transaction state is ambiguous.''"
  | "restore_default_user_message RestorePlatformUnsupported = ''The restore operation is unsupported on this platform.''"
  | "restore_default_user_message RestoreStateTransitionInvalid = ''The restore state transition is invalid.''"

primrec audit_default_user_message :: "AuditCode \<Rightarrow> string" where
    "audit_default_user_message AuditUnavailable = ''The audit ledger is unavailable.''"
  | "audit_default_user_message AuditMutationBlocked = ''Persistent mutation is blocked by audit state.''"
  | "audit_default_user_message AuditRecordInvalid = ''The audit record is invalid.''"
  | "audit_default_user_message AuditRecordTooLarge = ''The audit record exceeds the size limit.''"
  | "audit_default_user_message AuditCapacityReached = ''The audit ledger capacity was reached.''"
  | "audit_default_user_message AuditSequenceInvalid = ''The audit ledger sequence is invalid.''"
  | "audit_default_user_message AuditChainMismatch = ''The audit ledger hash chain does not match.''"
  | "audit_default_user_message AuditInteriorCorruption = ''The audit ledger contains interior corruption.''"
  | "audit_default_user_message AuditTrailingFrameIncomplete = ''The audit ledger has an incomplete trailing frame.''"
  | "audit_default_user_message AuditUnsupportedVersion = ''The audit ledger version is unsupported.''"
  | "audit_default_user_message AuditAppendFailed = ''The audit record could not be persisted.''"
  | "audit_default_user_message AuditSyncFailed = ''The audit ledger could not be synchronized.''"
  | "audit_default_user_message AuditCursorInvalid = ''The audit query cursor is stale or invalid.''"
  | "audit_default_user_message AuditReconciliationUnknown = ''The authoritative operation state could not be reconciled.''"

primrec default_user_message :: "ErrorCode \<Rightarrow> string" where
    "default_user_message (Config c) = config_default_user_message c"
  | "default_user_message (Trust c) = trust_default_user_message c"
  | "default_user_message (Admin c) = admin_default_user_message c"
  | "default_user_message (Http c) = http_default_user_message c"
  | "default_user_message (Runtime c) = runtime_default_user_message c"
  | "default_user_message (Process c) = process_default_user_message c"
  | "default_user_message (Backup c) = backup_default_user_message c"
  | "default_user_message (Restore c) = restore_default_user_message c"
  | "default_user_message (Audit c) = audit_default_user_message c"

definition all_error_codes :: "ErrorCode list" where
  "all_error_codes = [
    Admin AcmeChallengeFailed, Admin AcmeTermsNotAccepted, Admin AdminAuthRequired,
    Admin AdminCsrfRequired, Admin AdminEndpointNotImplemented, Admin AdminInvalidCredentials,
    Admin AdminRouteNotFound, Admin AdminSetupAlreadyComplete, Admin AdminSetupRequired,
    Audit AuditAppendFailed, Audit AuditCapacityReached, Audit AuditChainMismatch,
    Audit AuditCursorInvalid, Audit AuditInteriorCorruption, Audit AuditMutationBlocked,
    Audit AuditReconciliationUnknown, Audit AuditRecordInvalid, Audit AuditRecordTooLarge,
    Audit AuditSequenceInvalid, Audit AuditSyncFailed, Audit AuditTrailingFrameIncomplete,
    Audit AuditUnavailable, Audit AuditUnsupportedVersion, Backup BackupAuthenticationFailed,
    Backup BackupDestinationExists, Backup BackupDestinationUnsafe, Backup BackupDigestMismatch,
    Backup BackupEncryptionFailed, Backup BackupFormatInvalid, Backup BackupLimitExceeded,
    Backup BackupManifestInvalid, Backup BackupPathUnsafe, Backup BackupPublishFailed,
    Backup BackupSchemaUnsupported, Backup BackupSecretInputInvalid, Backup BackupSourceChanged,
    Backup BackupSourceInvalid, Backup BackupStateTransitionInvalid, Backup BackupWriteFailed,
    Admin CertificateExpired, Admin CertificateInvalid, Admin CertificateNotFound,
    Admin CertificateStoreFailed, Config ConfigAcmeChallengeBlockedByRedirect,
    Config ConfigAdminBindConflict, Config ConfigAdminExternalBindWithoutAuth,
    Config ConfigBootstrapSeedInvalid, Config ConfigClientAuthPolicyInvalid,
    Config ConfigCurrentRevisionInvalid, Config ConfigCurrentRevisionMissing,
    Config ConfigHealthCheckInvalidInterval, Config ConfigHealthCheckInvalidPath,
    Config ConfigHealthCheckInvalidStatusRange, Config ConfigHealthCheckInvalidThreshold,
    Config ConfigHttp01WithoutHttpListener, Config ConfigHttpsRouteCertificateMissing,
    Config ConfigInvalidAcmeEmail, Config ConfigInvalidBindAddress,
    Config ConfigInvalidLoadBalancingPolicy, Config ConfigInvalidLogMode,
    Config ConfigInvalidUpstreamUrl, Config ConfigListenerDuplicate,
    Config ConfigPassiveHealthPolicyInvalid, Config ConfigProductionAcmeRequiresOptIn,
    Config ConfigResourceLimitInvalid, Config ConfigRetryPolicyInvalid,
    Config ConfigRevisionNotFound, Config ConfigRouteDuplicate, Config ConfigRouteMatchEmpty,
    Config ConfigRouteMissingService, Config ConfigSchemaVersionMissing,
    Config ConfigServiceWithoutUpstream, Config ConfigStoreFailed, Config ConfigTlsPolicyInvalid,
    Config ConfigTlsServerNameInvalid, Config ConfigTrustBundleNotFound,
    Config ConfigTrustBundleRefInvalid, Config ConfigUnsafeUpstreamUrl,
    Config ConfigUpstreamHttpHostInvalid, Config ConfigUpstreamIdDuplicate,
    Config ConfigUpstreamIdRequired, Process DataDirectoryBusy, Process DataDirectoryLockFailed,
    Process DataDirectoryLockStateInvalid, Http HttpConnectMethodRejected,
    Http HttpHeaderTooLarge, Http HttpMalformedRequest, Http HttpRequestBodyTooLarge,
    Http HttpRequestLineTooLarge, Http HttpTransferEncodingContentLengthConflict,
    Process InternalBug, Process ProcessCommandInvalid, Process ProcessCommandNotImplemented,
    Runtime ResourceAccountingInvariantFailed, Runtime ResourceAllocationFailed,
    Runtime ResourcePayloadCapacityReached, Restore RestoreCertificateInvalid,
    Restore RestoreCommitFailed, Restore RestoreConfigInvalid,
    Restore RestorePlatformUnsupported, Restore RestorePreflightFailed,
    Restore RestoreRollbackFailed, Restore RestoreSecretInvalid, Restore RestoreStageFailed,
    Restore RestoreStateTransitionInvalid, Restore RestoreTargetBusy,
    Restore RestoreTargetNotEmpty, Restore RestoreTargetUnsafe,
    Restore RestoreTransactionAmbiguous, Restore RestoreTransactionUnresolved,
    Runtime RuntimeCommandRejected, Runtime RuntimeHealthUnavailable,
    Runtime RuntimeUpstreamBadGateway, Runtime RuntimeUpstreamTimeout,
    Process SupportBundleBoundsExceeded, Process SupportBundleReportInvalid,
    Trust TlsHandshakeFailed, Trust TlsHandshakeTimeout, Trust TrustBundleAlreadyExists,
    Trust TrustBundleInvalid, Trust TrustBundleLimitExceeded, Trust TrustBundleReferenced,
    Trust TrustBundleStoreFailed, Trust UpstreamTlsIdentityMismatch,
    Trust UpstreamTlsProfileInvalid, Trust UpstreamTlsUntrusted]"

record AppError =
  err_code :: ErrorCode
  err_message :: string

definition app_error :: "ErrorCode \<Rightarrow> string \<Rightarrow> AppError" where
  "app_error c m = \<lparr>err_code = c, err_message = m\<rparr>"

type_synonym 'a app = "('a, AppError) result"

lemma err_code_app_error [simp]: "err_code (app_error c m) = c"
  by (simp add: app_error_def)

lemma app_error_eq [simp]: "app_error c m = app_error c' m' \<longleftrightarrow> c = c' \<and> m = m'"
  by (simp add: app_error_def)

section \<open>The code table\<close>

lemma all_error_codes_complete: "c \<in> set all_error_codes"
proof (cases c)
  case (Config x) then show ?thesis by (cases x) (simp_all add: all_error_codes_def)
next
  case (Trust x) then show ?thesis by (cases x) (simp_all add: all_error_codes_def)
next
  case (Admin x) then show ?thesis by (cases x) (simp_all add: all_error_codes_def)
next
  case (Http x) then show ?thesis by (cases x) (simp_all add: all_error_codes_def)
next
  case (Runtime x) then show ?thesis by (cases x) (simp_all add: all_error_codes_def)
next
  case (Process x) then show ?thesis by (cases x) (simp_all add: all_error_codes_def)
next
  case (Backup x) then show ?thesis by (cases x) (simp_all add: all_error_codes_def)
next
  case (Restore x) then show ?thesis by (cases x) (simp_all add: all_error_codes_def)
next
  case (Audit x) then show ?thesis by (cases x) (simp_all add: all_error_codes_def)
qed

lemma as_str_increasing: "successively (<) (map as_str all_error_codes)"
  by code_simp

lemma as_str_distinct: "distinct (map as_str all_error_codes)"
  using as_str_increasing by (simp add: successively_conv_sorted_wrt strict_sorted_iff)

lemma as_str_inj: "inj as_str"
proof -
  have "set all_error_codes = UNIV" using all_error_codes_complete by auto
  then show ?thesis using as_str_distinct by (simp add: distinct_map)
qed

end
