(* ===== verification/Contracts.thy ===== *)
theory Contracts
  imports Prelude
begin

text \<open>
  The contracts between the components, as locales. A locale fixes the operations a client
  calls and assumes the laws the provider keeps; what clients need is proved here once. Each
  locale is interpreted on the model of the provider, in the provider's theory.

  \<^item> \<open>payload_budget\<close>: an account of live charges below a limit, as the charge slots of a
    connection use it. Provided by \<^verbatim>\<open>Ledger\<close>.
  \<^item> \<open>chunked_reader\<close>: an incremental reader whose result does not depend on how its input is
    cut into chunks. Provided by the request buffer of \<^verbatim>\<open>HttpRequest\<close>.
\<close>

section \<open>A bounded account of charges\<close>

locale payload_budget =
  fixes inv :: "'l \<Rightarrow> bool"
    and live :: "'l \<Rightarrow> nat \<rightharpoonup> nat"
    and limit :: "'l \<Rightarrow> nat"
    and acquire :: "nat \<Rightarrow> 'l \<Rightarrow> (nat, 'e) result \<times> 'l"
    and adjust :: "nat \<Rightarrow> nat \<Rightarrow> 'l \<Rightarrow> (unit, 'e) result \<times> 'l"
    and discharge :: "nat \<Rightarrow> 'l \<Rightarrow> (unit, 'e) result \<times> 'l"
  assumes finite_live: "inv l \<Longrightarrow> finite (dom (live l))"
    and within_limit: "inv l \<Longrightarrow> map_total id (live l) \<le> limit l"
    and live_pos: "inv l \<Longrightarrow> live l i = Some n \<Longrightarrow> 0 < n"
    and acquire_Ok: "inv l \<Longrightarrow> acquire n l = (Ok i, l') \<Longrightarrow>
      live l i = None \<and> live l' = (live l)(i \<mapsto> n) \<and> inv l' \<and> limit l' = limit l"
    and acquire_Err: "inv l \<Longrightarrow> acquire n l = (Err e, l') \<Longrightarrow>
      live l' = live l \<and> inv l' \<and> limit l' = limit l"
    and adjust_Ok: "inv l \<Longrightarrow> adjust i n l = (Ok u, l') \<Longrightarrow>
      live l i \<noteq> None \<and> live l' = (live l)(i \<mapsto> n) \<and> inv l' \<and> limit l' = limit l"
    and adjust_Err: "inv l \<Longrightarrow> adjust i n l = (Err e, l') \<Longrightarrow>
      live l' = live l \<and> inv l' \<and> limit l' = limit l"
    and adjust_fits: "inv l \<Longrightarrow> live l i = Some m \<Longrightarrow> 0 < n \<Longrightarrow>
      map_total id (live l) - m + n \<le> limit l \<Longrightarrow> \<exists>l'. adjust i n l = (Ok (), l')"
    and discharge_Ok: "inv l \<Longrightarrow> discharge i l = (Ok u, l') \<Longrightarrow>
      live l i \<noteq> None \<and> live l' = (live l)(i := None) \<and> inv l' \<and> limit l' = limit l"
    and discharge_Err: "inv l \<Longrightarrow> discharge i l = (Err e, l') \<Longrightarrow>
      live l' = live l \<and> inv l' \<and> limit l' = limit l"
    and discharge_live: "inv l \<Longrightarrow> live l i = Some n \<Longrightarrow> \<exists>l'. discharge i l = (Ok (), l')"
begin

lemma acquire_inv: "inv l \<Longrightarrow> acquire n l = (r, l') \<Longrightarrow> inv l'"
  using acquire_Ok acquire_Err by (cases r) blast+

lemma adjust_inv: "inv l \<Longrightarrow> adjust i n l = (r, l') \<Longrightarrow> inv l'"
  using adjust_Ok adjust_Err by (cases r) blast+

lemma discharge_inv: "inv l \<Longrightarrow> discharge i l = (r, l') \<Longrightarrow> inv l'"
  using discharge_Ok discharge_Err by (cases r) blast+

lemma discharge_frame:
  "inv l \<Longrightarrow> discharge i l = (r, l') \<Longrightarrow> j \<noteq> i \<Longrightarrow> live l' j = live l j"
  using discharge_Ok discharge_Err by (cases r) (metis fun_upd_apply)+

lemma acquire_discharge:
  assumes "inv l" "acquire n l = (Ok i, l1)"
  shows "\<exists>l2. discharge i l1 = (Ok (), l2) \<and> live l2 = live l \<and> inv l2"
proof -
  note a = acquire_Ok[OF assms]
  then obtain l2 where d: "discharge i l1 = (Ok (), l2)" using discharge_live[of l1 i n] by auto
  with discharge_Ok[OF _ d] a have "live l2 = (live l)(i := None)" "inv l2" by auto
  then show ?thesis using a d by auto
qed

lemma adjust_back:
  assumes "inv l" "live l i = Some m" "adjust i n l = (Ok u, l1)"
  shows "\<exists>l2. adjust i m l1 = (Ok (), l2) \<and> live l2 = live l \<and> inv l2"
proof -
  note a = adjust_Ok[OF assms(1,3)]
  have fin: "finite (dom (live l))" using finite_live[OF assms(1)] .
  have "map_total id (live l1) + m = map_total id (live l) + n"
    using a map_total_replace[OF fin assms(2), of id n] by simp
  then have "map_total id (live l1) - n + m \<le> limit l1"
    using within_limit[OF assms(1)] a map_total_member_le[OF fin assms(2), of id] by simp
  then obtain l2 where b: "adjust i m l1 = (Ok (), l2)"
    using adjust_fits[of l1 i n m] a live_pos[OF assms(1,2)] by auto
  from adjust_Ok[OF _ this] a assms(2) have "live l2 = live l" "inv l2" by auto
  then show ?thesis using b by blast
qed

lemma discharge_two:
  assumes "inv l" "live l i \<noteq> None" "live l j \<noteq> None" "i \<noteq> j"
  shows "\<exists>l1 l2. discharge i l = (Ok (), l1) \<and> discharge j l1 = (Ok (), l2) \<and>
    live l2 = (live l)(i := None, j := None) \<and> inv l2"
proof -
  obtain l1 where d1: "discharge i l = (Ok (), l1)" using assms discharge_live by blast
  note a = discharge_Ok[OF assms(1) d1]
  then obtain l2 where d2: "discharge j l1 = (Ok (), l2)"
    using assms(3,4) discharge_live[of l1 j] by auto
  then show ?thesis using a d1 discharge_Ok[OF _ d2] by auto
qed

end

section \<open>Incremental readers\<close>

text \<open>Feed chunks one after the other, until the result is no longer pending.\<close>

fun feed :: "('c list \<Rightarrow> 's \<Rightarrow> 'r \<times> 's) \<Rightarrow> ('r \<Rightarrow> bool) \<Rightarrow> 'c list \<Rightarrow> 'c list list \<Rightarrow> 's \<Rightarrow> 'r \<times> 's" where
  "feed push pending c [] s = push c s"
| "feed push pending c (d # ds) s =
    (case push c s of (r, s') \<Rightarrow> if pending r then feed push pending d ds s' else (r, s'))"

locale chunked_reader =
  fixes inv :: "'s \<Rightarrow> bool"
    and push :: "'c list \<Rightarrow> 's \<Rightarrow> 'r \<times> 's"
    and pending :: "'r \<Rightarrow> bool"
  assumes push_inv: "inv s \<Longrightarrow> push a s = (r, s') \<Longrightarrow> pending r \<Longrightarrow> inv s'"
    and push_append: "inv s \<Longrightarrow> push a s = (r, s') \<Longrightarrow> pending r \<Longrightarrow> push b s' = push (a @ b) s"
begin

lemma feed_is_push:
  "inv s \<Longrightarrow> \<exists>k \<le> length ds. feed push pending c ds s = push (c @ concat (take k ds)) s"
proof (induction ds arbitrary: c s)
  case (Cons d ds)
  obtain r s' where p: "push c s = (r, s')" by (cases "push c s")
  show ?case
  proof (cases "pending r")
    case False
    then show ?thesis using p by (intro exI[of _ 0]) simp
  next
    case True
    obtain k where "k \<le> length ds" "feed push pending d ds s' = push (d @ concat (take k ds)) s'"
      using Cons.IH[OF push_inv[OF Cons.prems p True]] by blast
    then show ?thesis
      using True p push_append[OF Cons.prems p True] by (intro exI[of _ "Suc k"]) simp
  qed
qed simp

lemma feed_whole:
  assumes "inv s" "pending (fst (feed push pending c ds s))"
  shows "feed push pending c ds s = push (c @ concat ds) s"
  using assms
proof (induction ds arbitrary: c s)
  case (Cons d ds)
  obtain r s' where p: "push c s = (r, s')" by (cases "push c s")
  then have "pending r" using Cons.prems(2) by (auto split: if_splits)
  then show ?case
    using Cons.IH[OF push_inv[OF Cons.prems(1) p]] Cons.prems(2) p push_append[OF Cons.prems(1) p]
    by simp
qed simp

end

end
