(* ===== verification/Ledger.thy ===== *)
theory Ledger
  imports Errors Contracts
begin

text \<open>
  The payload budget of the data plane (\<^verbatim>\<open>edge-core/src/payload_budget_ledger.rs\<close>, and the
  policies of \<^verbatim>\<open>resource_admission_policy.rs\<close> and \<^verbatim>\<open>edge-domain/src/lib.rs\<close> it is built
  from). Every buffered byte of the proxy is charged to the ledger before it is stored; the
  ledger keeps the sum of the live charges, refuses what would exceed the limit, and closes
  itself for good when its own books do not add up.

  The ledger is a record with the fields of the source. Each method is a function from the
  ledger to its result and the ledger after it, error paths included. \<open>ledger_inv\<close> says
  that the books add up, and the lemmas named after the operations describe each of them on
  every branch.
\<close>

section \<open>Policies and states\<close>

definition MIN_MAX_CONNECTIONS :: nat where
  "MIN_MAX_CONNECTIONS = 1"

definition HARD_MAX_CONNECTIONS :: nat where
  "HARD_MAX_CONNECTIONS = 4096"

definition MIN_MAX_INFLIGHT_PAYLOAD_BYTES :: nat where
  "MIN_MAX_INFLIGHT_PAYLOAD_BYTES = 16 * 1024 * 1024"

definition HARD_MAX_INFLIGHT_PAYLOAD_BYTES :: nat where
  "HARD_MAX_INFLIGHT_PAYLOAD_BYTES = 512 * 1024 * 1024"

definition FIXED_REQUEST_HEADER_RESERVE_BYTES :: nat where
  "FIXED_REQUEST_HEADER_RESERVE_BYTES = 16 * 1024"

definition FIXED_RESPONSE_BUFFER_RESERVE_BYTES :: nat where
  "FIXED_RESPONSE_BUFFER_RESERVE_BYTES = 64 * 1024"

record RuntimeResourcePolicy =
  max_connections :: nat
  max_inflight_payload_bytes :: nat

definition invalid_resource_policy :: "string \<Rightarrow> AppError" where
  "invalid_resource_policy m = app_error (Config ConfigResourceLimitInvalid) m"

definition resource_policy_try_new :: "nat \<Rightarrow> nat \<Rightarrow> RuntimeResourcePolicy app" where
  "resource_policy_try_new conns bytes =
    (if \<not> (MIN_MAX_CONNECTIONS \<le> conns \<and> conns \<le> HARD_MAX_CONNECTIONS)
     then Err (invalid_resource_policy ''max connections is outside the supported range'')
     else if \<not> (MIN_MAX_INFLIGHT_PAYLOAD_BYTES \<le> bytes \<and> bytes \<le> HARD_MAX_INFLIGHT_PAYLOAD_BYTES)
     then Err (invalid_resource_policy ''in-flight payload limit is outside the supported range'')
     else rbind (ok_or (checked_add FIXED_REQUEST_HEADER_RESERVE_BYTES
                          FIXED_RESPONSE_BUFFER_RESERVE_BYTES)
                  (invalid_resource_policy ''fixed payload reserve overflowed''))
       (\<lambda>per_connection. rbind (ok_or (checked_mul conns per_connection)
                  (invalid_resource_policy ''fixed payload reserve overflowed''))
       (\<lambda>required.
          if bytes < required
          then Err (invalid_resource_policy
                 ''in-flight payload limit is below the fixed connection reserve'')
          else Ok \<lparr>max_connections = conns, max_inflight_payload_bytes = bytes\<rparr>)))"

datatype ResourceChargeState =
    Requested | Granted | InUse | Transferred | Released | RejectedCapacity | AllocationFailed

fun charge_is_terminal :: "ResourceChargeState \<Rightarrow> bool" where
  "charge_is_terminal Released = True"
| "charge_is_terminal RejectedCapacity = True"
| "charge_is_terminal AllocationFailed = True"
| "charge_is_terminal _ = False"

datatype ResourcePressureState = Normal | Pressured | Exhausted | FailedClosed

datatype ConnectionAdmissionDecision =
    Accepted | RejectedConnectionLimit | RejectedPayloadPressure | RejectedFailedClosed

definition connection_admission_decision ::
  "ResourcePressureState \<Rightarrow> nat \<Rightarrow> nat \<Rightarrow> ConnectionAdmissionDecision" where
  "connection_admission_decision p active limit =
    (case p of
       FailedClosed \<Rightarrow> RejectedFailedClosed
     | Pressured \<Rightarrow> RejectedPayloadPressure
     | Exhausted \<Rightarrow> RejectedPayloadPressure
     | Normal \<Rightarrow> if limit \<le> active then RejectedConnectionLimit else Accepted)"

datatype PayloadClass =
    Request | UpstreamRequest | RetryReplay | ClientResponse
  | WebSocketClientToUpstream | WebSocketUpstreamToClient | TlsPending

record PayloadCharge =
  charge_id :: nat
  charge_connection_id :: nat
  charge_class :: PayloadClass
  charged_bytes :: nat
  charge_generation :: nat
  charge_state :: ResourceChargeState

record PayloadBudgetLedger =
  limit_bytes :: nat
  used_bytes :: nat
  generation :: nat
  next_charge_id :: nat
  charges :: "nat \<rightharpoonup> PayloadCharge"
  pressure_state :: ResourcePressureState

section \<open>Ledger operations\<close>

definition ledger_new :: "RuntimeResourcePolicy \<Rightarrow> nat \<Rightarrow> PayloadBudgetLedger" where
  "ledger_new policy gen =
    \<lparr>limit_bytes = max_inflight_payload_bytes policy, used_bytes = 0, generation = gen,
     next_charge_id = 1, charges = Map.empty, pressure_state = Normal\<rparr>"

definition resource_capacity_error :: AppError where
  "resource_capacity_error =
    app_error (Runtime ResourcePayloadCapacityReached) ''logical payload capacity reached''"

definition resource_accounting_error :: "string \<Rightarrow> AppError" where
  "resource_accounting_error m = app_error (Runtime ResourceAccountingInvariantFailed) m"

definition fail_accounting ::
  "string \<Rightarrow> PayloadBudgetLedger \<Rightarrow> 'a app \<times> PayloadBudgetLedger" where
  "fail_accounting m l = (Err (resource_accounting_error m), l\<lparr>pressure_state := FailedClosed\<rparr>)"

definition require_generation ::
  "nat \<Rightarrow> PayloadBudgetLedger \<Rightarrow> unit app \<times> PayloadBudgetLedger" where
  "require_generation gen l =
    (if gen \<noteq> generation l then fail_accounting ''resource generation is stale'' l else (Ok (), l))"

definition live_charge ::
  "nat \<Rightarrow> nat \<Rightarrow> PayloadBudgetLedger \<Rightarrow> PayloadCharge app \<times> PayloadBudgetLedger" where
  "live_charge i gen l =
    (case charges l i of
       None \<Rightarrow> fail_accounting ''resource charge is not live'' l
     | Some c \<Rightarrow>
         if charge_generation c \<noteq> gen \<or> charge_is_terminal (charge_state c)
         then fail_accounting ''resource charge identity is invalid'' l
         else (Ok c, l))"

definition refresh_pressure :: "PayloadBudgetLedger \<Rightarrow> PayloadBudgetLedger" where
  "refresh_pressure l =
    (if pressure_state l = FailedClosed then l
     else
       let high = wrap64 (limit_bytes l * 80) div 100;
           low = wrap64 (limit_bytes l * 60) div 100
       in l\<lparr>pressure_state :=
            (case pressure_state l of
               Normal \<Rightarrow> if used_bytes l < high then Normal else Pressured
             | Pressured \<Rightarrow> if used_bytes l \<le> low then Normal else Pressured
             | Exhausted \<Rightarrow> if used_bytes l \<le> low then Normal else Pressured
             | FailedClosed \<Rightarrow> FailedClosed)\<rparr>)"

definition reserve ::
  "nat \<Rightarrow> PayloadClass \<Rightarrow> nat \<Rightarrow> nat \<Rightarrow> PayloadBudgetLedger \<Rightarrow> nat app \<times> PayloadBudgetLedger" where
  "reserve conn cls requested gen l =
    (if pressure_state l = FailedClosed
     then (Err (resource_accounting_error ''resource admission is failed closed''), l)
     else try_bind (require_generation gen l) (\<lambda>_ l.
       if requested = 0 then fail_accounting ''zero-byte resource charge is not allowed'' l
       else case checked_add (used_bytes l) requested of
         None \<Rightarrow> (Err resource_capacity_error, l)
       | Some next_used \<Rightarrow>
           if limit_bytes l < next_used
           then (Err resource_capacity_error, l\<lparr>pressure_state := Exhausted\<rparr>)
           else case checked_add (next_charge_id l) 1 of
             None \<Rightarrow> fail_accounting ''resource charge identity exhausted'' l
           | Some next_id \<Rightarrow>
               let i = next_charge_id l;
                   c = \<lparr>charge_id = i, charge_connection_id = conn, charge_class = cls,
                        charged_bytes = requested, charge_generation = gen,
                        charge_state = Granted\<rparr>
               in (Ok i, refresh_pressure
                    (l\<lparr>next_charge_id := next_id, used_bytes := next_used,
                       charges := (charges l)(i \<mapsto> c)\<rparr>))))"

definition replace_charge_bytes ::
  "nat \<Rightarrow> nat \<Rightarrow> PayloadBudgetLedger \<Rightarrow> unit app \<times> PayloadBudgetLedger" where
  "replace_charge_bytes i next_bytes l =
    (if next_bytes = 0 then fail_accounting ''live resource charge cannot be resized to zero'' l
     else case charges l i of
       None \<Rightarrow> fail_accounting ''resized resource charge disappeared'' l
     | Some c \<Rightarrow>
         (case checked_sub (used_bytes l) (charged_bytes c) of
            None \<Rightarrow> fail_accounting ''resource total is below live charge'' l
          | Some without_previous \<Rightarrow>
              (case checked_add without_previous next_bytes of
                 None \<Rightarrow> (Err resource_capacity_error, l)
               | Some next_used \<Rightarrow>
                   if limit_bytes l < next_used
                   then (Err resource_capacity_error, l\<lparr>pressure_state := Exhausted\<rparr>)
                   else (Ok (), refresh_pressure
                          (l\<lparr>used_bytes := next_used,
                             charges := (charges l)(i \<mapsto> c\<lparr>charged_bytes := next_bytes\<rparr>)\<rparr>)))))"

definition commit ::
  "nat \<Rightarrow> nat \<Rightarrow> nat \<Rightarrow> PayloadBudgetLedger \<Rightarrow> unit app \<times> PayloadBudgetLedger" where
  "commit i actual gen l =
    try_bind (require_generation gen l) (\<lambda>_ l.
    try_bind (live_charge i gen l) (\<lambda>c l.
      if charge_state c \<noteq> Granted
      then fail_accounting ''only granted charges can be committed'' l
      else try_bind (replace_charge_bytes i actual l) (\<lambda>_ l.
        case charges l i of
          None \<Rightarrow> fail_accounting ''committed resource charge disappeared'' l
        | Some c \<Rightarrow> (Ok (), l\<lparr>charges := (charges l)(i \<mapsto> c\<lparr>charge_state := InUse\<rparr>)\<rparr>))))"

fun charge_is_resizable :: "ResourceChargeState \<Rightarrow> bool" where
  "charge_is_resizable Granted = True"
| "charge_is_resizable InUse = True"
| "charge_is_resizable Transferred = True"
| "charge_is_resizable _ = False"

definition resize ::
  "nat \<Rightarrow> nat \<Rightarrow> nat \<Rightarrow> PayloadBudgetLedger \<Rightarrow> unit app \<times> PayloadBudgetLedger" where
  "resize i next_bytes gen l =
    try_bind (require_generation gen l) (\<lambda>_ l.
    try_bind (live_charge i gen l) (\<lambda>c l.
      if \<not> charge_is_resizable (charge_state c)
      then fail_accounting ''charge cannot be resized in its current state'' l
      else replace_charge_bytes i next_bytes l))"

definition grow ::
  "nat \<Rightarrow> nat \<Rightarrow> nat \<Rightarrow> PayloadBudgetLedger \<Rightarrow> unit app \<times> PayloadBudgetLedger" where
  "grow i additional gen l =
    try_bind (require_generation gen l) (\<lambda>_ l.
      if additional = 0 then (Ok (), l)
      else try_bind (live_charge i gen l) (\<lambda>c l.
        case checked_add (charged_bytes c) additional of
          None \<Rightarrow> (Err resource_capacity_error, l\<lparr>pressure_state := Exhausted\<rparr>)
        | Some next_bytes \<Rightarrow> resize i next_bytes gen l))"

definition transfer ::
  "nat \<Rightarrow> nat \<Rightarrow> PayloadClass \<Rightarrow> nat \<Rightarrow> PayloadBudgetLedger \<Rightarrow> unit app \<times> PayloadBudgetLedger" where
  "transfer i conn cls gen l =
    try_bind (require_generation gen l) (\<lambda>_ l.
    try_bind (live_charge i gen l) (\<lambda>c l.
      if \<not> charge_is_resizable (charge_state c)
      then fail_accounting ''charge cannot be transferred in its current state'' l
      else case charges l i of
        None \<Rightarrow> fail_accounting ''transferred resource charge disappeared'' l
      | Some c \<Rightarrow>
          (Ok (), l\<lparr>charges := (charges l)(i \<mapsto>
             c\<lparr>charge_connection_id := conn, charge_class := cls,
               charge_state := Transferred\<rparr>)\<rparr>)))"

definition remove_live_charge ::
  "nat \<Rightarrow> nat \<Rightarrow> ResourceChargeState \<Rightarrow> PayloadBudgetLedger
    \<Rightarrow> PayloadCharge app \<times> PayloadBudgetLedger" where
  "remove_live_charge i gen terminal l =
    try_bind (live_charge i gen l) (\<lambda>c l.
      case checked_sub (used_bytes l) (charged_bytes c) of
        None \<Rightarrow> fail_accounting ''resource release exceeds current total'' l
      | Some next_used \<Rightarrow>
          (case charges l i of
             None \<Rightarrow> fail_accounting ''released resource charge disappeared'' l
           | Some live \<Rightarrow>
               let l = l\<lparr>charges := (charges l)(i \<mapsto> live\<lparr>charge_state := terminal\<rparr>)\<rparr>
               in (Ok c, refresh_pressure
                    (l\<lparr>charges := (charges l)(i := None), used_bytes := next_used\<rparr>))))"

definition release :: "nat \<Rightarrow> nat \<Rightarrow> PayloadBudgetLedger \<Rightarrow> unit app \<times> PayloadBudgetLedger" where
  "release i gen l =
    try_bind (require_generation gen l) (\<lambda>_ l.
    try_bind (remove_live_charge i gen Released l) (\<lambda>_ l. (Ok (), l)))"

definition release_after_allocation_failure ::
  "nat \<Rightarrow> nat \<Rightarrow> PayloadBudgetLedger \<Rightarrow> unit app \<times> PayloadBudgetLedger" where
  "release_after_allocation_failure i gen l =
    try_bind (require_generation gen l) (\<lambda>_ l.
    try_bind (remove_live_charge i gen AllocationFailed l) (\<lambda>_ l. (Ok (), l)))"

section \<open>The books add up\<close>

definition charge_ok :: "PayloadBudgetLedger \<Rightarrow> nat \<Rightarrow> PayloadCharge \<Rightarrow> bool" where
  "charge_ok l i c \<longleftrightarrow>
    charge_id c = i \<and> i < next_charge_id l \<and> 0 < charged_bytes c \<and>
    charge_generation c = generation l \<and> charge_is_resizable (charge_state c)"

definition ledger_inv :: "PayloadBudgetLedger \<Rightarrow> bool" where
  "ledger_inv l \<longleftrightarrow>
    finite (dom (charges l)) \<and>
    used_bytes l = map_total charged_bytes (charges l) \<and>
    used_bytes l \<le> limit_bytes l \<and>
    limit_bytes l \<le> HARD_MAX_INFLIGHT_PAYLOAD_BYTES \<and>
    (\<forall>i c. charges l i = Some c \<longrightarrow> charge_ok l i c)"

definition live_bytes :: "PayloadBudgetLedger \<Rightarrow> nat \<rightharpoonup> nat" where
  "live_bytes l = map_option charged_bytes \<circ> charges l"

definition same_books :: "PayloadBudgetLedger \<Rightarrow> PayloadBudgetLedger \<Rightarrow> bool" where
  "same_books l l' \<longleftrightarrow>
    charges l' = charges l \<and> used_bytes l' = used_bytes l \<and> limit_bytes l' = limit_bytes l \<and>
    generation l' = generation l \<and> next_charge_id l' = next_charge_id l"

lemma hard_max_le_usize: "HARD_MAX_INFLIGHT_PAYLOAD_BYTES * 100 \<le> usize_max"
  by (simp add: HARD_MAX_INFLIGHT_PAYLOAD_BYTES_def usize_max_def)

lemma ledger_inv_used_small:
  "ledger_inv l \<Longrightarrow> used_bytes l \<le> limit_bytes l \<and> limit_bytes l * 80 \<le> usize_max \<and>
     limit_bytes l * 60 \<le> usize_max \<and> limit_bytes l \<le> usize_max"
  using hard_max_le_usize by (auto simp: ledger_inv_def)

lemma same_books_refl [simp]: "same_books l l"
  by (simp add: same_books_def)

lemma same_books_trans: "same_books a b \<Longrightarrow> same_books b c \<Longrightarrow> same_books a c"
  by (simp add: same_books_def)

lemma same_books_pressure [simp]: "same_books l (l\<lparr>pressure_state := p\<rparr>)"
  by (simp add: same_books_def)

lemma same_books_refresh [simp]: "same_books l (refresh_pressure l)"
  by (simp add: same_books_def refresh_pressure_def Let_def)

lemma same_books_fields:
  assumes "same_books l l'"
  shows "charges l' = charges l" "used_bytes l' = used_bytes l" "limit_bytes l' = limit_bytes l"
    "generation l' = generation l" "next_charge_id l' = next_charge_id l"
  using assms by (simp_all add: same_books_def)

lemma same_books_inv: "same_books l l' \<Longrightarrow> ledger_inv l' = ledger_inv l"
  by (simp add: ledger_inv_def charge_ok_def same_books_fields)

lemma same_books_live: "same_books l l' \<Longrightarrow> live_bytes l' = live_bytes l"
  by (simp add: live_bytes_def same_books_fields)

lemma fail_accounting_same_books: "fail_accounting m l = (r, l') \<Longrightarrow> same_books l l'"
  by (auto simp: fail_accounting_def)

lemma require_generation_eq [simp]:
  "gen = generation l \<Longrightarrow> require_generation gen l = (Ok (), l)"
  by (simp add: require_generation_def)

lemma require_generation_stale:
  "gen \<noteq> generation l \<Longrightarrow>
    require_generation gen l = fail_accounting ''resource generation is stale'' l"
  by (simp add: require_generation_def)

lemma refresh_pressure_fields [simp]:
  "charges (refresh_pressure l) = charges l" "used_bytes (refresh_pressure l) = used_bytes l"
  "limit_bytes (refresh_pressure l) = limit_bytes l"
  "generation (refresh_pressure l) = generation l"
  "next_charge_id (refresh_pressure l) = next_charge_id l"
  by (simp_all add: refresh_pressure_def Let_def)

lemma resizable_not_terminal: "charge_is_resizable s \<Longrightarrow> \<not> charge_is_terminal s"
  by (cases s) simp_all

lemma live_charge_iff:
  assumes "ledger_inv l"
  shows "live_charge i (generation l) l =
    (case charges l i of None \<Rightarrow> fail_accounting ''resource charge is not live'' l | Some c \<Rightarrow> (Ok c, l))"
  using assms by (auto simp: live_charge_def ledger_inv_def charge_ok_def resizable_not_terminal
      split: option.splits)

lemma refresh_pressure_FailedClosed:
  "pressure_state (refresh_pressure l) = FailedClosed \<longleftrightarrow> pressure_state l = FailedClosed"
  by (cases "pressure_state l") (simp_all add: refresh_pressure_def Let_def)

text \<open>Reservation: what it checks, and what it changes when it succeeds or fails.\<close>

lemma reserve_Ok:
  assumes "reserve conn cls n gen l = (Ok i, l')"
  shows "pressure_state l \<noteq> FailedClosed" "gen = generation l" "0 < n"
    "used_bytes l + n \<le> limit_bytes l" "i = next_charge_id l"
    "l' = refresh_pressure (l\<lparr>next_charge_id := i + 1, used_bytes := used_bytes l + n,
       charges := (charges l)(i \<mapsto> \<lparr>charge_id = i, charge_connection_id = conn,
         charge_class = cls, charged_bytes = n, charge_generation = gen,
         charge_state = Granted\<rparr>)\<rparr>)"
  using assms unfolding reserve_def require_generation_def
  by (auto simp: fail_accounting_def Let_def split: if_splits option.splits)

lemma reserve_Err: "reserve conn cls n gen l = (Err e, l') \<Longrightarrow> same_books l l'"
  unfolding reserve_def require_generation_def
  by (auto simp: fail_accounting_def Let_def split: if_splits option.splits)

lemma reserve_succeeds:
  assumes "pressure_state l \<noteq> FailedClosed" "0 < n" "used_bytes l + n \<le> limit_bytes l"
    "limit_bytes l \<le> usize_max" "next_charge_id l < usize_max"
  shows "\<exists>l'. reserve conn cls n (generation l) l = (Ok (next_charge_id l), l')"
  using assms by (simp add: reserve_def checked_add_def Let_def)

lemma ledger_inv_fresh: "ledger_inv l \<Longrightarrow> next_charge_id l \<le> i \<Longrightarrow> charges l i = None"
  by (cases "charges l i") (fastforce simp: ledger_inv_def charge_ok_def)+

lemma reserve_live:
  assumes "ledger_inv l" "reserve conn cls n gen l = (Ok i, l')"
  shows "live_bytes l i = None" "live_bytes l' = (live_bytes l)(i \<mapsto> n)"
  using reserve_Ok[OF assms(2)] ledger_inv_fresh[OF assms(1)]
  by (auto simp: live_bytes_def)

lemma reserve_inv:
  assumes "ledger_inv l" "reserve conn cls n gen l = (r, l')"
  shows "ledger_inv l'"
proof (cases r)
  case (Err e)
  then show ?thesis using assms same_books_inv[OF reserve_Err] by blast
next
  case (Ok i)
  note ok = reserve_Ok[OF assms(2)[unfolded Ok]]
  have fresh: "charges l i = None" using ledger_inv_fresh[OF assms(1)] ok(5) by simp
  have "map_total charged_bytes (charges l') = used_bytes l'"
    using assms(1) fresh unfolding ok(6) by (simp add: map_total_insert ledger_inv_def)
  moreover have "\<forall>j c. charges l' j = Some c \<longrightarrow> charge_ok l' j c"
    using assms(1) ok(2-5) unfolding ok(6)
    by (auto simp: ledger_inv_def charge_ok_def split: if_splits intro: less_SucI)
  ultimately show ?thesis
    using assms(1) ok(4) unfolding ledger_inv_def by (simp add: ok(6))
qed

text \<open>Replacing the bytes of a live charge, on which commit and resize rest.\<close>

lemma replace_charge_bytes_Ok:
  assumes "replace_charge_bytes i n l = (Ok u, l')"
  shows "\<exists>c. charges l i = Some c \<and> charged_bytes c \<le> used_bytes l \<and> 0 < n \<and>
    used_bytes l - charged_bytes c + n \<le> limit_bytes l \<and>
    l' = refresh_pressure (l\<lparr>used_bytes := used_bytes l - charged_bytes c + n,
      charges := (charges l)(i \<mapsto> c\<lparr>charged_bytes := n\<rparr>)\<rparr>)"
  using assms unfolding replace_charge_bytes_def
  by (auto simp: fail_accounting_def split: if_splits option.splits)

lemma replace_charge_bytes_Err: "replace_charge_bytes i n l = (Err e, l') \<Longrightarrow> same_books l l'"
  unfolding replace_charge_bytes_def
  by (auto simp: fail_accounting_def split: if_splits option.splits)

lemma ledger_inv_update:
  assumes "ledger_inv l" "charges l i = Some c" "charge_ok l i c'"
    "used_bytes l - charged_bytes c + charged_bytes c' \<le> limit_bytes l"
  shows "ledger_inv (l\<lparr>used_bytes := used_bytes l - charged_bytes c + charged_bytes c',
    charges := (charges l)(i \<mapsto> c')\<rparr>)"
proof -
  have "map_total charged_bytes ((charges l)(i \<mapsto> c')) + charged_bytes c
      = map_total charged_bytes (charges l) + charged_bytes c'"
    using assms(1,2) by (intro map_total_replace) (auto simp: ledger_inv_def)
  moreover have "charged_bytes c \<le> map_total charged_bytes (charges l)"
    using assms(1,2) by (intro map_total_member_le) (auto simp: ledger_inv_def)
  ultimately show ?thesis
    using assms by (auto simp: ledger_inv_def charge_ok_def split: if_splits)
qed

lemma ledger_inv_set_charge:
  assumes "ledger_inv l" "charges l i = Some c" "charge_ok l i c'"
    "charged_bytes c' = charged_bytes c"
  shows "ledger_inv (l\<lparr>charges := (charges l)(i \<mapsto> c')\<rparr>)"
proof -
  have "charged_bytes c \<le> used_bytes l"
    using assms(1,2) map_total_member_le[of "charges l" i c charged_bytes]
    by (simp add: ledger_inv_def)
  then have same: "used_bytes l - charged_bytes c + charged_bytes c' = used_bytes l"
    using assms(4) by simp
  moreover have "used_bytes l \<le> limit_bytes l" using assms(1) by (simp add: ledger_inv_def)
  ultimately show ?thesis using ledger_inv_update[OF assms(1-3)] by simp
qed

lemma replace_charge_bytes_inv:
  assumes "ledger_inv l" "replace_charge_bytes i n l = (r, l')"
  shows "ledger_inv l'"
proof (cases r)
  case (Err e)
  then show ?thesis using assms same_books_inv[OF replace_charge_bytes_Err] by blast
next
  case (Ok u)
  obtain c where c: "charges l i = Some c" "0 < n"
      "used_bytes l - charged_bytes c + n \<le> limit_bytes l"
      "l' = refresh_pressure (l\<lparr>used_bytes := used_bytes l - charged_bytes c + n,
        charges := (charges l)(i \<mapsto> c\<lparr>charged_bytes := n\<rparr>)\<rparr>)"
    using replace_charge_bytes_Ok assms(2) Ok by blast
  have "charge_ok l i (c\<lparr>charged_bytes := n\<rparr>)"
    using assms(1) c(1,2) by (simp add: ledger_inv_def charge_ok_def)
  from ledger_inv_update[OF assms(1) c(1) this] c(3) show ?thesis
    unfolding c(4) using same_books_inv[OF same_books_refresh] by simp
qed

lemma replace_charge_bytes_live:
  assumes "replace_charge_bytes i n l = (Ok u, l')"
  shows "live_bytes l i \<noteq> None" "live_bytes l' = (live_bytes l)(i \<mapsto> n)"
  using replace_charge_bytes_Ok[OF assms] by (auto simp: live_bytes_def)

text \<open>Commit, resize, grow and transfer.\<close>

lemma commit_Ok:
  assumes "ledger_inv l" "commit i n gen l = (Ok u, l')"
  shows "gen = generation l" "live_bytes l i \<noteq> None" "live_bytes l' = (live_bytes l)(i \<mapsto> n)"
    "ledger_inv l'"
proof -
  show gen: "gen = generation l"
    using assms(2) by (auto simp: commit_def require_generation_def fail_accounting_def split: if_splits)
  obtain c l1 where c: "charges l i = Some c" "charge_state c = Granted"
      "replace_charge_bytes i n l = (Ok (), l1)"
    and l': "l' = l1\<lparr>charges := (charges l1)(i \<mapsto> (the (charges l1 i))\<lparr>charge_state := InUse\<rparr>)\<rparr>"
      "charges l1 i \<noteq> None"
    using assms(2) unfolding commit_def gen
    by (auto simp: live_charge_iff[OF assms(1)] fail_accounting_def
        split: option.splits if_splits try_bind_splits)
  obtain c1 where c1: "charges l1 i = Some c1" using l'(2) by auto
  have inv1: "ledger_inv l1" using replace_charge_bytes_inv[OF assms(1) c(3)] .
  then have "charge_ok l1 i (c1\<lparr>charge_state := InUse\<rparr>)"
    using c1 by (simp add: ledger_inv_def charge_ok_def)
  then show "ledger_inv l'" unfolding l' using ledger_inv_set_charge[OF inv1 c1] c1 by simp
  show "live_bytes l i \<noteq> None" using replace_charge_bytes_live[OF c(3)] by simp
  have "live_bytes l' = live_bytes l1" using c1 unfolding l' by (auto simp: live_bytes_def)
  then show "live_bytes l' = (live_bytes l)(i \<mapsto> n)"
    using replace_charge_bytes_live[OF c(3)] by simp
qed

lemma require_generation_Err:
  "require_generation gen l = (Err e, l') \<Longrightarrow> same_books l l'"
  by (auto simp: require_generation_def fail_accounting_def split: if_splits)

lemma require_generation_Ok:
  "require_generation gen l = (Ok u, l') \<longleftrightarrow> gen = generation l \<and> l' = l"
  by (auto simp: require_generation_def fail_accounting_def)

lemma live_charge_Err: "live_charge i gen l = (Err e, l') \<Longrightarrow> same_books l l'"
  by (auto simp: live_charge_def fail_accounting_def split: option.splits if_splits)

lemma live_charge_Ok:
  "live_charge i gen l = (Ok c, l') \<longleftrightarrow>
    l' = l \<and> charges l i = Some c \<and> charge_generation c = gen \<and> \<not> charge_is_terminal (charge_state c)"
  by (auto simp: live_charge_def fail_accounting_def split: option.splits)

lemmas ledger_step_simps = require_generation_Ok live_charge_Ok fail_accounting_def

lemma commit_Err: "commit i n gen l = (Err e, l') \<Longrightarrow> same_books l l'"
  by (auto simp: commit_def ledger_step_simps
      dest: require_generation_Err live_charge_Err replace_charge_bytes_Err replace_charge_bytes_Ok
      split: try_bind_splits if_splits option.splits)

lemma resize_Ok:
  assumes "resize i n gen l = (Ok u, l')"
  shows "gen = generation l" "live_bytes l i \<noteq> None" "live_bytes l' = (live_bytes l)(i \<mapsto> n)"
    and "ledger_inv l \<Longrightarrow> ledger_inv l'"
proof -
  have *: "gen = generation l" "replace_charge_bytes i n l = (Ok u, l')"
    using assms by (auto simp: resize_def ledger_step_simps split: try_bind_splits if_splits)
  then show "gen = generation l" "live_bytes l i \<noteq> None" "live_bytes l' = (live_bytes l)(i \<mapsto> n)"
    using replace_charge_bytes_live by blast+
  show "ledger_inv l \<Longrightarrow> ledger_inv l'" using replace_charge_bytes_inv *(2) by blast
qed

lemma resize_Err: "resize i n gen l = (Err e, l') \<Longrightarrow> same_books l l'"
  by (auto simp: resize_def ledger_step_simps
      dest: require_generation_Err live_charge_Err replace_charge_bytes_Err
      split: try_bind_splits if_splits)

lemma resize_succeeds:
  assumes "ledger_inv l" "live_bytes l i = Some m" "0 < n" "used_bytes l - m + n \<le> limit_bytes l"
  shows "\<exists>l'. resize i n (generation l) l = (Ok (), l')"
proof -
  obtain c where c: "charges l i = Some c" "charged_bytes c = m"
    using assms(2) by (auto simp: live_bytes_def)
  have "charged_bytes c \<le> used_bytes l" "charge_is_resizable (charge_state c)"
    using assms(1) c map_total_member_le[of "charges l" i c charged_bytes]
    by (auto simp: ledger_inv_def charge_ok_def)
  moreover have "used_bytes l - m + n \<le> usize_max"
    using assms(4) ledger_inv_used_small[OF assms(1)] by linarith
  ultimately show ?thesis
    using assms(3,4) c
    by (simp add: resize_def live_charge_iff[OF assms(1)] replace_charge_bytes_def
        checked_sub_def checked_add_def)
qed

lemma grow_Ok:
  assumes "grow i k gen l = (Ok u, l')"
  shows "k = 0 \<and> l' = l \<or> (\<exists>n. live_bytes l i = Some n \<and> resize i (n + k) gen l = (Ok u, l'))"
  using assms
  by (auto simp: grow_def ledger_step_simps live_bytes_def
      split: try_bind_splits if_splits option.splits)

lemma grow_Err: "grow i k gen l = (Err e, l') \<Longrightarrow> same_books l l'"
  by (auto simp: grow_def ledger_step_simps
      dest: require_generation_Err live_charge_Err resize_Err
      split: try_bind_splits if_splits option.splits)

lemma transfer_Ok:
  assumes "ledger_inv l" "transfer i conn cls gen l = (Ok u, l')"
  shows "ledger_inv l'" "live_bytes l' = live_bytes l"
    "\<exists>c. charges l' i = Some c \<and> charge_connection_id c = conn \<and> charge_class c = cls"
proof -
  obtain c where c: "charges l i = Some c"
    and l': "l' = l\<lparr>charges := (charges l)(i \<mapsto> c\<lparr>charge_connection_id := conn,
      charge_class := cls, charge_state := Transferred\<rparr>)\<rparr>"
    using assms(2) by (auto simp: transfer_def ledger_step_simps split: try_bind_splits if_splits)
  let ?c' = "c\<lparr>charge_connection_id := conn, charge_class := cls, charge_state := Transferred\<rparr>"
  have "charge_ok l i ?c'" using assms(1) c by (simp add: ledger_inv_def charge_ok_def)
  then show "ledger_inv l'" unfolding l' by (rule ledger_inv_set_charge[OF assms(1) c]) simp
  show "live_bytes l' = live_bytes l" using c unfolding l' by (auto simp: live_bytes_def)
  show "\<exists>c. charges l' i = Some c \<and> charge_connection_id c = conn \<and> charge_class c = cls"
    unfolding l' by simp
qed

lemma transfer_Err: "transfer i conn cls gen l = (Err e, l') \<Longrightarrow> same_books l l'"
  by (auto simp: transfer_def ledger_step_simps
      dest: require_generation_Err live_charge_Err
      split: try_bind_splits if_splits option.splits)

text \<open>Release, in either of its two forms.\<close>

lemma remove_live_charge_Ok:
  assumes "ledger_inv l" "remove_live_charge i gen st l = (Ok c, l')"
  shows "live_bytes l i = Some (charged_bytes c)" "live_bytes l' = (live_bytes l)(i := None)"
    "used_bytes l' + charged_bytes c = used_bytes l" "ledger_inv l'"
proof -
  have c: "charges l i = Some c" and le: "charged_bytes c \<le> used_bytes l"
    and l': "l' = refresh_pressure (l\<lparr>charges := (charges l)(i := None),
      used_bytes := used_bytes l - charged_bytes c\<rparr>)"
    using assms(2)
    by (auto simp: remove_live_charge_def ledger_step_simps Let_def
        split: try_bind_splits option.splits)
  show "live_bytes l i = Some (charged_bytes c)" using c by (simp add: live_bytes_def)
  show "live_bytes l' = (live_bytes l)(i := None)" unfolding l' by (auto simp: live_bytes_def)
  show "used_bytes l' + charged_bytes c = used_bytes l" using le unfolding l' by simp
  have "map_total charged_bytes ((charges l)(i := None)) + charged_bytes c
      = map_total charged_bytes (charges l)"
    using assms(1) c by (intro map_total_remove) (simp_all add: ledger_inv_def)
  then have "ledger_inv (l\<lparr>charges := (charges l)(i := None),
      used_bytes := used_bytes l - charged_bytes c\<rparr>)"
    using assms(1) le by (auto simp: ledger_inv_def charge_ok_def split: if_splits)
  then show "ledger_inv l'" unfolding l' using same_books_inv[OF same_books_refresh] by blast
qed

lemma remove_live_charge_Err: "remove_live_charge i gen st l = (Err e, l') \<Longrightarrow> same_books l l'"
  by (auto simp: remove_live_charge_def ledger_step_simps Let_def dest: live_charge_Err
      split: try_bind_splits option.splits)

lemma remove_live_charge_succeeds:
  assumes "ledger_inv l" "live_bytes l i = Some n"
  shows "\<exists>c l'. remove_live_charge i (generation l) st l = (Ok c, l')"
proof -
  obtain c where c: "charges l i = Some c" using assms(2) by (auto simp: live_bytes_def)
  have "charged_bytes c \<le> used_bytes l"
    using assms(1) c map_total_member_le[of "charges l" i c charged_bytes]
    by (auto simp: ledger_inv_def)
  then show ?thesis
    using c by (simp add: remove_live_charge_def live_charge_iff[OF assms(1)] checked_sub_def Let_def)
qed

lemma release_Ok_iff:
  "release i gen l = (Ok u, l') \<longleftrightarrow>
    gen = generation l \<and> (\<exists>c. remove_live_charge i gen Released l = (Ok c, l'))"
  by (auto simp: release_def ledger_step_simps split: try_bind_splits)

lemma release_after_allocation_failure_Ok_iff:
  "release_after_allocation_failure i gen l = (Ok u, l') \<longleftrightarrow>
    gen = generation l \<and> (\<exists>c. remove_live_charge i gen AllocationFailed l = (Ok c, l'))"
  by (auto simp: release_after_allocation_failure_def ledger_step_simps split: try_bind_splits)

lemma release_Err: "release i gen l = (Err e, l') \<Longrightarrow> same_books l l'"
  by (auto simp: release_def ledger_step_simps dest: require_generation_Err remove_live_charge_Err
      split: try_bind_splits)

lemma release_after_allocation_failure_Err:
  "release_after_allocation_failure i gen l = (Err e, l') \<Longrightarrow> same_books l l'"
  by (auto simp: release_after_allocation_failure_def ledger_step_simps
      dest: require_generation_Err remove_live_charge_Err split: try_bind_splits)

section \<open>The ledger provides a bounded account\<close>

lemma live_bytes_total: "map_total id (live_bytes l) = map_total charged_bytes (charges l)"
  by (simp add: live_bytes_def map_total_comp[of charged_bytes])

lemma limit_unchanged:
  "reserve conn cls n gen l = (Ok i, l') \<Longrightarrow> limit_bytes l' = limit_bytes l"
  "resize i n gen l = (Ok u, l') \<Longrightarrow> limit_bytes l' = limit_bytes l"
  "remove_live_charge i gen st l = (Ok c, l') \<Longrightarrow> limit_bytes l' = limit_bytes l"
  by (auto simp: resize_def remove_live_charge_def ledger_step_simps Let_def
      dest!: reserve_Ok(6) replace_charge_bytes_Ok
      split: try_bind_splits if_splits option.splits)

definition acquire_for :: "nat \<Rightarrow> PayloadClass \<Rightarrow> nat \<Rightarrow> PayloadBudgetLedger \<Rightarrow> nat app \<times> PayloadBudgetLedger" where
  "acquire_for conn cls n l = reserve conn cls n (generation l) l"

definition resize_current :: "nat \<Rightarrow> nat \<Rightarrow> PayloadBudgetLedger \<Rightarrow> unit app \<times> PayloadBudgetLedger" where
  "resize_current i n l = resize i n (generation l) l"

definition release_current :: "nat \<Rightarrow> PayloadBudgetLedger \<Rightarrow> unit app \<times> PayloadBudgetLedger" where
  "release_current i l = release i (generation l) l"

definition fail_allocation_current :: "nat \<Rightarrow> PayloadBudgetLedger \<Rightarrow> unit app \<times> PayloadBudgetLedger" where
  "fail_allocation_current i l = release_after_allocation_failure i (generation l) l"

lemmas ledger_current_defs =
  acquire_for_def resize_current_def release_current_def fail_allocation_current_def

interpretation ledger: payload_budget ledger_inv live_bytes limit_bytes
  "acquire_for conn cls" resize_current release_current
proof (unfold_locales, goal_cases)
  case (1 l) then show ?case by (auto simp: ledger_inv_def live_bytes_def dom_def)
next
  case (2 l) then show ?case by (simp add: live_bytes_total) (simp add: ledger_inv_def)
next
  case (3 l i n) then show ?case by (auto simp: ledger_inv_def charge_ok_def live_bytes_def)
next
  case (4 l n i l') then show ?case
    using reserve_live reserve_inv limit_unchanged(1) unfolding ledger_current_defs by meson
next
  case (5 l n e l') then show ?case
    using same_books_inv same_books_live same_books_fields(3) reserve_Err
    unfolding ledger_current_defs by metis
next
  case (6 l i n u l') then show ?case
    using resize_Ok limit_unchanged(2) unfolding ledger_current_defs by meson
next
  case (7 l i n e l') then show ?case
    using same_books_inv same_books_live same_books_fields(3) resize_Err
    unfolding ledger_current_defs by metis
next
  case (8 l i m n) then show ?case
    using resize_succeeds unfolding ledger_current_defs
    by (simp add: live_bytes_total) (simp add: ledger_inv_def)
next
  case (9 l i u l') then show ?case
    using remove_live_charge_Ok limit_unchanged(3) unfolding ledger_current_defs release_Ok_iff
    by (metis option.distinct(1))
next
  case (10 l i e l') then show ?case
    using same_books_inv same_books_live same_books_fields(3) release_Err
    unfolding ledger_current_defs by metis
next
  case (11 l i n) then show ?case
    using remove_live_charge_succeeds unfolding ledger_current_defs release_Ok_iff by blast
qed

section \<open>Sequences of ledger operations\<close>

datatype LedgerOp =
    OpReserve nat PayloadClass nat nat
  | OpCommit nat nat nat
  | OpResize nat nat nat
  | OpGrow nat nat nat
  | OpTransfer nat nat PayloadClass nat
  | OpRelease nat nat
  | OpReleaseAfterAllocationFailure nat nat

fun ledger_apply :: "LedgerOp \<Rightarrow> PayloadBudgetLedger \<Rightarrow> PayloadBudgetLedger" where
  "ledger_apply (OpReserve conn cls n gen) l = snd (reserve conn cls n gen l)"
| "ledger_apply (OpCommit i n gen) l = snd (commit i n gen l)"
| "ledger_apply (OpResize i n gen) l = snd (resize i n gen l)"
| "ledger_apply (OpGrow i n gen) l = snd (grow i n gen l)"
| "ledger_apply (OpTransfer i conn cls gen) l = snd (transfer i conn cls gen l)"
| "ledger_apply (OpRelease i gen) l = snd (release i gen l)"
| "ledger_apply (OpReleaseAfterAllocationFailure i gen) l =
     snd (release_after_allocation_failure i gen l)"

definition ledger_run :: "LedgerOp list \<Rightarrow> PayloadBudgetLedger \<Rightarrow> PayloadBudgetLedger" where
  "ledger_run ops l = fold ledger_apply ops l"

lemma result_of_snd: "(\<And>r l'. f = (r, l') \<Longrightarrow> P l') \<Longrightarrow> P (snd f)"
  by (cases f) simp

lemma same_books_invI: "same_books l l' \<Longrightarrow> ledger_inv l \<Longrightarrow> ledger_inv l'"
  by (simp add: same_books_inv)

lemma commit_inv:
  "ledger_inv l \<Longrightarrow> commit i n gen l = (r, l') \<Longrightarrow> ledger_inv l'"
  by (cases r) (metis commit_Ok(4), metis commit_Err same_books_invI)

lemma resize_inv:
  "ledger_inv l \<Longrightarrow> resize i n gen l = (r, l') \<Longrightarrow> ledger_inv l'"
  by (cases r) (metis resize_Ok(4), metis resize_Err same_books_invI)

lemma grow_inv:
  "ledger_inv l \<Longrightarrow> grow i n gen l = (r, l') \<Longrightarrow> ledger_inv l'"
  by (cases r) (metis grow_Ok resize_Ok(4), metis grow_Err same_books_invI)

lemma transfer_inv:
  "ledger_inv l \<Longrightarrow> transfer i conn cls gen l = (r, l') \<Longrightarrow> ledger_inv l'"
  by (cases r) (metis transfer_Ok(1), metis transfer_Err same_books_invI)

lemma release_inv:
  "ledger_inv l \<Longrightarrow> release i gen l = (r, l') \<Longrightarrow> ledger_inv l'"
  by (cases r) (metis release_Ok_iff remove_live_charge_Ok(4), metis release_Err same_books_invI)

lemma release_after_allocation_failure_inv:
  "ledger_inv l \<Longrightarrow> release_after_allocation_failure i gen l = (r, l') \<Longrightarrow> ledger_inv l'"
  by (cases r) (metis release_after_allocation_failure_Ok_iff remove_live_charge_Ok(4), metis release_after_allocation_failure_Err same_books_invI)

lemmas ledger_op_inv = reserve_inv commit_inv resize_inv grow_inv transfer_inv release_inv
  release_after_allocation_failure_inv

lemma ledger_apply_inv: "ledger_inv l \<Longrightarrow> ledger_inv (ledger_apply op l)"
  by (cases op) (auto intro!: result_of_snd[of _ ledger_inv] dest: ledger_op_inv)

lemma ledger_run_inv: "ledger_inv l \<Longrightarrow> ledger_inv (ledger_run ops l)"
  unfolding ledger_run_def by (induction ops arbitrary: l) (simp_all add: ledger_apply_inv)

lemma policy_bounds:
  assumes "resource_policy_try_new conns bytes = Ok p"
  shows "max_connections p = conns" "max_inflight_payload_bytes p = bytes"
    "MIN_MAX_INFLIGHT_PAYLOAD_BYTES \<le> bytes" "bytes \<le> HARD_MAX_INFLIGHT_PAYLOAD_BYTES"
    "1 \<le> conns" "conns \<le> HARD_MAX_CONNECTIONS"
    "conns * (FIXED_REQUEST_HEADER_RESERVE_BYTES + FIXED_RESPONSE_BUFFER_RESERVE_BYTES) \<le> bytes"
  using assms
  by (auto simp: resource_policy_try_new_def MIN_MAX_CONNECTIONS_def checked_mul_def rbind_Ok_iff
      split: if_splits)

lemma ledger_new_inv:
  "resource_policy_try_new conns bytes = Ok p \<Longrightarrow> ledger_inv (ledger_new p gen)"
  using policy_bounds[of conns bytes p] by (simp add: ledger_inv_def ledger_new_def)

fun ledger_ok :: "LedgerOp \<Rightarrow> PayloadBudgetLedger \<Rightarrow> bool" where
  "ledger_ok (OpReserve conn cls n gen) l = is_ok (fst (reserve conn cls n gen l))"
| "ledger_ok (OpCommit i n gen) l = is_ok (fst (commit i n gen l))"
| "ledger_ok (OpResize i n gen) l = is_ok (fst (resize i n gen l))"
| "ledger_ok (OpGrow i n gen) l = is_ok (fst (grow i n gen l))"
| "ledger_ok (OpTransfer i conn cls gen) l = is_ok (fst (transfer i conn cls gen l))"
| "ledger_ok (OpRelease i gen) l = is_ok (fst (release i gen l))"
| "ledger_ok (OpReleaseAfterAllocationFailure i gen) l =
     is_ok (fst (release_after_allocation_failure i gen l))"

text \<open>
  The abstract account: a map from charge identities to bytes, with \<open>fresh\<close> the identity the
  next reservation takes.
\<close>

fun account_apply :: "LedgerOp \<Rightarrow> nat \<Rightarrow> (nat \<rightharpoonup> nat) \<Rightarrow> (nat \<rightharpoonup> nat)" where
  "account_apply (OpReserve conn cls n gen) fresh m = m(fresh \<mapsto> n)"
| "account_apply (OpCommit i n gen) fresh m = m(i \<mapsto> n)"
| "account_apply (OpResize i n gen) fresh m = m(i \<mapsto> n)"
| "account_apply (OpGrow i n gen) fresh m = (if n = 0 then m else m(i \<mapsto> the (m i) + n))"
| "account_apply (OpTransfer i conn cls gen) fresh m = m"
| "account_apply (OpRelease i gen) fresh m = m(i := None)"
| "account_apply (OpReleaseAfterAllocationFailure i gen) fresh m = m(i := None)"

lemma refused_snd: "\<not> is_ok (fst f) \<Longrightarrow> (\<And>e s. f = (Err e, s) \<Longrightarrow> P s) \<Longrightarrow> P (snd f)"
  by (cases f; cases "fst f") auto

lemma ledger_apply_refused: "\<not> ledger_ok op l \<Longrightarrow> same_books l (ledger_apply op l)"
  by (cases op)
    (auto elim!: refused_snd intro: reserve_Err commit_Err resize_Err grow_Err transfer_Err
      release_Err release_after_allocation_failure_Err)

lemma grow_live: "grow i k gen l = (Ok u, l') \<Longrightarrow>
    live_bytes l' = (if k = 0 then live_bytes l else (live_bytes l)(i \<mapsto> the (live_bytes l i) + k))"
  using grow_Ok[of i k gen l u l']
  by (cases "k = 0") (auto simp: grow_def require_generation_Ok dest: resize_Ok(3) split: try_bind_splits)

lemma release_live:
  "ledger_inv l \<Longrightarrow> release i gen l = (Ok u, l') \<Longrightarrow> live_bytes l' = (live_bytes l)(i := None)"
  "ledger_inv l \<Longrightarrow> release_after_allocation_failure i gen l = (Ok u, l') \<Longrightarrow>
    live_bytes l' = (live_bytes l)(i := None)"
  unfolding release_Ok_iff release_after_allocation_failure_Ok_iff
  using remove_live_charge_Ok(2) by blast+

lemma ledger_apply_granted:
  assumes "ledger_inv l" "ledger_ok op l"
  shows "live_bytes (ledger_apply op l) = account_apply op (next_charge_id l) (live_bytes l)"
proof (cases op)
  case (OpReserve conn cls n gen)
  then show ?thesis using assms
    by (cases "reserve conn cls n gen l")
      (auto simp: is_ok_iff dest: reserve_live(2) reserve_Ok(5))
next
  case (OpCommit i n gen)
  then show ?thesis using assms
    by (cases "commit i n gen l") (auto simp: is_ok_iff dest: commit_Ok(3))
next
  case (OpResize i n gen)
  then show ?thesis using assms
    by (cases "resize i n gen l") (auto simp: is_ok_iff dest: resize_Ok(3))
next
  case (OpGrow i n gen)
  then show ?thesis using assms
    by (cases "grow i n gen l") (auto simp: is_ok_iff dest: grow_live)
next
  case (OpTransfer i conn cls gen)
  then show ?thesis using assms
    by (cases "transfer i conn cls gen l") (auto simp: is_ok_iff dest: transfer_Ok(2))
next
  case (OpRelease i gen)
  then show ?thesis using assms
    by (cases "release i gen l") (auto simp: is_ok_iff dest: release_live(1))
next
  case (OpReleaseAfterAllocationFailure i gen)
  then show ?thesis using assms
    by (cases "release_after_allocation_failure i gen l")
      (auto simp: is_ok_iff dest: release_live(2))
qed

definition same_frame :: "PayloadBudgetLedger \<Rightarrow> PayloadBudgetLedger \<Rightarrow> bool" where
  "same_frame l l' \<longleftrightarrow> limit_bytes l' = limit_bytes l \<and> generation l' = generation l"

lemma same_frame_refl [simp]: "same_frame l l"
  by (simp add: same_frame_def)

lemma same_frame_trans: "same_frame a b \<Longrightarrow> same_frame b c \<Longrightarrow> same_frame a c"
  by (simp add: same_frame_def)

lemma same_frame_updates [simp]:
  "same_frame a (b\<lparr>charges := m\<rparr>) = same_frame a b" "same_frame a (b\<lparr>used_bytes := n\<rparr>) = same_frame a b"
  "same_frame a (b\<lparr>pressure_state := p\<rparr>) = same_frame a b"
  "same_frame a (b\<lparr>next_charge_id := n\<rparr>) = same_frame a b"
  "same_frame a (refresh_pressure b) = same_frame a b"
  by (simp_all add: same_frame_def)

lemmas frame_bind = try_bind_snd[where P = "same_frame l" for l]

lemma frame_steps:
  "same_frame l a \<Longrightarrow> same_frame l (snd (fail_accounting m a))"
  "same_frame l a \<Longrightarrow> same_frame l (snd (require_generation gen a))"
  "same_frame l a \<Longrightarrow> same_frame l (snd (live_charge i gen a))"
  "same_frame l a \<Longrightarrow> same_frame l (snd (replace_charge_bytes i n a))"
  by (simp_all add: fail_accounting_def require_generation_def live_charge_def
      replace_charge_bytes_def split: option.splits)

lemma frame_remove: "same_frame l a \<Longrightarrow> same_frame l (snd (remove_live_charge i gen st a))"
  unfolding remove_live_charge_def
  by (intro frame_bind) (auto simp: frame_steps Let_def split: option.splits)

lemma frame_resize: "same_frame l a \<Longrightarrow> same_frame l (snd (resize i n gen a))"
  unfolding resize_def by (intro frame_bind) (auto simp: frame_steps intro!: frame_bind)

lemma frame_reserve: "same_frame l a \<Longrightarrow> same_frame l (snd (reserve conn cls n gen a))"
  unfolding reserve_def
  by (auto simp: frame_steps Let_def intro!: frame_bind split: option.splits)

lemma ledger_apply_frame: "same_frame l (ledger_apply op l)"
  by (cases op)
    (auto simp: commit_def grow_def transfer_def release_def release_after_allocation_failure_def
        frame_steps frame_remove frame_resize frame_reserve
      intro!: frame_bind split: option.splits)

lemma ledger_run_frame: "same_frame l (ledger_run ops l)"
  unfolding ledger_run_def
  by (induction ops arbitrary: l) (auto intro: same_frame_trans ledger_apply_frame)

section \<open>Pressure\<close>

definition pressure_ok :: "PayloadBudgetLedger \<Rightarrow> bool" where
  "pressure_ok l \<longleftrightarrow>
    MIN_MAX_INFLIGHT_PAYLOAD_BYTES \<le> limit_bytes l \<and>
    limit_bytes l \<le> HARD_MAX_INFLIGHT_PAYLOAD_BYTES \<and>
    (pressure_state l = Normal \<longrightarrow> used_bytes l < limit_bytes l * 80 div 100)"

lemma pressure_ok_updates [simp]:
  "pressure_ok (l\<lparr>charges := m\<rparr>) = pressure_ok l"
  "pressure_ok (l\<lparr>next_charge_id := n\<rparr>) = pressure_ok l"
  "pressure_ok l \<Longrightarrow> p \<noteq> Normal \<Longrightarrow> pressure_ok (l\<lparr>pressure_state := p\<rparr>)"
  by (simp_all add: pressure_ok_def)

lemma refresh_pressure_ok:
  assumes "MIN_MAX_INFLIGHT_PAYLOAD_BYTES \<le> limit_bytes l"
    "limit_bytes l \<le> HARD_MAX_INFLIGHT_PAYLOAD_BYTES"
  shows "pressure_ok (refresh_pressure l)"
proof -
  have "limit_bytes l * 80 \<le> usize_max" "limit_bytes l * 60 \<le> usize_max"
    using assms hard_max_le_usize by linarith+
  moreover have "limit_bytes l * 60 div 100 < limit_bytes l * 80 div 100"
    using assms(1) by (simp add: MIN_MAX_INFLIGHT_PAYLOAD_BYTES_def)
  ultimately show ?thesis
    using assms by (cases "pressure_state l") (auto simp: pressure_ok_def refresh_pressure_def Let_def)
qed

lemma pressure_ok_refresh [simp]:
  "pressure_ok l \<Longrightarrow> pressure_ok (refresh_pressure (l\<lparr>used_bytes := n, charges := m\<rparr>))"
  "pressure_ok l \<Longrightarrow> pressure_ok (refresh_pressure (l\<lparr>charges := m, used_bytes := n\<rparr>))"
  "pressure_ok l \<Longrightarrow> pressure_ok (refresh_pressure (l\<lparr>next_charge_id := k, used_bytes := n, charges := m\<rparr>))"
  by (rule refresh_pressure_ok; simp add: pressure_ok_def)+

lemmas pressure_bind = try_bind_snd[where P = pressure_ok]

lemma pressure_steps:
  "pressure_ok a \<Longrightarrow> pressure_ok (snd (fail_accounting m a))"
  "pressure_ok a \<Longrightarrow> pressure_ok (snd (require_generation gen a))"
  "pressure_ok a \<Longrightarrow> pressure_ok (snd (live_charge i gen a))"
  "pressure_ok a \<Longrightarrow> pressure_ok (snd (replace_charge_bytes i n a))"
  by (simp_all add: fail_accounting_def require_generation_def live_charge_def
      replace_charge_bytes_def split: option.splits)

lemma pressure_remove: "pressure_ok a \<Longrightarrow> pressure_ok (snd (remove_live_charge i gen st a))"
  unfolding remove_live_charge_def
  by (intro pressure_bind) (auto simp: pressure_steps Let_def split: option.splits)

lemma pressure_resize: "pressure_ok a \<Longrightarrow> pressure_ok (snd (resize i n gen a))"
  unfolding resize_def by (intro pressure_bind) (auto simp: pressure_steps intro!: pressure_bind)

lemma pressure_reserve: "pressure_ok a \<Longrightarrow> pressure_ok (snd (reserve conn cls n gen a))"
  unfolding reserve_def
  by (auto simp: pressure_steps Let_def intro!: pressure_bind split: option.splits)

lemma ledger_apply_pressure: "pressure_ok l \<Longrightarrow> pressure_ok (ledger_apply op l)"
  by (cases op)
    (auto simp: commit_def grow_def transfer_def release_def release_after_allocation_failure_def
        pressure_steps pressure_remove pressure_resize pressure_reserve
      intro!: pressure_bind split: option.splits)

lemma ledger_run_pressure: "pressure_ok l \<Longrightarrow> pressure_ok (ledger_run ops l)"
  unfolding ledger_run_def by (induction ops arbitrary: l) (simp_all add: ledger_apply_pressure)

lemma ledger_new_pressure:
  assumes "resource_policy_try_new conns bytes = Ok p"
  shows "pressure_ok (ledger_new p gen)"
  using policy_bounds[OF assms]
  by (simp add: pressure_ok_def ledger_new_def MIN_MAX_INFLIGHT_PAYLOAD_BYTES_def)

section \<open>Properties of the ledger\<close>

text \<open>
  C1: Whatever sequence of operations is applied to a fresh ledger, with whatever arguments,
  the used bytes are exactly the sum of the live charges and never exceed the configured
  limit, and every live charge is positive, belongs to the current generation and has not
  reached a terminal state.
\<close>

theorem ledger_books_balance:
  assumes "resource_policy_try_new conns bytes = Ok p"
    and "l = ledger_run ops (ledger_new p gen)"
  shows "used_bytes l = map_total charged_bytes (charges l) \<and> used_bytes l \<le> bytes \<and>
    (\<forall>i c. charges l i = Some c \<longrightarrow> 0 < charged_bytes c \<and> charged_bytes c \<le> bytes \<and>
       charge_generation c = gen \<and> \<not> charge_is_terminal (charge_state c))"
proof -
  have inv: "ledger_inv l" unfolding assms(2) by (intro ledger_run_inv ledger_new_inv[OF assms(1)])
  have frame: "limit_bytes l = bytes" "generation l = gen"
    using ledger_run_frame[of "ledger_new p gen" ops] policy_bounds(2)[OF assms(1)] assms(2)
    by (simp_all add: same_frame_def ledger_new_def)
  have used: "used_bytes l = map_total charged_bytes (charges l)" "used_bytes l \<le> bytes"
    using inv frame by (simp_all add: ledger_inv_def)
  have "0 < charged_bytes c \<and> charged_bytes c \<le> bytes \<and> charge_generation c = gen \<and>
      \<not> charge_is_terminal (charge_state c)" if c: "charges l i = Some c" for i c
  proof -
    have "charged_bytes c \<le> used_bytes l"
      using c inv map_total_member_le[of "charges l" i c charged_bytes] by (simp add: ledger_inv_def)
    then show ?thesis
      using c inv frame used(2) by (auto simp: ledger_inv_def charge_ok_def resizable_not_terminal)
  qed
  then show ?thesis using used by blast
qed

definition sample_policy :: RuntimeResourcePolicy where
  "sample_policy = \<lparr>max_connections = 16, max_inflight_payload_bytes = 16777216\<rparr>"

lemma sample_policy_valid: "resource_policy_try_new 16 16777216 = Ok sample_policy"
  by (simp add: resource_policy_try_new_def sample_policy_def checked_add_def checked_mul_def
      usize_max_def MIN_MAX_CONNECTIONS_def HARD_MAX_CONNECTIONS_def
      MIN_MAX_INFLIGHT_PAYLOAD_BYTES_def HARD_MAX_INFLIGHT_PAYLOAD_BYTES_def
      FIXED_REQUEST_HEADER_RESERVE_BYTES_def FIXED_RESPONSE_BUFFER_RESERVE_BYTES_def)

lemmas ledger_eval = ledger_run_def ledger_new_def reserve_def commit_def resize_def grow_def
  release_def remove_live_charge_def replace_charge_bytes_def live_charge_def
  require_generation_def refresh_pressure_def fail_accounting_def checked_add_def
  checked_sub_def usize_max_def wrap64_def Let_def

theorem ledger_books_balance_witness:
  "used_bytes (ledger_run [OpReserve 7 Request 100 3, OpGrow 1 20 3, OpRelease 9 3]
      (ledger_new sample_policy 3)) \<le> 16777216 \<and>
   used_bytes (ledger_run [OpReserve 7 Request 100 3, OpGrow 1 20 3, OpRelease 9 3]
      (ledger_new sample_policy 3)) = 120"
  using ledger_books_balance[OF sample_policy_valid refl,
      of "[OpReserve 7 Request 100 3, OpGrow 1 20 3, OpRelease 9 3]" 3]
  by (simp add: ledger_eval sample_policy_def)

text \<open>
  C5: The ledger implements the abstract account: a granted operation changes the map from
  charge identities to bytes exactly as the account says, and a refused one leaves the
  charges, the total, the identity counter, the limit and the generation as they were.
\<close>

theorem ledger_refines_account:
  assumes "ledger_inv l"
  shows "if ledger_ok op l
    then live_bytes (ledger_apply op l) = account_apply op (next_charge_id l) (live_bytes l)
    else same_books l (ledger_apply op l)"
  using ledger_apply_granted[OF assms] ledger_apply_refused by simp

theorem ledger_refines_account_witness:
  "live_bytes (ledger_apply (OpReserve 7 Request 100 3) (ledger_new sample_policy 3)) = [1 \<mapsto> 100]"
  using ledger_refines_account[OF ledger_new_inv[OF sample_policy_valid],
      of "OpReserve 7 Request 100 3" 3]
  by (simp add: ledger_eval sample_policy_def live_bytes_def split: if_splits)

text \<open>
  C25: A new connection is admitted only while the used bytes are below the high watermark of
  80 percent of the limit and the connection count is below its own limit, after any
  sequence of ledger operations: the hysteresis returns to normal only below the low
  watermark, and the watermark computation does not overflow.
\<close>

theorem admission_has_headroom:
  assumes "resource_policy_try_new conns bytes = Ok p"
    and "connection_admission_decision (pressure_state (ledger_run ops (ledger_new p gen)))
      active conns = Accepted"
  shows "used_bytes (ledger_run ops (ledger_new p gen)) < bytes * 80 div 100 \<and> active < conns"
proof -
  have "pressure_state (ledger_run ops (ledger_new p gen)) = Normal \<and> active < conns"
    using assms(2) by (auto simp: connection_admission_decision_def
        split: ResourcePressureState.splits if_splits)
  moreover have "limit_bytes (ledger_run ops (ledger_new p gen)) = bytes"
    using ledger_run_frame[of "ledger_new p gen" ops] policy_bounds(2)[OF assms(1)]
    by (simp add: same_frame_def ledger_new_def)
  ultimately show ?thesis
    using ledger_run_pressure[OF ledger_new_pressure[OF assms(1), of gen], of ops]
    unfolding pressure_ok_def by simp
qed

theorem admission_has_headroom_witness:
  "used_bytes (ledger_run [OpReserve 7 Request 1000 3] (ledger_new sample_policy 3)) < 13421772 \<and>
   (4::nat) < 16"
  using admission_has_headroom[OF sample_policy_valid,
      of "[OpReserve 7 Request 1000 3]" 3 4]
  by (simp add: ledger_eval sample_policy_def connection_admission_decision_def)

text \<open>
  C27: A reservation in the current generation is granted exactly when the ledger is not
  failed closed, the amount is positive and fits under the limit, and an identity is left.
\<close>

theorem reserve_granted_iff:
  assumes "ledger_inv l"
  shows "is_ok (fst (reserve conn cls n gen l)) \<longleftrightarrow>
    pressure_state l \<noteq> FailedClosed \<and> gen = generation l \<and> 0 < n \<and>
    used_bytes l + n \<le> limit_bytes l \<and> next_charge_id l < usize_max"
proof -
  have "used_bytes l + n \<le> limit_bytes l \<Longrightarrow> used_bytes l + n \<le> usize_max"
    using ledger_inv_used_small[OF assms] by linarith
  then show ?thesis
    by (auto simp: reserve_def require_generation_def fail_accounting_def Let_def
        checked_add_def)
qed

theorem reserve_granted_iff_witness:
  "is_ok (fst (reserve 7 Request 16777216 3 (ledger_new sample_policy 3))) \<and>
   \<not> is_ok (fst (reserve 7 Request 16777217 3 (ledger_new sample_policy 3)))"
  using reserve_granted_iff[OF ledger_new_inv[OF sample_policy_valid], of 7 Request _ 3 3]
  by (simp add: ledger_new_def sample_policy_def usize_max_def)

text \<open>
  C28: The failed-closed state is not final. After an accounting failure, growing a charge
  that is still live past the limit moves the ledger to exhausted, and shrinking it then
  moves it back to normal, so admissions are open again.
\<close>

theorem failed_closed_is_left:
  assumes "resource_policy_try_new conns bytes = Ok p"
    and "run = (\<lambda>ops. pressure_state (ledger_run ops (ledger_new p gen)))"
  shows "run [OpReserve k Request 1 gen, OpReserve k Request 0 gen] = FailedClosed \<and>
    run [OpReserve k Request 1 gen, OpReserve k Request 0 gen, OpGrow 1 bytes gen] = Exhausted \<and>
    run [OpReserve k Request 1 gen, OpReserve k Request 0 gen, OpGrow 1 bytes gen,
      OpResize 1 1 gen] = Normal"
proof -
  have "max_inflight_payload_bytes p = bytes" "16777216 \<le> bytes" "bytes \<le> 536870912"
    using policy_bounds[OF assms(1)]
    by (simp_all add: MIN_MAX_INFLIGHT_PAYLOAD_BYTES_def HARD_MAX_INFLIGHT_PAYLOAD_BYTES_def)
  then show ?thesis unfolding assms(2) by (simp add: ledger_eval)
qed

theorem failed_closed_is_left_witness:
  "pressure_state (ledger_run [OpReserve 5 Request 1 2, OpReserve 5 Request 0 2,
      OpGrow 1 16777216 2, OpResize 1 1 2] (ledger_new sample_policy 2)) = Normal"
  using failed_closed_is_left[OF sample_policy_valid refl, of 5 2] by simp

end
