(* ===== verification/Charges.thy ===== *)
theory Charges
  imports Ledger
begin

text \<open>
  The charges a connection holds (\<^verbatim>\<open>payload_charge_slot.rs\<close>,
  \<^verbatim>\<open>request_payload_charge.rs\<close>, \<^verbatim>\<open>tls_pending_payload_charge.rs\<close>,
  \<^verbatim>\<open>client_response_charge_transaction.rs\<close>, \<^verbatim>\<open>upstream_retry_charge_pair.rs\<close> and
  \<^verbatim>\<open>ConnectionPayloadCharges\<close> of \<^verbatim>\<open>edge-core/src/lib.rs\<close>). A slot is an optional charge
  identity; a slot operation works on the slot and the ledger together.

  The lemmas show that an operation which fails leaves its slot and every live charge as
  they were, that one which succeeds changes only the charge of its slot, and that the slots
  of all connections together own every live charge, so closing the connections empties the
  ledger.
\<close>

section \<open>One slot\<close>

type_synonym 's on_ledger = "'s \<times> PayloadBudgetLedger"

fun with_ledger :: "'s \<Rightarrow> 'a app \<times> PayloadBudgetLedger \<Rightarrow> 'a app \<times> 's on_ledger" where
  "with_ledger s (r, l) = (r, (s, l))"

definition slot_bytes :: "PayloadBudgetLedger \<Rightarrow> nat option \<Rightarrow> nat" where
  "slot_bytes l slot =
    (case slot of None \<Rightarrow> 0 | Some i \<Rightarrow> (case charges l i of None \<Rightarrow> 0 | Some c \<Rightarrow> charged_bytes c))"

fun slot_release :: "nat option on_ledger \<Rightarrow> unit app \<times> nat option on_ledger" where
  "slot_release (None, l) = (Ok (), (None, l))"
| "slot_release (Some i, l) =
    try_bind (with_ledger (Some i) (release_current i l)) (\<lambda>_ (_, l). (Ok (), (None, l)))"

definition slot_sync ::
  "PayloadClass \<Rightarrow> nat \<Rightarrow> nat \<Rightarrow> nat option on_ledger \<Rightarrow> bool app \<times> nat option on_ledger" where
  "slot_sync cls conn next_bytes st =
    (case st of (slot, l) \<Rightarrow>
      if slot_bytes l slot = next_bytes then (Ok False, st)
      else if next_bytes = 0 then try_bind (slot_release st) (\<lambda>_ st. (Ok True, st))
      else case slot of
        Some i \<Rightarrow>
          try_bind (with_ledger slot (resize_current i next_bytes l)) (\<lambda>_ st. (Ok True, st))
      | None \<Rightarrow>
          try_bind (with_ledger slot (reserve conn cls next_bytes (generation l) l)) (\<lambda>i (_, l').
            case commit i next_bytes (generation l) l' of
              (Err e, l'') \<Rightarrow> (Err e, (None, snd (release i (generation l) l'')))
            | (Ok _, l'') \<Rightarrow> (Ok True, (Some i, l''))))"

definition request_grow ::
  "nat \<Rightarrow> nat \<Rightarrow> nat option on_ledger \<Rightarrow> unit app \<times> nat option on_ledger" where
  "request_grow conn additional st =
    (case st of (slot, l) \<Rightarrow>
      if additional = 0 then (Ok (), st)
      else case slot of
        Some i \<Rightarrow> with_ledger slot (grow i additional (generation l) l)
      | None \<Rightarrow>
          try_bind (with_ledger slot (reserve conn Request additional (generation l) l))
            (\<lambda>i (_, l). (Ok (), (Some i, l))))"

section \<open>The client response transaction\<close>

record ClientResponseChargeChange =
  change_charge_id :: nat
  change_previous_bytes :: "nat option"
  change_next_bytes :: nat

definition response_resize_in_use ::
  "nat \<Rightarrow> nat option on_ledger \<Rightarrow> unit app \<times> nat option on_ledger" where
  "response_resize_in_use next_bytes st =
    (case st of
       (None, l) \<Rightarrow> with_ledger None (fail_accounting ''client response charge is not installed'' l)
     | (Some i, l) \<Rightarrow>
         if next_bytes = 0
         then try_bind (with_ledger (Some i) (release_current i l)) (\<lambda>_ (_, l). (Ok (), (None, l)))
         else with_ledger (Some i) (resize_current i next_bytes l))"

definition response_prepare ::
  "nat \<Rightarrow> nat \<Rightarrow> nat option on_ledger \<Rightarrow> ClientResponseChargeChange app \<times> nat option on_ledger" where
  "response_prepare conn next_bytes st =
    (case st of
       (Some i, l) \<Rightarrow>
         (case charges l i of
            None \<Rightarrow> (Err (resource_accounting_error ''client response charge disappeared''), st)
          | Some c \<Rightarrow>
              try_bind (with_ledger (Some i) (resize_current i next_bytes l)) (\<lambda>_ st.
                (Ok \<lparr>change_charge_id = i, change_previous_bytes = Some (charged_bytes c),
                     change_next_bytes = next_bytes\<rparr>, st)))
     | (None, l) \<Rightarrow>
         try_bind (with_ledger None (acquire_for conn ClientResponse next_bytes l)) (\<lambda>i (_, l).
           (Ok \<lparr>change_charge_id = i, change_previous_bytes = None,
                change_next_bytes = next_bytes\<rparr>, (Some i, l))))"

definition response_commit ::
  "ClientResponseChargeChange \<Rightarrow> nat option on_ledger \<Rightarrow> unit app \<times> nat option on_ledger" where
  "response_commit change st =
    (case st of (slot, l) \<Rightarrow>
      if slot \<noteq> Some (change_charge_id change)
      then with_ledger slot (fail_accounting ''client response change is not current'' l)
      else if change_previous_bytes change = None
      then with_ledger slot
        (commit (change_charge_id change) (change_next_bytes change) (generation l) l)
      else (Ok (), st))"

definition response_rollback ::
  "ClientResponseChargeChange \<Rightarrow> nat option on_ledger \<Rightarrow> unit app \<times> nat option on_ledger" where
  "response_rollback change st =
    (case st of (slot, l) \<Rightarrow>
      if slot \<noteq> Some (change_charge_id change)
      then with_ledger slot (fail_accounting ''client response rollback is not current'' l)
      else case change_previous_bytes change of
        Some previous \<Rightarrow> with_ledger slot (resize_current (change_charge_id change) previous l)
      | None \<Rightarrow>
          try_bind (with_ledger slot (fail_allocation_current (change_charge_id change) l))
            (\<lambda>_ (_, l). (Ok (), (None, l))))"

section \<open>The upstream request and its replay copy\<close>

type_synonym slot_pair = "nat option \<times> nat option"

definition pair_reserve ::
  "nat \<Rightarrow> nat \<Rightarrow> nat \<Rightarrow> slot_pair on_ledger \<Rightarrow> unit app \<times> slot_pair on_ledger" where
  "pair_reserve conn upstream_bytes retry_bytes st =
    (case st of ((up, re), l) \<Rightarrow>
      if up \<noteq> None \<or> re \<noteq> None
      then with_ledger (up, re) (fail_accounting ''upstream payload charges are already installed'' l)
      else try_bind (with_ledger (up, re) (reserve conn UpstreamRequest upstream_bytes (generation l) l))
        (\<lambda>u (_, l').
          case reserve conn RetryReplay retry_bytes (generation l) l' of
            (Ok r, l'') \<Rightarrow> (Ok (), ((Some u, Some r), l''))
          | (Err e, l'') \<Rightarrow>
              try_bind (with_ledger (up, re) (release u (generation l) l'')) (\<lambda>_ st. (Err e, st))))"

definition pair_commit ::
  "nat \<Rightarrow> nat \<Rightarrow> slot_pair on_ledger \<Rightarrow> unit app \<times> slot_pair on_ledger" where
  "pair_commit upstream_bytes retry_bytes st =
    (case st of
       ((None, re), l) \<Rightarrow> with_ledger (None, re) (fail_accounting ''upstream charge is not installed'' l)
     | ((Some u, None), l) \<Rightarrow>
         with_ledger (Some u, None) (fail_accounting ''retry replay charge is not installed'' l)
     | ((Some u, Some r), l) \<Rightarrow>
         with_ledger (Some u, Some r)
           (try_bind (commit u upstream_bytes (generation l) l) (\<lambda>_ l'.
              commit r retry_bytes (generation l) l')))"

definition pair_release_after_allocation_failure ::
  "slot_pair on_ledger \<Rightarrow> unit app \<times> slot_pair on_ledger" where
  "pair_release_after_allocation_failure st =
    (case st of ((up, re), l) \<Rightarrow>
      try_bind
        (case up of
           None \<Rightarrow> (Ok (), st)
         | Some u \<Rightarrow>
             try_bind (with_ledger (up, re) (release_after_allocation_failure u (generation l) l))
               (\<lambda>_ (_, l). (Ok (), ((None, re), l))))
        (\<lambda>_ ((up, re), l').
           case re of
             None \<Rightarrow> (Ok (), ((up, re), l'))
           | Some r \<Rightarrow>
               try_bind (with_ledger (up, re) (release r (generation l) l'))
                 (\<lambda>_ (_, l). (Ok (), ((up, None), l)))))"

section \<open>The charges of a connection\<close>

record ConnectionPayloadCharges =
  ch_request :: "nat option"
  ch_upstream :: "nat option"
  ch_retry_replay :: "nat option"
  ch_client_response :: "nat option"
  ch_tls_pending :: "nat option"
  ch_websocket_client_to_upstream :: "nat option"
  ch_websocket_upstream_to_client :: "nat option"

definition no_charges :: ConnectionPayloadCharges where
  "no_charges = \<lparr>ch_request = None, ch_upstream = None, ch_retry_replay = None,
     ch_client_response = None, ch_tls_pending = None, ch_websocket_client_to_upstream = None,
     ch_websocket_upstream_to_client = None\<rparr>"

definition on_field ::
  "('c \<Rightarrow> 's) \<Rightarrow> ('s \<Rightarrow> 'c \<Rightarrow> 'c) \<Rightarrow> ('s on_ledger \<Rightarrow> 'a app \<times> 's on_ledger)
    \<Rightarrow> 'c on_ledger \<Rightarrow> 'a app \<times> 'c on_ledger" where
  "on_field get put op st =
    (case st of (ch, l) \<Rightarrow> case op (get ch, l) of (r, (s, l')) \<Rightarrow> (r, (put s ch, l')))"

definition grow_request ::
  "nat \<Rightarrow> nat \<Rightarrow> ConnectionPayloadCharges on_ledger \<Rightarrow> unit app \<times> ConnectionPayloadCharges on_ledger" where
  "grow_request conn n = on_field ch_request (\<lambda>s ch. ch\<lparr>ch_request := s\<rparr>) (request_grow conn n)"

definition sync_tls_pending ::
  "nat \<Rightarrow> nat \<Rightarrow> ConnectionPayloadCharges on_ledger \<Rightarrow> bool app \<times> ConnectionPayloadCharges on_ledger" where
  "sync_tls_pending conn n =
    on_field ch_tls_pending (\<lambda>s ch. ch\<lparr>ch_tls_pending := s\<rparr>) (slot_sync TlsPending conn n)"

definition sync_websocket_client_to_upstream ::
  "nat \<Rightarrow> nat \<Rightarrow> ConnectionPayloadCharges on_ledger \<Rightarrow> bool app \<times> ConnectionPayloadCharges on_ledger" where
  "sync_websocket_client_to_upstream conn n =
    on_field ch_websocket_client_to_upstream (\<lambda>s ch. ch\<lparr>ch_websocket_client_to_upstream := s\<rparr>)
      (slot_sync WebSocketClientToUpstream conn n)"

definition sync_websocket_upstream_to_client ::
  "nat \<Rightarrow> nat \<Rightarrow> ConnectionPayloadCharges on_ledger \<Rightarrow> bool app \<times> ConnectionPayloadCharges on_ledger" where
  "sync_websocket_upstream_to_client conn n =
    on_field ch_websocket_upstream_to_client (\<lambda>s ch. ch\<lparr>ch_websocket_upstream_to_client := s\<rparr>)
      (slot_sync WebSocketUpstreamToClient conn n)"

definition resize_client_response_in_use ::
  "nat \<Rightarrow> ConnectionPayloadCharges on_ledger \<Rightarrow> unit app \<times> ConnectionPayloadCharges on_ledger" where
  "resize_client_response_in_use n =
    on_field ch_client_response (\<lambda>s ch. ch\<lparr>ch_client_response := s\<rparr>) (response_resize_in_use n)"

definition prepare_client_response_bytes ::
  "nat \<Rightarrow> nat \<Rightarrow> ConnectionPayloadCharges on_ledger
    \<Rightarrow> ClientResponseChargeChange app \<times> ConnectionPayloadCharges on_ledger" where
  "prepare_client_response_bytes conn n =
    on_field ch_client_response (\<lambda>s ch. ch\<lparr>ch_client_response := s\<rparr>) (response_prepare conn n)"

definition commit_client_response_bytes ::
  "ClientResponseChargeChange \<Rightarrow> ConnectionPayloadCharges on_ledger
    \<Rightarrow> unit app \<times> ConnectionPayloadCharges on_ledger" where
  "commit_client_response_bytes change =
    on_field ch_client_response (\<lambda>s ch. ch\<lparr>ch_client_response := s\<rparr>) (response_commit change)"

definition rollback_client_response_allocation ::
  "ClientResponseChargeChange \<Rightarrow> ConnectionPayloadCharges on_ledger
    \<Rightarrow> unit app \<times> ConnectionPayloadCharges on_ledger" where
  "rollback_client_response_allocation change =
    on_field ch_client_response (\<lambda>s ch. ch\<lparr>ch_client_response := s\<rparr>) (response_rollback change)"

definition get_pair :: "ConnectionPayloadCharges \<Rightarrow> slot_pair" where
  "get_pair ch = (ch_upstream ch, ch_retry_replay ch)"

definition put_pair :: "slot_pair \<Rightarrow> ConnectionPayloadCharges \<Rightarrow> ConnectionPayloadCharges" where
  "put_pair p ch = ch\<lparr>ch_upstream := fst p, ch_retry_replay := snd p\<rparr>"

definition reserve_upstream_and_retry ::
  "nat \<Rightarrow> nat \<Rightarrow> nat \<Rightarrow> ConnectionPayloadCharges on_ledger
    \<Rightarrow> unit app \<times> ConnectionPayloadCharges on_ledger" where
  "reserve_upstream_and_retry conn u r = on_field get_pair put_pair (pair_reserve conn u r)"

definition commit_upstream_and_retry ::
  "nat \<Rightarrow> nat \<Rightarrow> ConnectionPayloadCharges on_ledger \<Rightarrow> unit app \<times> ConnectionPayloadCharges on_ledger" where
  "commit_upstream_and_retry u r = on_field get_pair put_pair (pair_commit u r)"

definition release_upstream_allocation_failure ::
  "ConnectionPayloadCharges on_ledger \<Rightarrow> unit app \<times> ConnectionPayloadCharges on_ledger" where
  "release_upstream_allocation_failure =
    on_field get_pair put_pair pair_release_after_allocation_failure"

definition reserve_upstream_replacement ::
  "nat \<Rightarrow> nat \<Rightarrow> ConnectionPayloadCharges on_ledger \<Rightarrow> nat app \<times> ConnectionPayloadCharges on_ledger" where
  "reserve_upstream_replacement conn n st =
    (case st of (ch, l) \<Rightarrow>
      if ch_upstream ch = None
      then with_ledger ch (fail_accounting ''current upstream charge is not installed'' l)
      else with_ledger ch (acquire_for conn UpstreamRequest n l))"

definition commit_upstream_replacement ::
  "nat \<Rightarrow> nat \<Rightarrow> ConnectionPayloadCharges on_ledger \<Rightarrow> unit app \<times> ConnectionPayloadCharges on_ledger" where
  "commit_upstream_replacement replacement n st =
    (case st of (ch, l) \<Rightarrow>
      case ch_upstream ch of
        None \<Rightarrow> with_ledger ch (fail_accounting ''current upstream charge is not installed'' l)
      | Some current \<Rightarrow>
          if current = replacement
          then with_ledger ch (fail_accounting ''replacement upstream charge must be distinct'' l)
          else case charges l replacement of
            None \<Rightarrow> with_ledger ch (fail_accounting ''replacement upstream charge is not live'' l)
          | Some c \<Rightarrow>
              if charge_class c \<noteq> UpstreamRequest
              then with_ledger ch (fail_accounting ''replacement charge has the wrong payload class'' l)
              else try_bind (with_ledger ch (commit replacement n (generation l) l)) (\<lambda>_ (_, l').
                case release current (generation l) l' of
                  (Err e, l'') \<Rightarrow> (Err e, (ch, snd (release replacement (generation l) l'')))
                | (Ok _, l'') \<Rightarrow> (Ok (), (ch\<lparr>ch_upstream := Some replacement\<rparr>, l''))))"

definition release_upstream_replacement_after_allocation_failure ::
  "nat \<Rightarrow> ConnectionPayloadCharges on_ledger \<Rightarrow> unit app \<times> ConnectionPayloadCharges on_ledger" where
  "release_upstream_replacement_after_allocation_failure replacement st =
    (case st of (ch, l) \<Rightarrow>
      if ch_upstream ch = Some replacement
      then with_ledger ch (fail_accounting ''current upstream charge cannot be failed as pending'' l)
      else with_ledger ch (fail_allocation_current replacement l))"

definition release_request ::
  "ConnectionPayloadCharges on_ledger \<Rightarrow> unit app \<times> ConnectionPayloadCharges on_ledger" where
  "release_request = on_field ch_request (\<lambda>s ch. ch\<lparr>ch_request := s\<rparr>) slot_release"

definition release_all ::
  "ConnectionPayloadCharges on_ledger \<Rightarrow> unit app \<times> ConnectionPayloadCharges on_ledger" where
  "release_all st =
    try_bind (release_request st) (\<lambda>_ st.
    try_bind (on_field ch_upstream (\<lambda>s ch. ch\<lparr>ch_upstream := s\<rparr>) slot_release st) (\<lambda>_ st.
    try_bind (on_field ch_retry_replay (\<lambda>s ch. ch\<lparr>ch_retry_replay := s\<rparr>) slot_release st) (\<lambda>_ st.
    try_bind (on_field ch_client_response (\<lambda>s ch. ch\<lparr>ch_client_response := s\<rparr>) slot_release st) (\<lambda>_ st.
    try_bind (on_field ch_tls_pending (\<lambda>s ch. ch\<lparr>ch_tls_pending := s\<rparr>) slot_release st) (\<lambda>_ st.
    try_bind (on_field ch_websocket_client_to_upstream
      (\<lambda>s ch. ch\<lparr>ch_websocket_client_to_upstream := s\<rparr>) slot_release st) (\<lambda>_ st.
    on_field ch_websocket_upstream_to_client
      (\<lambda>s ch. ch\<lparr>ch_websocket_upstream_to_client := s\<rparr>) slot_release st))))))"

text \<open>
  The replacement of the upstream charge by a retry, as \<^verbatim>\<open>retry_upstream\<close> composes it: reserve
  the planned length; when building the request fails (\<open>built = None\<close>) give the reservation
  back; otherwise, unless the connection refuses the retry (\<open>retry_ok\<close>), commit the actual
  length, and after any failure release a replacement that is not installed but still live.
\<close>

definition replace_upstream_charge ::
  "nat \<Rightarrow> nat \<Rightarrow> nat option \<Rightarrow> bool \<Rightarrow> ConnectionPayloadCharges on_ledger
    \<Rightarrow> unit app \<times> ConnectionPayloadCharges on_ledger" where
  "replace_upstream_charge conn planned built retry_ok st =
    try_bind (reserve_upstream_replacement conn planned st) (\<lambda>replacement st.
      case built of
        None \<Rightarrow> release_upstream_replacement_after_allocation_failure replacement st
      | Some actual \<Rightarrow>
          (let refused = Err (app_error (Runtime RuntimeCommandRejected)
                           ''invalid upstream attempt transition'')
           in case (if retry_ok then commit_upstream_replacement replacement actual st
                    else (refused, st)) of
             (Ok _, st) \<Rightarrow> (Ok (), st)
           | (Err e, (ch, l)) \<Rightarrow>
               if ch_upstream ch \<noteq> Some replacement \<and> charges l replacement \<noteq> None
               then (Err e, (ch, snd (release_current replacement l)))
               else (Err e, (ch, l))))"

section \<open>Handing charges over\<close>

text \<open>
  \<open>handover l S l' S'\<close>: a step from \<open>l\<close> to \<open>l'\<close> by an owner of the charges \<open>S\<close>, who owns
  \<open>S'\<close> afterwards. Everything it does not own stays live with the same bytes.
\<close>

definition handover ::
  "PayloadBudgetLedger \<Rightarrow> nat set \<Rightarrow> PayloadBudgetLedger \<Rightarrow> nat set \<Rightarrow> bool" where
  "handover l S l' S' \<longleftrightarrow>
    ledger_inv l' \<and> S' \<subseteq> dom (live_bytes l') \<and>
    dom (live_bytes l') - S' = dom (live_bytes l) - S \<and>
    (\<forall>j \<in> dom (live_bytes l) - S. live_bytes l' j = live_bytes l j)"

lemma handover_trans: "handover a S b T \<Longrightarrow> handover b T c U \<Longrightarrow> handover a S c U"
  unfolding handover_def by (metis (no_types, lifting))

lemma handover_frame:
  assumes "handover l S l' S'" "R \<subseteq> dom (live_bytes l)" "R \<inter> S = {}"
  shows "handover l (R \<union> S) l' (R \<union> S')" "R \<inter> S' = {}"
proof -
  have "R \<subseteq> dom (live_bytes l') - S'" using assms unfolding handover_def by blast
  then show "R \<inter> S' = {}" by blast
  from \<open>R \<subseteq> dom (live_bytes l') - S'\<close> show "handover l (R \<union> S) l' (R \<union> S')"
    using assms(1) unfolding handover_def by (auto 0 3)
qed

lemma handover_same: "ledger_inv l \<Longrightarrow> S \<subseteq> dom (live_bytes l) \<Longrightarrow> same_books l l' \<Longrightarrow> handover l S l' S"
  by (simp add: handover_def same_books_inv same_books_live)

lemma handover_id: "ledger_inv l \<Longrightarrow> S \<subseteq> dom (live_bytes l) \<Longrightarrow> handover l S l S"
  by (simp add: handover_def)

lemma handover_inv: "handover l S l' S' \<Longrightarrow> ledger_inv l' \<and> S' \<subseteq> dom (live_bytes l')"
  by (simp add: handover_def)

lemma handover_fail:
  "ledger_inv l \<Longrightarrow> S \<subseteq> dom (live_bytes l) \<Longrightarrow> fail_accounting m l = (r, l') \<Longrightarrow> handover l S l' S"
  by (rule handover_same) (auto dest: fail_accounting_same_books)

lemma handover_reserve_Ok:
  assumes "ledger_inv l" "reserve conn cls n gen l = (Ok i, l')"
  shows "handover l {} l' {i}"
  using reserve_live[OF assms] reserve_inv[OF assms]
  by (auto simp: handover_def split: if_splits)

lemma handover_reserve_Err:
  "ledger_inv l \<Longrightarrow> reserve conn cls n gen l = (Err e, l') \<Longrightarrow> handover l {} l' {}"
  by (rule handover_same) (auto dest: reserve_Err)

lemma handover_set:
  assumes "ledger_inv l'" "live_bytes l i \<noteq> None" "live_bytes l' = (live_bytes l)(i \<mapsto> n)"
  shows "handover l {i} l' {i}"
  using assms by (auto simp: handover_def split: if_splits)

lemma handover_resize:
  assumes "ledger_inv l" "live_bytes l i \<noteq> None" "resize i n gen l = (r, l')"
  shows "handover l {i} l' {i}"
proof (cases r)
  case (Ok u)
  then show ?thesis
    using assms resize_Ok(3)[of i n gen l u l'] resize_inv[OF assms(1,3)]
    by (intro handover_set) auto
next
  case (Err e)
  then show ?thesis using assms resize_Err[of i n gen l e l'] by (intro handover_same) auto
qed

lemma handover_commit:
  assumes "ledger_inv l" "live_bytes l i \<noteq> None" "commit i n gen l = (r, l')"
  shows "handover l {i} l' {i}"
proof (cases r)
  case (Ok u)
  then show ?thesis
    using assms commit_Ok(3)[of l i n gen u l'] commit_inv[OF assms(1,3)]
    by (intro handover_set) auto
next
  case (Err e)
  then show ?thesis using assms commit_Err[of i n gen l e l'] by (intro handover_same) auto
qed

lemma handover_grow:
  assumes "ledger_inv l" "live_bytes l i \<noteq> None" "grow i n gen l = (r, l')"
  shows "handover l {i} l' {i}"
proof (cases r)
  case (Ok u)
  show ?thesis
    using grow_Ok[OF assms(3)[unfolded Ok]] assms(1,2) handover_resize[of l i]
    by (auto intro!: handover_id)
next
  case (Err e)
  then show ?thesis using assms grow_Err[of i n gen l e l'] by (intro handover_same) auto
qed

lemma handover_remove:
  assumes "ledger_inv l" "remove_live_charge i gen st l = (Ok c, l')"
  shows "handover l {i} l' {}"
  using remove_live_charge_Ok[OF assms] by (auto simp: handover_def split: if_splits)

lemma handover_release_Ok:
  "ledger_inv l \<Longrightarrow> release i gen l = (Ok u, l') \<Longrightarrow> handover l {i} l' {}"
  "ledger_inv l \<Longrightarrow> release_after_allocation_failure i gen l = (Ok u, l') \<Longrightarrow> handover l {i} l' {}"
  unfolding release_Ok_iff release_after_allocation_failure_Ok_iff by (blast dest: handover_remove)+

lemma release_not_Err:
  assumes "ledger_inv l" "live_bytes l i \<noteq> None"
  shows "release i (generation l) l \<noteq> (Err e, l')"
    "release_after_allocation_failure i (generation l) l \<noteq> (Err e, l')"
proof -
  obtain n where n: "live_bytes l i = Some n" using assms(2) by auto
  show "release i (generation l) l \<noteq> (Err e, l')"
    using remove_live_charge_succeeds[OF assms(1) n, of Released] by (auto simp: release_def)
  show "release_after_allocation_failure i (generation l) l \<noteq> (Err e, l')"
    using remove_live_charge_succeeds[OF assms(1) n, of AllocationFailed]
    by (auto simp: release_after_allocation_failure_def)
qed

lemma with_ledger_eq: "with_ledger s f = (r, (s', l')) \<longleftrightarrow> s' = s \<and> f = (r, l')"
  by (cases f) auto

lemma dom_live_iff: "{i} \<subseteq> dom (live_bytes l) \<longleftrightarrow> live_bytes l i \<noteq> None"
  by auto

lemma same_generation:
  "reserve conn cls n gen l = (r, l') \<Longrightarrow> generation l' = generation l"
  "commit i n gen l = (r', l') \<Longrightarrow> generation l' = generation l"
  using ledger_apply_frame[of l "OpReserve conn cls n gen"] ledger_apply_frame[of l "OpCommit i n gen"]
  by (simp_all add: same_frame_def)

lemma slot_release_handover:
  assumes "ledger_inv l" "set_option s \<subseteq> dom (live_bytes l)" "slot_release (s, l) = (r, (s', l'))"
  shows "r = Ok () \<and> s' = None \<and> handover l (set_option s) l' {}"
proof (cases s)
  case None
  then show ?thesis using assms handover_id[of l "{}"] by simp
next
  case (Some i)
  then have i: "live_bytes l i \<noteq> None" using assms(2) by auto
  obtain l1 where "release i (generation l) l = (Ok (), l1)"
    using release_not_Err(1)[OF assms(1) i]
    by (cases "release i (generation l) l"; cases "fst (release i (generation l) l)") auto
  then show ?thesis
    using assms(3) handover_release_Ok(1)[OF assms(1)] unfolding Some
    by (auto simp: release_current_def)
qed

lemma commit_after_reserve:
  assumes "ledger_inv l" "reserve conn cls n gen l = (Ok i, l')"
  shows "\<exists>l''. commit i n gen l' = (Ok (), l'')"
proof -
  note r = reserve_Ok[OF assms(2)]
  have inv': "ledger_inv l'" using reserve_inv[OF assms] .
  have c: "charges l' i = Some \<lparr>charge_id = i, charge_connection_id = conn, charge_class = cls,
      charged_bytes = n, charge_generation = gen, charge_state = Granted\<rparr>"
    and gen: "gen = generation l'" and used: "used_bytes l' = used_bytes l + n"
      "limit_bytes l' = limit_bytes l"
    using r(2) unfolding r(6) by simp_all
  have "used_bytes l + n \<le> usize_max" using r(4) ledger_inv_used_small[OF assms(1)] by linarith
  then have "\<exists>l2 c2. replace_charge_bytes i n l' = (Ok (), l2) \<and> charges l2 i = Some c2"
    using r(3,4) c used by (simp add: replace_charge_bytes_def checked_sub_def checked_add_def)
  then show ?thesis
    using c live_charge_iff[OF inv', of i] unfolding commit_def gen by auto
qed

lemma slot_bytes_live: "live_bytes l i \<noteq> None \<Longrightarrow> slot_bytes l (Some i) = the (live_bytes l i)"
  by (auto simp: slot_bytes_def live_bytes_def split: option.splits)

lemma slot_sync_install:
  assumes "ledger_inv l" "n \<noteq> 0" "slot_sync cls conn n (None, l) = (r, (s', l'))"
  shows "(\<exists>e. r = Err e \<and> s' = None \<and> live_bytes l' = live_bytes l \<and> handover l {} l' {}) \<or>
    (\<exists>i. r = Ok True \<and> s' = Some i \<and> slot_bytes l' s' = n \<and> handover l {} l' {i})"
proof (cases "fst (reserve conn cls n (generation l) l)")
  case (Err e)
  then obtain l1 where res: "reserve conn cls n (generation l) l = (Err e, l1)"
    by (metis prod.collapse)
  then show ?thesis
    using assms handover_reserve_Err[OF assms(1) res] same_books_live[OF reserve_Err[OF res]]
    by (auto simp: slot_sync_def slot_bytes_def)
next
  case (Ok i)
  then obtain l1 where res: "reserve conn cls n (generation l) l = (Ok i, l1)"
    by (metis prod.collapse)
  then obtain l2 where com: "commit i n (generation l) l1 = (Ok (), l2)"
    using commit_after_reserve[OF assms(1)] by blast
  have inv1: "ledger_inv l1" and live1: "live_bytes l1 i \<noteq> None"
    using reserve_inv[OF assms(1) res] reserve_live(2)[OF assms(1) res] by simp_all
  have "handover l {} l2 {i}"
    using handover_trans[OF handover_reserve_Ok[OF assms(1) res] handover_commit[OF inv1 live1 com]] .
  moreover have "slot_bytes l2 (Some i) = n"
    using commit_Ok(3)[OF inv1 com] slot_bytes_live[of l2 i] by simp
  ultimately show ?thesis
    using assms(2,3) res com by (auto simp: slot_sync_def slot_bytes_def)
qed

lemma slot_sync_handover:
  assumes "ledger_inv l" "set_option s \<subseteq> dom (live_bytes l)"
    "slot_sync cls conn n (s, l) = (r, (s', l'))"
  shows "handover l (set_option s) l' (set_option s') \<and>
    (case r of
       Ok changed \<Rightarrow> slot_bytes l' s' = n \<and> (changed \<longleftrightarrow> slot_bytes l s \<noteq> n)
     | Err e \<Rightarrow> s' = s \<and> live_bytes l' = live_bytes l)"
proof -
  consider "slot_bytes l s = n" | "slot_bytes l s \<noteq> n" "n = 0"
    | i where "slot_bytes l s \<noteq> n" "n \<noteq> 0" "s = Some i"
    | "slot_bytes l s \<noteq> n" "n \<noteq> 0" "s = None" by (cases s) auto
  then show ?thesis
  proof cases
    case 1
    then show ?thesis using assms handover_id[OF assms(1,2)] by (auto simp: slot_sync_def)
  next
    case 2
    obtain r1 s1 l1 where rel: "slot_release (s, l) = (r1, (s1, l1))"
      by (cases "slot_release (s, l)") auto
    then show ?thesis
      using 2 assms(3) slot_release_handover[OF assms(1,2) rel]
      by (auto simp: slot_sync_def slot_bytes_def)
  next
    case 3
    then have i: "live_bytes l i \<noteq> None" using assms(2) by auto
    have rs: "resize i n (generation l) l = (Ok (), l') \<and> r = Ok True \<and> s' = s \<or>
        (\<exists>e. resize i n (generation l) l = (Err e, l') \<and> r = Err e \<and> s' = s)"
      using 3 assms(3)
      by (auto simp: slot_sync_def resize_current_def with_ledger_eq split: try_bind_splits)
    then have "handover l {i} l' {i}" using handover_resize[OF assms(1) i] by blast
    then show ?thesis
      using rs 3 resize_Ok(3)[of i n "generation l" l "()" l'] same_books_live[OF resize_Err]
        slot_bytes_live[of l' i]
      by auto
  next
    case 4
    then show ?thesis
      using slot_sync_install[OF assms(1) 4(2) assms(3)[unfolded 4(3)]]
      by (auto simp: slot_bytes_def)
  qed
qed

lemma request_grow_handover:
  assumes "ledger_inv l" "set_option s \<subseteq> dom (live_bytes l)" "request_grow conn n (s, l) = (r, (s', l'))"
  shows "handover l (set_option s) l' (set_option s')"
proof (cases s)
  case (Some i)
  then have "n = 0 \<and> l' = l \<and> s' = s \<or> grow i n (generation l) l = (r, l') \<and> s' = s"
    using assms(3) by (auto simp: request_grow_def with_ledger_eq split: if_splits)
  then show ?thesis
    using Some assms(1,2) handover_grow[OF assms(1)] handover_id[OF assms(1,2)] by auto
next
  case None
  then show ?thesis
    using assms handover_id[OF assms(1), of "{}"] handover_reserve_Ok[OF assms(1)]
      handover_reserve_Err[OF assms(1)]
    by (auto simp: request_grow_def with_ledger_eq split: if_splits try_bind_splits)
qed

lemma response_resize_in_use_handover:
  assumes "ledger_inv l" "set_option s \<subseteq> dom (live_bytes l)"
    "response_resize_in_use n (s, l) = (r, (s', l'))"
  shows "handover l (set_option s) l' (set_option s')"
proof (cases s)
  case None
  then show ?thesis
    using assms handover_fail[OF assms(1), of "{}"]
    by (auto simp: response_resize_in_use_def with_ledger_eq)
next
  case (Some i)
  then have i: "live_bytes l i \<noteq> None" using assms(2) by auto
  show ?thesis
  proof (cases "n = 0")
    case True
    then show ?thesis
      using assms(3) Some release_not_Err(1)[OF assms(1) i] handover_release_Ok(1)[OF assms(1)]
      by (auto simp: response_resize_in_use_def release_current_def with_ledger_eq
          split: try_bind_splits)
  next
    case False
    then show ?thesis
      using assms(3) Some handover_resize[OF assms(1) i]
      by (auto simp: response_resize_in_use_def resize_current_def with_ledger_eq)
  qed
qed

lemma response_prepare_handover:
  assumes "ledger_inv l" "set_option s \<subseteq> dom (live_bytes l)"
    "response_prepare conn n (s, l) = (r, (s', l'))"
  shows "handover l (set_option s) l' (set_option s')"
proof (cases s)
  case None
  then show ?thesis
    using assms handover_reserve_Ok[OF assms(1)] handover_reserve_Err[OF assms(1)]
    by (auto simp: response_prepare_def acquire_for_def with_ledger_eq split: try_bind_splits)
next
  case (Some i)
  then have "live_bytes l i \<noteq> None" using assms(2) by auto
  then show ?thesis
    using assms(3) Some handover_resize[OF assms(1)] handover_id[OF assms(1,2)]
    by (auto simp: response_prepare_def resize_current_def with_ledger_eq
        split: try_bind_splits option.splits)
qed

lemma response_commit_handover:
  assumes "ledger_inv l" "set_option s \<subseteq> dom (live_bytes l)" "response_commit c (s, l) = (r, (s', l'))"
  shows "handover l (set_option s) l' (set_option s') \<and> s' = s"
  using assms handover_fail[OF assms(1,2)] handover_commit[OF assms(1)] handover_id[OF assms(1,2)]
  by (auto simp: response_commit_def with_ledger_eq split: if_splits)

lemma response_rollback_handover:
  assumes "ledger_inv l" "set_option s \<subseteq> dom (live_bytes l)" "response_rollback c (s, l) = (r, (s', l'))"
  shows "handover l (set_option s) l' (set_option s')"
proof (cases "s = Some (change_charge_id c)")
  case False
  then show ?thesis
    using assms handover_fail[OF assms(1,2)] by (auto simp: response_rollback_def with_ledger_eq)
next
  case True
  then have i: "live_bytes l (change_charge_id c) \<noteq> None" using assms(2) by auto
  obtain r1 l1 where rel: "release_after_allocation_failure (change_charge_id c) (generation l) l = (r1, l1)"
    by (cases "release_after_allocation_failure (change_charge_id c) (generation l) l") auto
  then have "r1 = Ok ()" using release_not_Err(2)[OF assms(1) i, of _ l1] by (cases r1) auto
  then show ?thesis
    using assms(3) True rel handover_resize[OF assms(1) i] handover_release_Ok(2)[OF assms(1)]
    by (auto simp: response_rollback_def with_ledger_eq resize_current_def
        fail_allocation_current_def split: option.splits try_bind_splits)
qed

abbreviation pair_ids :: "slot_pair \<Rightarrow> nat set" where
  "pair_ids p \<equiv> set_option (fst p) \<union> set_option (snd p)"

definition pair_distinct :: "slot_pair \<Rightarrow> bool" where
  "pair_distinct p \<longleftrightarrow> set_option (fst p) \<inter> set_option (snd p) = {}"

lemma handover_insert:
  assumes "handover l S l' S'" "i \<in> dom (live_bytes l)" "i \<notin> S"
  shows "handover l (insert i S) l' (insert i S')" "i \<notin> S'"
  using handover_frame[OF assms(1), of "{i}"] assms(2,3) by auto

lemma reserve_beside:
  assumes "ledger_inv l" "i \<in> dom (live_bytes l)" "reserve conn cls n gen l = (r, l')"
  shows "(\<exists>j. r = Ok j \<and> i \<noteq> j \<and> handover l {i} l' {i, j}) \<or>
    (\<exists>e. r = Err e \<and> handover l {i} l' {i} \<and> live_bytes l' = live_bytes l)"
proof (cases r)
  case (Ok j)
  then show ?thesis
    using handover_insert[OF handover_reserve_Ok[OF assms(1) assms(3)[unfolded Ok]] assms(2)] by auto
next
  case (Err e)
  then show ?thesis
    using handover_insert[OF handover_reserve_Err[OF assms(1) assms(3)[unfolded Err]] assms(2)]
      same_books_live[OF reserve_Err[OF assms(3)[unfolded Err]]] by auto
qed

lemma release_owned:
  assumes "ledger_inv l" "i \<in> dom (live_bytes l)"
  obtains l' where "release i (generation l) l = (Ok (), l')" "handover l {i} l' {}"
    "live_bytes l' = (live_bytes l)(i := None)"
proof -
  have "live_bytes l i \<noteq> None" using assms(2) by auto
  then obtain l' where "release i (generation l) l = (Ok (), l')"
    using release_not_Err(1)[OF assms(1)]
    by (cases "release i (generation l) l"; cases "fst (release i (generation l) l)") auto
  then show ?thesis using that handover_release_Ok(1)[OF assms(1)] release_live(1)[OF assms(1)] by blast
qed

lemma pair_reserve_fresh:
  assumes "ledger_inv l" "pair_reserve conn u n ((None, None), l) = (r, (p', l'))"
  shows "handover l {} l' (pair_ids p') \<and> pair_distinct p' \<and>
    (r \<noteq> Ok () \<longrightarrow> p' = (None, None) \<and> live_bytes l' = live_bytes l)"
proof (cases "reserve conn UpstreamRequest u (generation l) l")
  case (Pair r1 l1)
  note eq = assms(2)[unfolded pair_reserve_def, simplified]
  show ?thesis
  proof (cases r1)
    case (Err e)
    then show ?thesis
      using eq Pair handover_reserve_Err[OF assms(1)] same_books_live[OF reserve_Err]
      by (auto simp: pair_distinct_def)
  next
    case (Ok i)
    then have r1: "reserve conn UpstreamRequest u (generation l) l = (Ok i, l1)" using Pair by simp
    note h1 = handover_reserve_Ok[OF assms(1) r1]
    have inv1: "ledger_inv l1" and i: "i \<in> dom (live_bytes l1)" using handover_inv[OF h1] by auto
    obtain r2 l2 where r2: "reserve conn RetryReplay n (generation l) l1 = (r2, l2)"
      by (cases "reserve conn RetryReplay n (generation l) l1") auto
    have g2: "generation l2 = generation l" using same_generation(1)[OF r2] same_generation(1)[OF r1] by simp
    from reserve_beside[OF inv1 i r2] show ?thesis
    proof (elim disjE exE conjE)
      fix j assume "r2 = Ok j" "i \<noteq> j" "handover l1 {i} l2 {i, j}"
      then show ?thesis using eq r1 r2 handover_trans[OF h1, of l2 "{i, j}"]
        by (auto simp: pair_distinct_def insert_commute)
    next
      fix e assume e: "r2 = Err e" "handover l1 {i} l2 {i}" "live_bytes l2 = live_bytes l1"
      then obtain l3 where l3: "release i (generation l2) l2 = (Ok (), l3)" "handover l2 {i} l3 {}"
          "live_bytes l3 = (live_bytes l2)(i := None)"
        using release_owned[of l2 i] handover_inv[OF e(2)] by auto
      then show ?thesis
        using eq r1 r2 e g2 handover_trans[OF h1 handover_trans[OF e(2) l3(2)]]
          reserve_live[OF assms(1) r1] by (auto simp: pair_distinct_def)
    qed
  qed
qed

lemma pair_reserve_handover:
  assumes "ledger_inv l" "pair_ids p \<subseteq> dom (live_bytes l)" "pair_reserve conn u n (p, l) = (r, (p', l'))"
  shows "handover l (pair_ids p) l' (pair_ids p') \<and> (pair_distinct p \<longrightarrow> pair_distinct p') \<and>
    (r \<noteq> Ok () \<longrightarrow> p' = p \<and> live_bytes l' = live_bytes l)"
proof (cases "p = (None, None)")
  case False
  then have "fail_accounting ''upstream payload charges are already installed'' l = (r, l')" "p' = p"
    using assms(3) by (auto simp: pair_reserve_def with_ledger_eq split: prod.splits if_splits)
  then show ?thesis
    using handover_fail[OF assms(1,2)] same_books_live[OF fail_accounting_same_books]
    by (auto simp: fail_accounting_def)
next
  case True
  then show ?thesis using pair_reserve_fresh[OF assms(1)] assms(3) by auto
qed

lemma pair_commit_handover:
  assumes "ledger_inv l" "pair_ids p \<subseteq> dom (live_bytes l)" "pair_distinct p"
    "pair_commit u n (p, l) = (r, (p', l'))"
  shows "handover l (pair_ids p) l' (pair_ids p') \<and> p' = p"
proof (cases "\<exists>i j. p = (Some i, Some j)")
  case False
  then show ?thesis
    using assms handover_fail[OF assms(1,2)]
    by (cases p; cases "fst p"; cases "snd p") (auto simp: pair_commit_def with_ledger_eq)
next
  case True
  then obtain i j where p: "p = (Some i, Some j)" by blast
  have ij: "live_bytes l i \<noteq> None" "live_bytes l j \<noteq> None" "i \<noteq> j"
    using assms(2,3) p by (auto simp: pair_distinct_def)
  obtain r1 l1 where c1: "commit i u (generation l) l = (r1, l1)"
    by (cases "commit i u (generation l) l") auto
  have h1: "handover l {i, j} l1 {i, j}"
    using handover_insert(1)[OF handover_commit[OF assms(1) ij(1) c1], of j] ij
    by (auto simp: insert_commute)
  have "p' = p" and cases: "(\<exists>e. r1 = Err e \<and> l' = l1) \<or> commit j n (generation l) l1 = (r, l')"
    using assms(4) p c1 by (auto simp: pair_commit_def with_ledger_eq split: try_bind_splits)
  have inv1: "ledger_inv l1" "live_bytes l1 j \<noteq> None" "live_bytes l1 i \<noteq> None"
    using handover_inv[OF h1] by auto
  have "handover l1 {i, j} l' {i, j}" if "commit j n (generation l) l1 = (r, l')"
    using handover_insert(1)[OF handover_commit[OF inv1(1,2) that], of i] inv1 ij by auto
  then show ?thesis using cases h1 handover_trans[OF h1] \<open>p' = p\<close> p by (auto simp: insert_commute)
qed

lemma release_owned_failed:
  assumes "ledger_inv l" "i \<in> dom (live_bytes l)"
  obtains l' where "release_after_allocation_failure i (generation l) l = (Ok (), l')"
    "handover l {i} l' {}" "live_bytes l' = (live_bytes l)(i := None)" "generation l' = generation l"
proof -
  have "live_bytes l i \<noteq> None" using assms(2) by auto
  then obtain l' where "release_after_allocation_failure i (generation l) l = (Ok (), l')"
    using release_not_Err(2)[OF assms(1)]
    by (cases "release_after_allocation_failure i (generation l) l";
        cases "fst (release_after_allocation_failure i (generation l) l)") auto
  moreover from this have "generation l' = generation l"
    using ledger_apply_frame[of l "OpReleaseAfterAllocationFailure i (generation l)"]
    by (simp add: same_frame_def)
  ultimately show ?thesis
    using that handover_release_Ok(2)[OF assms(1)] release_live(2)[OF assms(1)] by blast
qed

lemma pair_release_handover:
  assumes "ledger_inv l" "pair_ids p \<subseteq> dom (live_bytes l)" "pair_distinct p"
    "pair_release_after_allocation_failure (p, l) = (r, (p', l'))"
  shows "handover l (pair_ids p) l' {} \<and> p' = (None, None) \<and> r = Ok ()"
proof -
  obtain up re where p: "p = (up, re)" by (cases p)
  have "\<exists>l1. try_bind (Ok (), (p, l)) (\<lambda>_ st. case up of
        None \<Rightarrow> (Ok (), st)
      | Some u \<Rightarrow> try_bind (with_ledger (up, re) (release_after_allocation_failure u (generation l) l))
          (\<lambda>_ (_, l). (Ok (), ((None, re), l)))) = (Ok (), ((None, re), l1)) \<and>
      handover l (pair_ids p) l1 (set_option re) \<and> generation l1 = generation l"
  proof (cases up)
    case None
    then show ?thesis using p handover_id[OF assms(1,2)] by simp
  next
    case (Some u)
    then have u: "u \<in> dom (live_bytes l)" using assms(2) p by auto
    obtain l1 where "release_after_allocation_failure u (generation l) l = (Ok (), l1)"
        "handover l {u} l1 {}" "live_bytes l1 = (live_bytes l)(u := None)" "generation l1 = generation l"
      by (rule release_owned_failed[OF assms(1) u])
    then show ?thesis
      using p Some assms(2,3) handover_frame(1)[of l "{u}" l1 "{}" "set_option re"]
      by (auto simp: pair_distinct_def)
  qed
  then obtain l1 where l1: "handover l (pair_ids p) l1 (set_option re)" "generation l1 = generation l"
    and eq: "(r, (p', l')) = (case re of
             None \<Rightarrow> (Ok (), ((None, re), l1))
           | Some v \<Rightarrow>
               try_bind (with_ledger (None, re) (release v (generation l) l1))
                 (\<lambda>_ (_, l). (Ok (), ((None, None), l))))"
    using assms(4) p by (auto simp: pair_release_after_allocation_failure_def split: option.splits)
  show ?thesis
  proof (cases re)
    case None
    then show ?thesis using l1 eq by simp
  next
    case (Some v)
    then have v: "ledger_inv l1" "v \<in> dom (live_bytes l1)" using handover_inv[OF l1(1)] by auto
    obtain l2 where "release v (generation l1) l1 = (Ok (), l2)" "handover l1 {v} l2 {}"
        "live_bytes l2 = (live_bytes l1)(v := None)"
      by (rule release_owned[OF v])
    then show ?thesis using l1 eq Some handover_trans[OF l1(1)] by auto
  qed
qed

section \<open>All slots of a connection\<close>

definition slots :: "ConnectionPayloadCharges \<Rightarrow> nat option list" where
  "slots ch = [ch_request ch, ch_upstream ch, ch_retry_replay ch, ch_client_response ch,
     ch_tls_pending ch, ch_websocket_client_to_upstream ch, ch_websocket_upstream_to_client ch]"

fun ids_of :: "nat option list \<Rightarrow> nat list" where
  "ids_of [] = []"
| "ids_of (None # xs) = ids_of xs"
| "ids_of (Some i # xs) = i # ids_of xs"

definition charge_ids :: "ConnectionPayloadCharges \<Rightarrow> nat list" where
  "charge_ids ch = ids_of (slots ch)"

definition owns :: "PayloadBudgetLedger \<Rightarrow> ConnectionPayloadCharges \<Rightarrow> bool" where
  "owns l ch \<longleftrightarrow> ledger_inv l \<and> set (charge_ids ch) \<subseteq> dom (live_bytes l) \<and> distinct (charge_ids ch)"

definition exchange ::
  "PayloadBudgetLedger \<Rightarrow> ConnectionPayloadCharges \<Rightarrow> PayloadBudgetLedger
    \<Rightarrow> ConnectionPayloadCharges \<Rightarrow> bool" where
  "exchange l ch l' ch' \<longleftrightarrow>
    handover l (set (charge_ids ch)) l' (set (charge_ids ch')) \<and> distinct (charge_ids ch')"

lemma ids_of_append [simp]: "ids_of (xs @ ys) = ids_of xs @ ids_of ys"
  by (induction xs rule: ids_of.induct) auto

lemma ids_of_set_option: "set (ids_of [s]) = set_option s"
  by (cases s) auto

lemma exchange_owns: "exchange l ch l' ch' \<Longrightarrow> owns l' ch'"
  by (auto simp: exchange_def owns_def dest: handover_inv)

lemma exchange_refl: "owns l ch \<Longrightarrow> exchange l ch l ch"
  by (simp add: exchange_def owns_def handover_id)

lemma exchange_trans: "exchange a x b y \<Longrightarrow> exchange b y c z \<Longrightarrow> exchange a x c z"
  unfolding exchange_def using handover_trans by blast

lemma ids_exchange:
  assumes "distinct (ids_of (a @ s @ b))" "set (ids_of (a @ s @ b)) \<subseteq> dom (live_bytes l)"
    "handover l (set (ids_of s)) l' (set (ids_of s'))" "distinct (ids_of s')"
  shows "handover l (set (ids_of (a @ s @ b))) l' (set (ids_of (a @ s' @ b))) \<and>
    distinct (ids_of (a @ s' @ b))"
proof -
  let ?R = "set (ids_of a) \<union> set (ids_of b)"
  have "?R \<subseteq> dom (live_bytes l)" "?R \<inter> set (ids_of s) = {}" using assms(1,2) by auto
  from handover_frame[OF assms(3) this] show ?thesis
    using assms(1,4) by (auto simp: Un_ac)
qed

definition slot_field ::
  "(ConnectionPayloadCharges \<Rightarrow> 's) \<Rightarrow> ('s \<Rightarrow> ConnectionPayloadCharges \<Rightarrow> ConnectionPayloadCharges)
    \<Rightarrow> ('s \<Rightarrow> nat option list) \<Rightarrow> nat \<Rightarrow> bool" where
  "slot_field get put view k \<longleftrightarrow>
    (\<forall>ch. slots ch = take k (slots ch) @ view (get ch) @ drop (k + length (view (get ch))) (slots ch) \<and>
      (\<forall>s. slots (put s ch) =
        take k (slots ch) @ view s @ drop (k + length (view (get ch))) (slots ch)))"

abbreviation one :: "nat option \<Rightarrow> nat option list" where
  "one s \<equiv> [s]"

abbreviation both :: "slot_pair \<Rightarrow> nat option list" where
  "both p \<equiv> [fst p, snd p]"

lemma slot_fields:
  "slot_field ch_request (\<lambda>s ch. ch\<lparr>ch_request := s\<rparr>) one 0"
  "slot_field ch_upstream (\<lambda>s ch. ch\<lparr>ch_upstream := s\<rparr>) one 1"
  "slot_field ch_retry_replay (\<lambda>s ch. ch\<lparr>ch_retry_replay := s\<rparr>) one 2"
  "slot_field ch_client_response (\<lambda>s ch. ch\<lparr>ch_client_response := s\<rparr>) one 3"
  "slot_field ch_tls_pending (\<lambda>s ch. ch\<lparr>ch_tls_pending := s\<rparr>) one 4"
  "slot_field ch_websocket_client_to_upstream (\<lambda>s ch. ch\<lparr>ch_websocket_client_to_upstream := s\<rparr>) one 5"
  "slot_field ch_websocket_upstream_to_client (\<lambda>s ch. ch\<lparr>ch_websocket_upstream_to_client := s\<rparr>) one 6"
  "slot_field get_pair put_pair both 1"
  by (simp_all add: slot_field_def slots_def get_pair_def put_pair_def)

lemma on_field_exchange:
  assumes field: "slot_field get put view k" and own: "owns l ch"
    and step: "\<And>r s' l'. ledger_inv l \<Longrightarrow> set (ids_of (view (get ch))) \<subseteq> dom (live_bytes l) \<Longrightarrow>
      distinct (ids_of (view (get ch))) \<Longrightarrow> op (get ch, l) = (r, (s', l')) \<Longrightarrow>
      handover l (set (ids_of (view (get ch)))) l' (set (ids_of (view s'))) \<and> distinct (ids_of (view s'))"
    and run: "on_field get put op (ch, l) = (r, (ch', l'))"
  shows "exchange l ch l' ch'"
proof -
  obtain s' where s': "op (get ch, l) = (r, (s', l'))" "ch' = put s' ch"
    using run by (auto simp: on_field_def split: prod.splits)
  let ?a = "take k (slots ch)" and ?b = "drop (k + length (view (get ch))) (slots ch)"
  have eq: "slots ch = ?a @ view (get ch) @ ?b" "slots ch' = ?a @ view s' @ ?b"
    using field s'(2) unfolding slot_field_def by blast+
  have ids: "distinct (ids_of (?a @ view (get ch) @ ?b))"
      "set (ids_of (?a @ view (get ch) @ ?b)) \<subseteq> dom (live_bytes l)" "ledger_inv l"
    using own eq(1) by (simp_all add: owns_def charge_ids_def)
  have "handover l (set (ids_of (view (get ch)))) l' (set (ids_of (view s'))) \<and>
      distinct (ids_of (view s'))"
    using step[OF ids(3) _ _ s'(1)] ids by simp
  from ids_exchange[OF ids(1,2) this[THEN conjunct1] this[THEN conjunct2]] show ?thesis
    unfolding exchange_def charge_ids_def eq(2)[symmetric] eq(1)[symmetric] .
qed

lemma on_slot_exchange:
  assumes "slot_field get put one k" "owns l ch" "on_field get put op (ch, l) = (r, (ch', l'))"
    "\<And>r s' l'. ledger_inv l \<Longrightarrow> set_option (get ch) \<subseteq> dom (live_bytes l) \<Longrightarrow>
      op (get ch, l) = (r, (s', l')) \<Longrightarrow> handover l (set_option (get ch)) l' (set_option s')"
  shows "exchange l ch l' ch'"
proof (rule on_field_exchange[OF assms(1,2) _ assms(3)])
  fix r s' l'
  assume "ledger_inv l" "set (ids_of [get ch]) \<subseteq> dom (live_bytes l)" "op (get ch, l) = (r, s', l')"
  then show "handover l (set (ids_of [get ch])) l' (set (ids_of [s'])) \<and> distinct (ids_of [s'])"
    using assms(4) unfolding ids_of_set_option by (cases s') auto
qed

lemma both_ids:
  "set (ids_of (both p)) = pair_ids p" "distinct (ids_of (both p)) = pair_distinct p"
  by (cases p; cases "fst p"; cases "snd p"; auto simp: pair_distinct_def)+

lemma on_pair_exchange:
  assumes "owns l ch" "on_field get_pair put_pair op (ch, l) = (r, (ch', l'))"
    "\<And>r p' l'. ledger_inv l \<Longrightarrow> pair_ids (get_pair ch) \<subseteq> dom (live_bytes l) \<Longrightarrow>
      pair_distinct (get_pair ch) \<Longrightarrow> op (get_pair ch, l) = (r, (p', l')) \<Longrightarrow>
      handover l (pair_ids (get_pair ch)) l' (pair_ids p') \<and> pair_distinct p'"
  shows "exchange l ch l' ch'"
  using on_field_exchange[OF slot_fields(8) assms(1) _ assms(2)] assms(3) unfolding both_ids by blast

lemma slot_release_keeps:
  "ledger_inv l \<Longrightarrow> set_option s \<subseteq> dom (live_bytes l) \<Longrightarrow> slot_release (s, l) = (r, (s', l')) \<Longrightarrow>
    handover l (set_option s) l' (set_option s')"
  using slot_release_handover[of l s r s' l'] by auto

lemma grow_request_exchange:
  "owns l ch \<Longrightarrow> grow_request conn n (ch, l) = (r, (ch', l')) \<Longrightarrow> exchange l ch l' ch'"
  unfolding grow_request_def by (erule on_slot_exchange[OF slot_fields(1)]) (assumption, rule request_grow_handover)

lemma sync_tls_pending_exchange:
  "owns l ch \<Longrightarrow> sync_tls_pending conn n (ch, l) = (r, (ch', l')) \<Longrightarrow> exchange l ch l' ch'"
  unfolding sync_tls_pending_def by (erule on_slot_exchange[OF slot_fields(5)]) (assumption, rule slot_sync_handover[THEN conjunct1])

lemma sync_websocket_client_to_upstream_exchange:
  "owns l ch \<Longrightarrow> sync_websocket_client_to_upstream conn n (ch, l) = (r, (ch', l')) \<Longrightarrow> exchange l ch l' ch'"
  unfolding sync_websocket_client_to_upstream_def by (erule on_slot_exchange[OF slot_fields(6)]) (assumption, rule slot_sync_handover[THEN conjunct1])

lemma sync_websocket_upstream_to_client_exchange:
  "owns l ch \<Longrightarrow> sync_websocket_upstream_to_client conn n (ch, l) = (r, (ch', l')) \<Longrightarrow> exchange l ch l' ch'"
  unfolding sync_websocket_upstream_to_client_def by (erule on_slot_exchange[OF slot_fields(7)]) (assumption, rule slot_sync_handover[THEN conjunct1])

lemma resize_client_response_in_use_exchange:
  "owns l ch \<Longrightarrow> resize_client_response_in_use n (ch, l) = (r, (ch', l')) \<Longrightarrow> exchange l ch l' ch'"
  unfolding resize_client_response_in_use_def by (erule on_slot_exchange[OF slot_fields(4)]) (assumption, rule response_resize_in_use_handover)

lemma prepare_client_response_bytes_exchange:
  "owns l ch \<Longrightarrow> prepare_client_response_bytes conn n (ch, l) = (r, (ch', l')) \<Longrightarrow> exchange l ch l' ch'"
  unfolding prepare_client_response_bytes_def by (erule on_slot_exchange[OF slot_fields(4)]) (assumption, rule response_prepare_handover)

lemma commit_client_response_bytes_exchange:
  "owns l ch \<Longrightarrow> commit_client_response_bytes change (ch, l) = (r, (ch', l')) \<Longrightarrow> exchange l ch l' ch'"
  unfolding commit_client_response_bytes_def by (erule on_slot_exchange[OF slot_fields(4)]) (assumption, rule response_commit_handover[THEN conjunct1])

lemma rollback_client_response_allocation_exchange:
  "owns l ch \<Longrightarrow> rollback_client_response_allocation change (ch, l) = (r, (ch', l')) \<Longrightarrow> exchange l ch l' ch'"
  unfolding rollback_client_response_allocation_def by (erule on_slot_exchange[OF slot_fields(4)]) (assumption, rule response_rollback_handover)

lemma release_request_exchange:
  "owns l ch \<Longrightarrow> release_request (ch, l) = (r, (ch', l')) \<Longrightarrow> exchange l ch l' ch'"
  unfolding release_request_def by (erule on_slot_exchange[OF slot_fields(1)]) (assumption, rule slot_release_keeps)

lemma reserve_upstream_and_retry_exchange:
  "owns l ch \<Longrightarrow> reserve_upstream_and_retry conn u n (ch, l) = (r, (ch', l')) \<Longrightarrow> exchange l ch l' ch'"
  unfolding reserve_upstream_and_retry_def
  by (erule on_pair_exchange) (assumption, drule (2) pair_reserve_handover, auto simp: pair_distinct_def)

lemma commit_upstream_and_retry_exchange:
  "owns l ch \<Longrightarrow> commit_upstream_and_retry u n (ch, l) = (r, (ch', l')) \<Longrightarrow> exchange l ch l' ch'"
  unfolding commit_upstream_and_retry_def
  by (erule on_pair_exchange) (assumption, drule (3) pair_commit_handover, auto simp: pair_distinct_def)

lemma release_upstream_allocation_failure_exchange:
  "owns l ch \<Longrightarrow> release_upstream_allocation_failure (ch, l) = (r, (ch', l')) \<Longrightarrow> exchange l ch l' ch'"
  unfolding release_upstream_allocation_failure_def
  by (erule on_pair_exchange) (assumption, drule (3) pair_release_handover, auto simp: pair_distinct_def)

lemma upstream_in_ids: "ch_upstream ch = Some i \<Longrightarrow> i \<in> set (charge_ids ch)"
  by (cases "ch_request ch") (simp_all add: charge_ids_def slots_def)

lemma commit_upstream_replacement_result:
  assumes "owns l ch" "rep \<in> dom (live_bytes l)" "rep \<notin> set (charge_ids ch)"
    "commit_upstream_replacement rep n (ch, l) = (r, (ch', l'))"
  shows "(\<exists>cur. r = Ok () \<and> ch_upstream ch = Some cur \<and> ch' = ch\<lparr>ch_upstream := Some rep\<rparr> \<and>
      live_bytes l' = (live_bytes l)(rep \<mapsto> n, cur := None) \<and> ledger_inv l') \<or>
    (\<exists>e. r = Err e \<and> ch' = ch \<and> live_bytes l' = live_bytes l \<and> ledger_inv l')"
proof -
  have inv: "ledger_inv l" using assms(1) by (simp add: owns_def)
  have fail: "?thesis" if "fail_accounting m l = (r, l')" "ch' = ch" for m
    using that same_books_live[OF fail_accounting_same_books[OF that(1)]]
      same_books_inv[OF fail_accounting_same_books[OF that(1)]] inv
    by (auto simp: fail_accounting_def)
  show ?thesis
  proof (cases "ch_upstream ch")
    case None
    then show ?thesis using assms(4) fail by (auto simp: commit_upstream_replacement_def with_ledger_eq)
  next
    case (Some cur)
    from upstream_in_ids[OF this] have "cur \<noteq> rep" "cur \<in> dom (live_bytes l)" using assms(1,3) by (auto simp: owns_def)
    obtain c where c: "charges l rep = Some c" using assms(2) by (auto simp: live_bytes_def)
    obtain r1 l1 where com: "commit rep n (generation l) l = (r1, l1)"
      by (cases "commit rep n (generation l) l") auto
    have g: "generation l1 = generation l" using same_generation(2)[OF com] .
    show ?thesis
    proof (cases "charge_class c = UpstreamRequest")
      case False
      then show ?thesis
        using assms(4) fail Some c \<open>cur \<noteq> rep\<close>
        by (auto simp: commit_upstream_replacement_def with_ledger_eq)
    next
      case True
      show ?thesis
      proof (cases r1)
        case (Err e)
        then show ?thesis
          using assms(4) Some c \<open>cur \<noteq> rep\<close> True com commit_inv[OF inv com]
            same_books_live[OF commit_Err]
          by (auto simp: commit_upstream_replacement_def)
      next
        case (Ok u)
        note live1 = commit_Ok(3)[OF inv com[unfolded Ok]] and inv1 = commit_inv[OF inv com]
        have "cur \<in> dom (live_bytes l1)" using live1 \<open>cur \<in> dom (live_bytes l)\<close> by auto
        then obtain l2 where "release cur (generation l1) l1 = (Ok (), l2)" "handover l1 {cur} l2 {}"
            "live_bytes l2 = (live_bytes l1)(cur := None)"
          using release_owned[OF inv1] by metis
        then show ?thesis
          using assms(4) Some c \<open>cur \<noteq> rep\<close> True com Ok live1 g handover_inv
          by (auto simp: commit_upstream_replacement_def)
      qed
    qed
  qed
qed

lemma set_charge_ids_upstream:
  assumes "distinct (charge_ids ch)" "ch_upstream ch = Some cur" "rep \<notin> set (charge_ids ch)"
  shows "set (charge_ids (ch\<lparr>ch_upstream := Some rep\<rparr>)) = insert rep (set (charge_ids ch) - {cur})"
    "distinct (charge_ids (ch\<lparr>ch_upstream := Some rep\<rparr>))"
  using assms by (cases "ch_request ch"; auto simp: charge_ids_def slots_def)+

lemma exchange_give_back:
  assumes "owns l ch" "live_bytes l' = live_bytes l" "ledger_inv l'"
  shows "exchange l ch l' ch"
  using assms by (simp add: exchange_def handover_def owns_def)

lemma replace_upstream_charge_granted:
  assumes "owns l ch" "reserve conn UpstreamRequest n (generation l) l = (Ok rep, l1)"
  shows "owns l1 ch" "rep \<in> dom (live_bytes l1)" "rep \<notin> set (charge_ids ch)"
    "(live_bytes l1)(rep := None) = live_bytes l" "generation l1 = generation l"
proof -
  have inv: "ledger_inv l" using assms(1) by (simp add: owns_def)
  note live = reserve_live[OF inv assms(2)]
  show "owns l1 ch" "rep \<in> dom (live_bytes l1)" "rep \<notin> set (charge_ids ch)"
    using assms(1) live reserve_inv[OF inv assms(2)] by (auto simp: owns_def)
  show "(live_bytes l1)(rep := None) = live_bytes l" using live by auto
  show "generation l1 = generation l" using same_generation(1)[OF assms(2)] .
qed

lemma exchange_replacement:
  assumes "owns l ch" "rep \<notin> set (charge_ids ch)" "ch_upstream ch = Some cur" "ledger_inv l'"
    "live_bytes l' = (live_bytes l)(rep \<mapsto> n, cur := None)" "rep \<notin> dom (live_bytes l)"
  shows "exchange l ch l' (ch\<lparr>ch_upstream := Some rep\<rparr>)"
proof -
  have cur: "cur \<in> set (charge_ids ch)" using upstream_in_ids[OF assms(3)] .
  have d: "distinct (charge_ids ch)" and sub: "set (charge_ids ch) \<subseteq> dom (live_bytes l)"
    using assms(1) by (simp_all add: owns_def)
  show ?thesis
    unfolding exchange_def handover_def set_charge_ids_upstream(1)[OF d assms(3,2)]
    using set_charge_ids_upstream(2)[OF d assms(3,2)] assms(4-6) sub cur assms(2)
    by auto
qed

lemma replace_upstream_charge_commit:
  assumes "owns l ch" "reserve conn UpstreamRequest n (generation l) l = (Ok rep, l1)"
    "reserve_upstream_replacement conn n (ch, l) = (Ok rep, (ch, l1))"
    "replace_upstream_charge conn n (Some actual) retry_ok (ch, l) = (r, (ch', l'))"
  shows "exchange l ch l' ch' \<and> (r \<noteq> Ok () \<longrightarrow> ch' = ch \<and> live_bytes l' = live_bytes l)"
proof -
  note gr = replace_upstream_charge_granted[OF assms(1,2)]
  have inv1: "ledger_inv l1" using gr(1) by (simp add: owns_def)
  have up: "ch_upstream ch \<noteq> Some rep" using gr(3) upstream_in_ids by blast
  have clean: "exchange l ch (snd (release_current rep l2)) ch \<and>
      live_bytes (snd (release_current rep l2)) = live_bytes l \<and> charges l2 rep \<noteq> None"
    if fact: "live_bytes l2 = live_bytes l1" "ledger_inv l2" for l2
  proof -
    have "rep \<in> dom (live_bytes l2)" using fact(1) gr(2) by simp
    then obtain l3 where l3: "release rep (generation l2) l2 = (Ok (), l3)" "handover l2 {rep} l3 {}"
        "live_bytes l3 = (live_bytes l2)(rep := None)"
      using release_owned[OF fact(2)] by metis
    then have "exchange l ch l3 ch"
      using gr(4) fact(1) handover_inv[OF l3(2)] by (intro exchange_give_back[OF assms(1)]) auto
    moreover have "charges l2 rep \<noteq> None"
      using \<open>rep \<in> dom (live_bytes l2)\<close> by (auto simp: live_bytes_def)
    ultimately show ?thesis using l3 gr(4) fact(1) by (simp add: release_current_def)
  qed
  obtain r1 ch1 l2 where step: "(if retry_ok then commit_upstream_replacement rep actual (ch, l1)
      else (Err (app_error (Runtime RuntimeCommandRejected) ''invalid upstream attempt transition''), (ch, l1)))
      = (r1, (ch1, l2))" by (metis prod_cases3)
  then have "(\<exists>cur. r1 = Ok () \<and> ch_upstream ch = Some cur \<and> ch1 = ch\<lparr>ch_upstream := Some rep\<rparr> \<and>
      live_bytes l2 = (live_bytes l1)(rep \<mapsto> actual, cur := None) \<and> ledger_inv l2) \<or>
    (\<exists>e. r1 = Err e \<and> ch1 = ch \<and> live_bytes l2 = live_bytes l1 \<and> ledger_inv l2)"
    using commit_upstream_replacement_result[OF gr(1-3), of actual r1 ch1 l2] inv1
    by (auto split: if_splits)
  then show ?thesis
  proof (elim disjE exE conjE)
    fix cur
    assume "r1 = Ok ()" and cur: "ch_upstream ch = Some cur" and ch1: "ch1 = ch\<lparr>ch_upstream := Some rep\<rparr>"
      and live: "live_bytes l2 = (live_bytes l1)(rep \<mapsto> actual, cur := None)" "ledger_inv l2"
    have "rep \<notin> dom (live_bytes l)" using gr(4) by (metis domIff fun_upd_same)
    moreover have "live_bytes l2 = (live_bytes l)(rep \<mapsto> actual, cur := None)"
      using live gr(4) by (metis fun_upd_upd)
    ultimately have "exchange l ch l2 ch1"
      unfolding ch1 using exchange_replacement[OF assms(1) gr(3) cur live(2)] by blast
    then show ?thesis
      using assms(3,4) step \<open>r1 = Ok ()\<close> by (simp add: replace_upstream_charge_def Let_def)
  next
    fix e
    assume "r1 = Err e" "ch1 = ch" "live_bytes l2 = live_bytes l1" "ledger_inv l2"
    then show ?thesis
      using assms(3,4) step clean[of l2] up by (auto simp: replace_upstream_charge_def Let_def)
  qed
qed

lemma replace_upstream_charge_exchange:
  assumes "owns l ch" "replace_upstream_charge conn n built retry_ok (ch, l) = (r, (ch', l'))"
  shows "exchange l ch l' ch' \<and> (r \<noteq> Ok () \<or> built = None \<longrightarrow> ch' = ch \<and> live_bytes l' = live_bytes l)"
proof -
  have inv: "ledger_inv l" using assms(1) by (simp add: owns_def)
  have same: ?thesis if "live_bytes l' = live_bytes l" "ledger_inv l'" "ch' = ch"
    using that exchange_give_back[OF assms(1)] by blast
  consider (refused) "\<exists>e. reserve_upstream_replacement conn n (ch, l) = (Err e, (ch, l')) \<and> ch' = ch"
    | (granted) rep l1 where "reserve conn UpstreamRequest n (generation l) l = (Ok rep, l1)"
        "reserve_upstream_replacement conn n (ch, l) = (Ok rep, (ch, l1))"
    using assms(2)
    by (cases "reserve_upstream_replacement conn n (ch, l)")
      (auto simp: replace_upstream_charge_def reserve_upstream_replacement_def acquire_for_def
        fail_accounting_def with_ledger_eq split: try_bind_splits if_splits)
  then show ?thesis
  proof cases
    case refused
    then have "same_books l l'"
      by (auto simp: reserve_upstream_replacement_def acquire_for_def with_ledger_eq
          dest: fail_accounting_same_books reserve_Err split: if_splits)
    then show ?thesis using refused same same_books_live same_books_inv inv by blast
  next
    case granted
    note gr = replace_upstream_charge_granted[OF assms(1) granted(1)]
    have inv1: "ledger_inv l1" using gr(1) by (simp add: owns_def)
    have up: "ch_upstream ch \<noteq> Some rep" using gr(3) upstream_in_ids by blast
    obtain l2 where l2: "release_after_allocation_failure rep (generation l1) l1 = (Ok (), l2)"
        "handover l1 {rep} l2 {}" "live_bytes l2 = (live_bytes l1)(rep := None)"
      using release_owned_failed[OF inv1 gr(2)] by metis
    show ?thesis
    proof (cases built)
      case None
      then show ?thesis
        using assms(2) granted(2) up l2 gr(4) handover_inv[OF l2(2)] same
        by (auto simp: replace_upstream_charge_def fail_allocation_current_def
            release_upstream_replacement_after_allocation_failure_def)
    next
      case (Some actual)
      then show ?thesis
        using replace_upstream_charge_commit[OF assms(1) granted _ ] assms(2) by blast
    qed
  qed
qed

lemma on_slot_release:
  assumes "slot_field get put one k" "owns l ch"
  shows "\<exists>l'. on_field get put slot_release (ch, l) = (Ok (), (put None ch, l')) \<and>
    exchange l ch l' (put None ch)"
proof -
  obtain r s' l' where run: "slot_release (get ch, l) = (r, (s', l'))"
    by (cases "slot_release (get ch, l)") auto
  then have onf: "on_field get put slot_release (ch, l) = (r, (put s' ch, l'))"
    by (simp add: on_field_def)
  have "set_option (get ch) \<subseteq> dom (live_bytes l)"
  proof -
    have "set (ids_of [get ch]) \<subseteq> set (charge_ids ch)"
      using assms(1) unfolding slot_field_def charge_ids_def
      by (metis ids_of_append set_append sup_ge1 sup_left_commute)
    then show ?thesis using assms(2) unfolding ids_of_set_option owns_def by blast
  qed
  moreover have "ledger_inv l" using assms(2) by (simp add: owns_def)
  ultimately have "r = Ok ()" "s' = None" using slot_release_handover[OF _ _ run] by blast+
  moreover have "exchange l ch l' (put s' ch)"
    using on_slot_exchange[OF assms onf] slot_release_keeps by blast
  ultimately show ?thesis using onf by auto
qed

definition releases_all ::
  "PayloadBudgetLedger \<Rightarrow> ConnectionPayloadCharges \<Rightarrow> unit app \<times> ConnectionPayloadCharges on_ledger \<Rightarrow> bool" where
  "releases_all l ch res \<longleftrightarrow> (\<exists>l'. res = (Ok (), (no_charges, l')) \<and> exchange l ch l' no_charges)"

lemma release_chain:
  assumes "slot_field get put one k" "exchange l ch l1 ch1"
    "\<And>l2. exchange l ch l2 (put None ch1) \<Longrightarrow> releases_all l ch (K (put None ch1, l2))"
  shows "releases_all l ch (try_bind (on_field get put slot_release (ch1, l1)) (\<lambda>_. K))"
  using on_slot_release[OF assms(1) exchange_owns[OF assms(2)]] exchange_trans[OF assms(2)] assms(3)
  by auto

lemma release_last:
  assumes "slot_field get put one k" "exchange l ch l1 ch1" "put None ch1 = no_charges"
  shows "releases_all l ch (on_field get put slot_release (ch1, l1))"
  using on_slot_release[OF assms(1) exchange_owns[OF assms(2)]] exchange_trans[OF assms(2)] assms(3)
  unfolding releases_all_def by auto

lemma release_all_exchange:
  assumes "owns l ch"
  shows "\<exists>l'. release_all (ch, l) = (Ok (), (no_charges, l')) \<and> exchange l ch l' no_charges"
proof -
  have "releases_all l ch (release_all (ch, l))"
    unfolding release_all_def release_request_def
    by (rule release_chain[OF slot_fields(1) exchange_refl[OF assms]],
        rule release_chain[OF slot_fields(2)], assumption,
        rule release_chain[OF slot_fields(3)], assumption,
        rule release_chain[OF slot_fields(4)], assumption,
        rule release_chain[OF slot_fields(5)], assumption,
        rule release_chain[OF slot_fields(6)], assumption,
        rule release_last[OF slot_fields(7)], assumption,
        simp add: no_charges_def)
  then show ?thesis by (simp add: releases_all_def)
qed

section \<open>All connections\<close>

datatype ChargeOp =
    GrowRequest nat
  | SyncTlsPending nat
  | SyncWebSocketClientToUpstream nat
  | SyncWebSocketUpstreamToClient nat
  | ResizeClientResponse nat
  | PrepareClientResponse nat
  | CommitClientResponse ClientResponseChargeChange
  | RollbackClientResponse ClientResponseChargeChange
  | ReserveUpstreamAndRetry nat nat
  | CommitUpstreamAndRetry nat nat
  | ReleaseUpstreamAllocationFailure
  | ReplaceUpstream nat "nat option" bool
  | ReleaseRequest
  | ReleaseAll

fun charge_apply ::
  "nat \<Rightarrow> ChargeOp \<Rightarrow> ConnectionPayloadCharges on_ledger \<Rightarrow> ConnectionPayloadCharges on_ledger" where
  "charge_apply conn (GrowRequest n) st = snd (grow_request conn n st)"
| "charge_apply conn (SyncTlsPending n) st = snd (sync_tls_pending conn n st)"
| "charge_apply conn (SyncWebSocketClientToUpstream n) st =
     snd (sync_websocket_client_to_upstream conn n st)"
| "charge_apply conn (SyncWebSocketUpstreamToClient n) st =
     snd (sync_websocket_upstream_to_client conn n st)"
| "charge_apply conn (ResizeClientResponse n) st = snd (resize_client_response_in_use n st)"
| "charge_apply conn (PrepareClientResponse n) st = snd (prepare_client_response_bytes conn n st)"
| "charge_apply conn (CommitClientResponse c) st = snd (commit_client_response_bytes c st)"
| "charge_apply conn (RollbackClientResponse c) st = snd (rollback_client_response_allocation c st)"
| "charge_apply conn (ReserveUpstreamAndRetry u n) st = snd (reserve_upstream_and_retry conn u n st)"
| "charge_apply conn (CommitUpstreamAndRetry u n) st = snd (commit_upstream_and_retry u n st)"
| "charge_apply conn ReleaseUpstreamAllocationFailure st = snd (release_upstream_allocation_failure st)"
| "charge_apply conn (ReplaceUpstream n built ok) st = snd (replace_upstream_charge conn n built ok st)"
| "charge_apply conn ReleaseRequest st = snd (release_request st)"
| "charge_apply conn ReleaseAll st = snd (release_all st)"

type_synonym charge_table = "nat \<rightharpoonup> ConnectionPayloadCharges"

inductive charge_step ::
  "charge_table \<times> PayloadBudgetLedger \<Rightarrow> charge_table \<times> PayloadBudgetLedger \<Rightarrow> bool" where
  accept: "T conn = None \<Longrightarrow> charge_step (T, l) (T(conn \<mapsto> no_charges), l)"
| operate: "T conn = Some ch \<Longrightarrow> charge_apply conn op (ch, l) = (ch', l') \<Longrightarrow>
    charge_step (T, l) (T(conn \<mapsto> ch'), l')"
| remove: "T conn = Some ch \<Longrightarrow> charge_apply conn ReleaseAll (ch, l) = (ch', l') \<Longrightarrow>
    charge_step (T, l) (T(conn := None), l')"

definition table_inv :: "charge_table \<times> PayloadBudgetLedger \<Rightarrow> bool" where
  "table_inv st \<longleftrightarrow> (case st of (T, l) \<Rightarrow>
    ledger_inv l \<and>
    (\<forall>c ch. T c = Some ch \<longrightarrow> owns l ch) \<and>
    (\<forall>c d ch dh. c \<noteq> d \<longrightarrow> T c = Some ch \<longrightarrow> T d = Some dh \<longrightarrow>
       set (charge_ids ch) \<inter> set (charge_ids dh) = {}) \<and>
    (\<forall>i. live_bytes l i \<noteq> None \<longrightarrow> (\<exists>c ch. T c = Some ch \<and> i \<in> set (charge_ids ch))))"

lemma charge_apply_exchange:
  assumes "owns l ch" "charge_apply conn op (ch, l) = (ch', l')"
  shows "exchange l ch l' ch'"
proof -
  have *: "exchange l ch l' ch'" if "snd f = (ch', l')" "\<And>r. f = (r, (ch', l')) \<Longrightarrow> exchange l ch l' ch'"
    for f :: "'a app \<times> ConnectionPayloadCharges on_ledger"
    using that by (cases f) auto
  show ?thesis
  proof (cases op)
    case ReleaseAll
    then show ?thesis using assms release_all_exchange[OF assms(1)] by auto
  next
    case (ReplaceUpstream n built ok)
    then show ?thesis using assms replace_upstream_charge_exchange[OF assms(1)] by (auto intro: *)
  qed (use assms in \<open>auto intro: * grow_request_exchange sync_tls_pending_exchange
      sync_websocket_client_to_upstream_exchange sync_websocket_upstream_to_client_exchange
      resize_client_response_in_use_exchange prepare_client_response_bytes_exchange
      commit_client_response_bytes_exchange rollback_client_response_allocation_exchange
      reserve_upstream_and_retry_exchange commit_upstream_and_retry_exchange
      release_upstream_allocation_failure_exchange release_request_exchange\<close>)
qed

lemma no_charges_ids [simp]: "charge_ids no_charges = []"
  by (simp add: charge_ids_def slots_def no_charges_def)

lemma exchange_others:
  assumes "exchange l ch l' ch'" "owns l dh" "set (charge_ids ch) \<inter> set (charge_ids dh) = {}"
  shows "owns l' dh" "set (charge_ids ch') \<inter> set (charge_ids dh) = {}"
proof -
  have "handover l (set (charge_ids ch)) l' (set (charge_ids ch'))"
    using assms(1) by (simp add: exchange_def)
  note * = handover_frame[OF this, of "set (charge_ids dh)"]
  have "set (charge_ids dh) \<subseteq> dom (live_bytes l)" "set (charge_ids dh) \<inter> set (charge_ids ch) = {}"
    using assms(2,3) by (auto simp: owns_def)
  note * = *[OF this]
  show "owns l' dh" using handover_inv[OF *(1)] assms(2) by (auto simp: owns_def)
  show "set (charge_ids ch') \<inter> set (charge_ids dh) = {}" using *(2) by blast
qed

lemma table_inv_disjoint:
  "table_inv (T, l) \<Longrightarrow> T c = Some ch \<Longrightarrow> T d = Some dh \<Longrightarrow> d \<noteq> c \<Longrightarrow>
    set (charge_ids ch) \<inter> set (charge_ids dh) = {}"
  unfolding table_inv_def by blast

lemma table_inv_update:
  assumes "table_inv (T, l)" "T conn = Some ch" "exchange l ch l' ch'"
  shows "table_inv (T(conn \<mapsto> ch'), l')"
proof -
  have others: "owns l' dh" "set (charge_ids ch') \<inter> set (charge_ids dh) = {}"
    if "T d = Some dh" "d \<noteq> conn" for d dh
  proof -
    have "owns l dh" "set (charge_ids ch) \<inter> set (charge_ids dh) = {}"
      using table_inv_disjoint[OF assms(1,2) that(1)] that assms(1) by (auto simp: table_inv_def)
    then show "owns l' dh" "set (charge_ids ch') \<inter> set (charge_ids dh) = {}"
      using exchange_others[OF assms(3)] by blast+
  qed
  have live: "\<exists>c dh. (T(conn \<mapsto> ch')) c = Some dh \<and> i \<in> set (charge_ids dh)"
    if "live_bytes l' i \<noteq> None" for i
  proof (cases "i \<in> set (charge_ids ch')")
    case False
    then have i: "i \<in> dom (live_bytes l) - set (charge_ids ch)"
      using that assms(3) unfolding exchange_def handover_def by blast
    then obtain c dh where "T c = Some dh" "i \<in> set (charge_ids dh)"
      using assms(1) unfolding table_inv_def by auto
    then show ?thesis using i assms(2) by (intro exI[of _ c] exI[of _ dh]) auto
  qed (auto intro!: exI[of _ conn])
  show ?thesis
    unfolding table_inv_def prod.case
  proof (intro conjI allI impI)
    show "ledger_inv l'" using exchange_owns[OF assms(3)] by (simp add: owns_def)
    show "owns l' dh" if "(T(conn \<mapsto> ch')) c = Some dh" for c dh
      using that others(1) exchange_owns[OF assms(3)] by (auto split: if_splits)
    show "set (charge_ids x) \<inter> set (charge_ids y) = {}"
      if "c \<noteq> d" "(T(conn \<mapsto> ch')) c = Some x" "(T(conn \<mapsto> ch')) d = Some y" for c d x y
      using that others(2)[of c x] others(2)[of d y] table_inv_disjoint[OF assms(1), of c x d y]
      by (cases "c = conn"; cases "d = conn") auto
  qed (rule live)
qed

lemma table_inv_idle:
  assumes "table_inv (T, l)" "\<And>c ch. T' c = Some ch \<Longrightarrow> ch = no_charges \<or> T c = Some ch"
    "\<And>c ch. T c = Some ch \<Longrightarrow> ch = no_charges \<or> T' c = Some ch"
  shows "table_inv (T', l)"
  unfolding table_inv_def prod.case
proof (intro conjI allI impI)
  show "ledger_inv l" using assms(1) by (simp add: table_inv_def)
  then have "owns l no_charges" by (simp add: owns_def)
  then show "owns l ch" if "T' c = Some ch" for c ch
    using that assms(1,2) by (auto simp: table_inv_def)
  show "set (charge_ids x) \<inter> set (charge_ids y) = {}"
    if "c \<noteq> d" "T' c = Some x" "T' d = Some y" for c d x y
    using that assms(2) table_inv_disjoint[OF assms(1), of c x d y] by fastforce
  show "\<exists>c ch. T' c = Some ch \<and> i \<in> set (charge_ids ch)" if i: "live_bytes l i \<noteq> None" for i
  proof -
    obtain c ch where "T c = Some ch" "i \<in> set (charge_ids ch)"
      using i assms(1) unfolding table_inv_def by auto
    then show ?thesis using assms(3)[of c ch] by (cases "ch = no_charges") auto
  qed
qed

lemma table_inv_step: "charge_step st st' \<Longrightarrow> table_inv st \<Longrightarrow> table_inv st'"
proof (induction rule: charge_step.induct)
  case (accept T conn l)
  show ?case by (rule table_inv_idle[OF accept(2)]) (auto simp: accept(1) split: if_splits)
next
  case (operate T conn ch op l ch' l')
  then have "owns l ch" by (auto simp: table_inv_def)
  then show ?case using operate charge_apply_exchange table_inv_update by blast
next
  case (remove T conn ch l ch' l')
  then have "owns l ch" by (auto simp: table_inv_def)
  then have "exchange l ch l' no_charges"
    using remove(2) release_all_exchange[of l ch] by auto
  then have inv: "table_inv (T(conn \<mapsto> no_charges), l')" using remove table_inv_update by blast
  show ?case by (rule table_inv_idle[OF inv]) (auto split: if_splits)
qed

lemma table_inv_reachable:
  assumes "resource_policy_try_new conns bytes = Ok p"
    "charge_step\<^sup>*\<^sup>* (Map.empty, ledger_new p gen) st"
  shows "table_inv st"
  using assms(2)
proof (induction rule: rtranclp_induct)
  case base
  then show ?case using ledger_new_inv[OF assms(1)]
    by (simp add: table_inv_def live_bytes_def ledger_new_def)
qed (rule table_inv_step)

section \<open>Properties of the connection charges\<close>



text \<open>
  C29: Synchronising a slot to a number of bytes is all or nothing. On success the slot holds a
  charge of exactly that many bytes (no charge for zero) and reports whether it changed; on
  failure the slot and all live charges are as before; either way the charges of others are
  untouched.
\<close>

theorem slot_sync_all_or_nothing:
  assumes "ledger_inv l" "set_option s \<subseteq> dom (live_bytes l)"
    "slot_sync cls conn n (s, l) = (r, (s', l'))"
  shows "(case r of
       Ok changed \<Rightarrow> slot_bytes l' s' = n \<and> (changed \<longleftrightarrow> slot_bytes l s \<noteq> n)
     | Err e \<Rightarrow> s' = s \<and> live_bytes l' = live_bytes l) \<and>
    (\<forall>j. live_bytes l j \<noteq> None \<and> s \<noteq> Some j \<longrightarrow> live_bytes l' j = live_bytes l j) \<and> ledger_inv l'"
proof -
  note h = slot_sync_handover[OF assms]
  then have "\<forall>j. live_bytes l j \<noteq> None \<and> s \<noteq> Some j \<longrightarrow> live_bytes l' j = live_bytes l j"
    unfolding handover_def by (auto simp: elem_set)
  then show ?thesis using h handover_inv by blast
qed

theorem slot_sync_all_or_nothing_witness:
  "ledger_inv (snd (snd (slot_sync TlsPending 4 100 (None, ledger_new sample_policy 3))))"
  using slot_sync_all_or_nothing[OF ledger_new_inv[OF sample_policy_valid], of None 3 TlsPending 4 100]
  by (cases "slot_sync TlsPending 4 100 (None, ledger_new sample_policy 3)") auto

text \<open>
  C30: Rolling back a prepared client response undoes it exactly: after a successful prepare,
  rollback succeeds, the slot holds what it held before, and the live charges are those of
  before the prepare.
\<close>

theorem response_rollback_undoes_prepare:
  assumes "ledger_inv l" "set_option s \<subseteq> dom (live_bytes l)"
    "response_prepare conn n (s, l) = (Ok change, (s1, l1))"
  shows "\<exists>l2. response_rollback change (s1, l1) = (Ok (), (s, l2)) \<and>
    live_bytes l2 = live_bytes l \<and> ledger_inv l2"
proof (cases s)
  case None
  then obtain i where res: "acquire_for conn ClientResponse n l = (Ok i, l1)"
    and change: "change = \<lparr>change_charge_id = i, change_previous_bytes = None, change_next_bytes = n\<rparr>"
      "s1 = Some i"
    using assms(3) by (auto simp: response_prepare_def with_ledger_eq split: try_bind_splits)
  have live: "live_bytes l i = None" "live_bytes l1 = (live_bytes l)(i \<mapsto> n)" "ledger_inv l1"
    using ledger.acquire_Ok[OF assms(1) res] by auto
  then have i: "i \<in> dom (live_bytes l1)" by auto
  obtain l2 where l2: "release_after_allocation_failure i (generation l1) l1 = (Ok (), l2)"
      "handover l1 {i} l2 {}" "live_bytes l2 = (live_bytes l1)(i := None)"
    using release_owned_failed[OF live(3) i] by metis
  then show ?thesis
    using None change live handover_inv[OF l2(2)]
    by (auto simp: response_rollback_def fail_allocation_current_def)
next
  case (Some i)
  then obtain c where c: "charges l i = Some c" using assms(2) by (auto simp: live_bytes_def)
  then have res: "resize_current i n l = (Ok (), l1)" and s1: "s1 = s"
    and change: "change = \<lparr>change_charge_id = i, change_previous_bytes = Some (charged_bytes c),
      change_next_bytes = n\<rparr>"
    using assms(3) Some
    by (auto simp: response_prepare_def with_ledger_eq split: try_bind_splits)
  have "live_bytes l i = Some (charged_bytes c)" using c by (simp add: live_bytes_def)
  from ledger.adjust_back[OF assms(1) this res] show ?thesis
    using Some s1 change by (auto simp: response_rollback_def)
qed

theorem response_rollback_undoes_prepare_witness:
  "\<exists>change s1 l1 l2. response_prepare 4 100 (None, ledger_new sample_policy 3) = (Ok change, (s1, l1)) \<and>
     response_rollback change (s1, l1) = (Ok (), (None, l2))"
proof -
  obtain change s1 l1 where run:
    "response_prepare 4 100 (None, ledger_new sample_policy 3) = (Ok change, (s1, l1))"
    by (simp add: response_prepare_def acquire_for_def ledger_eval sample_policy_def)
  show ?thesis
    using response_rollback_undoes_prepare[OF ledger_new_inv[OF sample_policy_valid] _ run] run by auto
qed



end
