(* ===== verification/RustStr.thy ===== *)
theory RustStr
  imports Prelude
begin

text \<open>
  Byte strings: the parts of Rust's \<^verbatim>\<open>str\<close>, \<^verbatim>\<open>slice\<close> and integer parsing that the sources use.
  A \<^verbatim>\<open>Vec<u8>\<close>, a \<^verbatim>\<open>&[u8]\<close> and a \<^verbatim>\<open>&str\<close> are Isabelle strings, one character per byte; a
  \<^verbatim>\<open>&str\<close> is one that satisfies \<open>utf8_valid\<close>, so a length is a number of bytes. White space is
  the Unicode property \<^verbatim>\<open>White_Space\<close> spelled out in its UTF-8 encoding, as \<^verbatim>\<open>str::trim\<close> uses it;
  a lead byte never occurs inside another character, so matching bytes finds characters.
\<close>

section \<open>Bytes and characters\<close>

abbreviation byte :: "char \<Rightarrow> nat" where
  "byte c \<equiv> of_char c"

abbreviation CR :: char where "CR \<equiv> CHR 0x0D"
abbreviation LF :: char where "LF \<equiv> CHR 0x0A"

abbreviation crlf :: string where
  "crlf \<equiv> [CR, LF]"

definition is_cont :: "char \<Rightarrow> bool" where
  "is_cont c \<longleftrightarrow> 128 \<le> byte c \<and> byte c \<le> 191"

definition between :: "nat \<Rightarrow> nat \<Rightarrow> char \<Rightarrow> bool" where
  "between lo hi c \<longleftrightarrow> lo \<le> byte c \<and> byte c \<le> hi"

fun utf8_valid :: "string \<Rightarrow> bool" where
  "utf8_valid [] = True"
| "utf8_valid (a # r) =
    (if byte a < 128 then utf8_valid r
     else if between 0xC2 0xDF a then
       (case r of b # r \<Rightarrow> is_cont b \<and> utf8_valid r | _ \<Rightarrow> False)
     else if between 0xE0 0xEF a then
       (case r of b # c # r \<Rightarrow>
          (if byte a = 0xE0 then between 0xA0 0xBF b
           else if byte a = 0xED then between 0x80 0x9F b
           else is_cont b) \<and> is_cont c \<and> utf8_valid r
        | _ \<Rightarrow> False)
     else if between 0xF0 0xF4 a then
       (case r of b # c # d # r \<Rightarrow>
          (if byte a = 0xF0 then between 0x90 0xBF b
           else if byte a = 0xF4 then between 0x80 0x8F b
           else is_cont b) \<and> is_cont c \<and> is_cont d \<and> utf8_valid r
        | _ \<Rightarrow> False)
     else False)"

definition is_ascii_digit :: "char \<Rightarrow> bool" where
  "is_ascii_digit c \<longleftrightarrow> between 48 57 c"

definition is_ascii_uppercase :: "char \<Rightarrow> bool" where
  "is_ascii_uppercase c \<longleftrightarrow> between 65 90 c"

definition is_ascii_lowercase :: "char \<Rightarrow> bool" where
  "is_ascii_lowercase c \<longleftrightarrow> between 97 122 c"

definition is_ascii_alphanumeric :: "char \<Rightarrow> bool" where
  "is_ascii_alphanumeric c \<longleftrightarrow> is_ascii_digit c \<or> is_ascii_uppercase c \<or> is_ascii_lowercase c"

definition ascii_lower :: "char \<Rightarrow> char" where
  "ascii_lower c = (if is_ascii_uppercase c then char_of (byte c + 32) else c)"

definition to_ascii_lowercase :: "string \<Rightarrow> string" where
  "to_ascii_lowercase s = map ascii_lower s"

definition eq_ignore_ascii_case :: "string \<Rightarrow> string \<Rightarrow> bool" where
  "eq_ignore_ascii_case a b \<longleftrightarrow> to_ascii_lowercase a = to_ascii_lowercase b"

section \<open>White space\<close>

fun starts_with :: "string \<Rightarrow> string \<Rightarrow> bool" where
  "starts_with [] s = True"
| "starts_with (p # ps) [] = False"
| "starts_with (p # ps) (c # cs) = (p = c \<and> starts_with ps cs)"

definition ws_chars :: "string list" where
  "ws_chars =
    [[CHR 0x09], [CHR 0x0A], [CHR 0x0B], [CHR 0x0C], [CHR 0x0D], [CHR 0x20],
     [CHR 0xC2, CHR 0x85], [CHR 0xC2, CHR 0xA0], [CHR 0xE1, CHR 0x9A, CHR 0x80],
     [CHR 0xE2, CHR 0x80, CHR 0x80], [CHR 0xE2, CHR 0x80, CHR 0x81],
     [CHR 0xE2, CHR 0x80, CHR 0x82], [CHR 0xE2, CHR 0x80, CHR 0x83],
     [CHR 0xE2, CHR 0x80, CHR 0x84], [CHR 0xE2, CHR 0x80, CHR 0x85],
     [CHR 0xE2, CHR 0x80, CHR 0x86], [CHR 0xE2, CHR 0x80, CHR 0x87],
     [CHR 0xE2, CHR 0x80, CHR 0x88], [CHR 0xE2, CHR 0x80, CHR 0x89],
     [CHR 0xE2, CHR 0x80, CHR 0x8A], [CHR 0xE2, CHR 0x80, CHR 0xA8],
     [CHR 0xE2, CHR 0x80, CHR 0xA9], [CHR 0xE2, CHR 0x80, CHR 0xAF],
     [CHR 0xE2, CHR 0x81, CHR 0x9F], [CHR 0xE3, CHR 0x80, CHR 0x80]]"

text \<open>
  \<open>ws_len s\<close>: how many bytes the white space character at the start of \<open>s\<close> takes, zero when
  there is none; \<open>ws_len_rev\<close> is the same for the end of a string, which it takes reversed.
\<close>

definition ws_len :: "string \<Rightarrow> nat" where
  "ws_len s = (case find (\<lambda>w. starts_with w s) ws_chars of None \<Rightarrow> 0 | Some w \<Rightarrow> length w)"

definition ws_len_rev :: "string \<Rightarrow> nat" where
  "ws_len_rev r = (case find (\<lambda>w. starts_with (rev w) r) ws_chars of None \<Rightarrow> 0 | Some w \<Rightarrow> length w)"

lemma starts_with_iff: "starts_with p s \<longleftrightarrow> (\<exists>r. s = p @ r)"
  by (induction p s rule: starts_with.induct) auto

lemma starts_with_length: "starts_with p s \<Longrightarrow> length p \<le> length s"
  by (auto simp: starts_with_iff)

lemma ws_len_le: "ws_len s \<le> length s"
  by (auto simp: ws_len_def find_Some_iff dest: starts_with_length split: option.splits)

lemma ws_len_rev_le: "ws_len_rev r \<le> length r"
proof -
  have "length w \<le> length r" if "starts_with (rev w) r" for w
    using starts_with_length[OF that] by simp
  then show ?thesis by (auto simp: ws_len_rev_def find_Some_iff split: option.splits)
qed

lemma ws_len_drop: "0 < ws_len s \<Longrightarrow> length s - ws_len s < length s"
  using ws_len_le[of s] by linarith

lemma ws_len_rev_drop: "0 < ws_len_rev s \<Longrightarrow> length s - ws_len_rev s < length s"
  using ws_len_rev_le[of s] by linarith

function trim_start :: "string \<Rightarrow> string" where
  "trim_start s = (if ws_len s = 0 then s else trim_start (drop (ws_len s) s))"
  by auto
termination
  by (relation "measure length") (auto intro: ws_len_drop)

function trim_end_rev :: "string \<Rightarrow> string" where
  "trim_end_rev r = (if ws_len_rev r = 0 then r else trim_end_rev (drop (ws_len_rev r) r))"
  by auto
termination
  by (relation "measure length") (auto intro: ws_len_rev_drop)

declare trim_start.simps [simp del] trim_end_rev.simps [simp del]

definition trim_end :: "string \<Rightarrow> string" where
  "trim_end s = rev (trim_end_rev (rev s))"

definition trim :: "string \<Rightarrow> string" where
  "trim s = trim_end (trim_start s)"

fun word_span :: "string \<Rightarrow> string \<times> string" where
  "word_span [] = ([], [])"
| "word_span (c # s) =
    (if 0 < ws_len (c # s) then ([], c # s)
     else case word_span s of (w, r) \<Rightarrow> (c # w, r))"

lemma word_span_append: "fst (word_span s) @ snd (word_span s) = s"
  by (induction s) (auto split: prod.splits)

lemma trim_start_length: "length (trim_start s) \<le> length s"
  by (induction s rule: trim_start.induct) (subst trim_start.simps, auto)

lemma word_span_shorter: "ws_len s = 0 \<Longrightarrow> s \<noteq> [] \<Longrightarrow> length (snd (word_span s)) < length s"
proof (cases s)
  case (Cons c t)
  assume "ws_len s = 0"
  have "length (snd (word_span t)) \<le> length t"
    using word_span_append[of t] by (metis le_add2 length_append)
  then show ?thesis using Cons \<open>ws_len s = 0\<close> by (auto split: prod.splits)
qed simp

lemma trim_start_no_ws: "ws_len (trim_start s) = 0"
  by (induction s rule: trim_start.induct) (subst trim_start.simps, auto)

function split_whitespace :: "string \<Rightarrow> string list" where
  "split_whitespace s =
    (let t = trim_start s in
     if t = [] then [] else fst (word_span t) # split_whitespace (snd (word_span t)))"
  by auto
termination
proof (relation "measure length", goal_cases)
  case (2 s t)
  then show ?case
    using word_span_shorter[OF trim_start_no_ws, of s] trim_start_length[of s] by simp
qed simp

declare split_whitespace.simps [simp del]

section \<open>Searching and splitting\<close>

definition ends_with :: "string \<Rightarrow> string \<Rightarrow> bool" where
  "ends_with p s = starts_with (rev p) (rev s)"

text \<open>\<^verbatim>\<open>windows(n).position(|w| w == pat)\<close> and \<^verbatim>\<open>str::find(pat)\<close> for a nonempty pattern.\<close>

fun find_sub :: "string \<Rightarrow> string \<Rightarrow> nat option" where
  "find_sub pat [] = None"
| "find_sub pat (c # cs) =
    (if starts_with pat (c # cs) then Some 0 else map_option Suc (find_sub pat cs))"

fun split_crlf :: "string \<Rightarrow> string list" where
  "split_crlf [] = [[]]"
| "split_crlf [c] = [[c]]"
| "split_crlf (c # d # cs) =
    (if c = CR \<and> d = LF then [] # split_crlf cs
     else case split_crlf (d # cs) of l # ls \<Rightarrow> (c # l) # ls | [] \<Rightarrow> [[c]])"

fun split_char :: "char \<Rightarrow> string \<Rightarrow> string list" where
  "split_char x [] = [[]]"
| "split_char x (c # cs) =
    (if c = x then [] # split_char x cs
     else case split_char x cs of l # ls \<Rightarrow> (c # l) # ls | [] \<Rightarrow> [[c]])"

fun split_once :: "char \<Rightarrow> string \<Rightarrow> (string \<times> string) option" where
  "split_once x [] = None"
| "split_once x (c # cs) =
    (if c = x then Some ([], cs)
     else case split_once x cs of Some (a, b) \<Rightarrow> Some (c # a, b) | None \<Rightarrow> None)"

definition rsplit_once :: "char \<Rightarrow> string \<Rightarrow> (string \<times> string) option" where
  "rsplit_once x s =
    (case split_once x (rev s) of Some (b, a) \<Rightarrow> Some (rev a, rev b) | None \<Rightarrow> None)"

definition strip_prefix :: "string \<Rightarrow> string \<Rightarrow> string option" where
  "strip_prefix p s = (if starts_with p s then Some (drop (length p) s) else None)"

definition strip_suffix :: "string \<Rightarrow> string \<Rightarrow> string option" where
  "strip_suffix p s = (if ends_with p s then Some (take (length s - length p) s) else None)"

definition trim_end_matches :: "char \<Rightarrow> string \<Rightarrow> string" where
  "trim_end_matches x s = rev (dropWhile (\<lambda>c. c = x) (rev s))"

section \<open>Numbers\<close>

definition digit_of :: "nat \<Rightarrow> char \<Rightarrow> nat option" where
  "digit_of radix c =
    (let v = (if is_ascii_digit c then byte c - 48
              else if is_ascii_lowercase c then byte c - 87
              else if is_ascii_uppercase c then byte c - 55
              else radix)
     in if v < radix then Some v else None)"

fun parse_digits :: "nat \<Rightarrow> nat \<Rightarrow> nat \<Rightarrow> string \<Rightarrow> nat option" where
  "parse_digits hi radix v [] = Some v"
| "parse_digits hi radix v (c # cs) =
    (case digit_of radix c of
       None \<Rightarrow> None
     | Some d \<Rightarrow> if v * radix + d \<le> hi then parse_digits hi radix (v * radix + d) cs else None)"

text \<open>\<^verbatim>\<open>from_str_radix\<close> of an unsigned type with largest value \<open>hi\<close>: one leading plus is accepted.\<close>

definition parse_unsigned :: "nat \<Rightarrow> nat \<Rightarrow> string \<Rightarrow> nat option" where
  "parse_unsigned hi radix s =
    (case s of
       [] \<Rightarrow> None
     | c # cs \<Rightarrow>
         if c = CHR ''+'' then (if cs = [] then None else parse_digits hi radix 0 cs)
         else parse_digits hi radix 0 s)"

definition parse_usize :: "string \<Rightarrow> nat option" where
  "parse_usize = parse_unsigned usize_max 10"

fun decimal :: "nat \<Rightarrow> string" where
  "decimal n = (if n < 10 then [char_of (48 + n)] else decimal (n div 10) @ [char_of (48 + n mod 10)])"

declare decimal.simps [simp del]

section \<open>Facts about trimming\<close>

lemma ws_len_rev_trim: "ws_len_rev (trim_end_rev r) = 0"
  by (induction r rule: trim_end_rev.induct) (subst trim_end_rev.simps, auto)

lemma trim_start_fix: "ws_len s = 0 \<Longrightarrow> trim_start s = s"
  by (subst trim_start.simps) simp

lemma trim_end_rev_fix: "ws_len_rev s = 0 \<Longrightarrow> trim_end_rev s = s"
  by (subst trim_end_rev.simps) simp

lemma trim_end_rev_suffix: "\<exists>p. r = p @ trim_end_rev r"
proof (induction r rule: trim_end_rev.induct)
  case (1 r)
  show ?case
  proof (cases "ws_len_rev r = 0")
    case True
    then show ?thesis by (simp add: trim_end_rev_fix)
  next
    case False
    then obtain p where "drop (ws_len_rev r) r = p @ trim_end_rev (drop (ws_len_rev r) r)"
      using 1 by auto
    then have "r = (take (ws_len_rev r) r @ p) @ trim_end_rev (drop (ws_len_rev r) r)"
      by (metis append_assoc append_take_drop_id)
    moreover have "trim_end_rev r = trim_end_rev (drop (ws_len_rev r) r)"
      using False by (subst trim_end_rev.simps) simp
    ultimately show ?thesis by metis
  qed
qed

lemma trim_end_prefix: "\<exists>p. s = trim_end s @ p"
  using trim_end_rev_suffix[of "rev s"] unfolding trim_end_def
  by (metis rev_append rev_rev_ident)

lemma trim_start_suffix: "\<exists>p. s = p @ trim_start s"
proof (induction s rule: trim_start.induct)
  case (1 s)
  show ?case
  proof (cases "ws_len s = 0")
    case True
    then show ?thesis by (simp add: trim_start_fix)
  next
    case False
    then obtain p where "drop (ws_len s) s = p @ trim_start (drop (ws_len s) s)"
      using 1 by auto
    then have "s = (take (ws_len s) s @ p) @ trim_start (drop (ws_len s) s)"
      by (metis append_assoc append_take_drop_id)
    moreover have "trim_start s = trim_start (drop (ws_len s) s)"
      using False by (subst trim_start.simps) simp
    ultimately show ?thesis by metis
  qed
qed

lemma ws_chars_nonempty: "w \<in> set ws_chars \<Longrightarrow> w \<noteq> []"
  by (auto simp: ws_chars_def)

lemma ws_len_0_iff: "ws_len s = 0 \<longleftrightarrow> (\<forall>w \<in> set ws_chars. \<not> starts_with w s)"
proof
  assume "ws_len s = 0"
  then have "find (\<lambda>w. starts_with w s) ws_chars = None"
    by (auto simp: ws_len_def find_Some_iff dest!: ws_chars_nonempty[OF nth_mem] split: option.splits)
  then show "\<forall>w \<in> set ws_chars. \<not> starts_with w s" by (simp add: find_None_iff)
next
  assume "\<forall>w \<in> set ws_chars. \<not> starts_with w s"
  then have "find (\<lambda>w. starts_with w s) ws_chars = None" by (simp add: find_None_iff)
  then show "ws_len s = 0" by (simp add: ws_len_def)
qed

lemma starts_with_append: "starts_with p s \<Longrightarrow> starts_with p (s @ t)"
  by (auto simp: starts_with_iff)

lemma trim_idem [simp]: "trim (trim s) = trim s"
proof -
  obtain p where p: "trim_start s = trim_end (trim_start s) @ p" using trim_end_prefix by blast
  have "ws_len (trim s) = 0"
    using trim_start_no_ws[of s] p unfolding trim_def ws_len_0_iff by (metis starts_with_append)
  then have "trim_start (trim s) = trim s" by (rule trim_start_fix)
  moreover have "trim_end (trim s) = trim s"
    unfolding trim_def trim_end_def by (simp add: trim_end_rev_fix ws_len_rev_trim)
  ultimately show ?thesis by (simp add: trim_def)
qed

lemma set_trim: "set (trim s) \<subseteq> set s"
proof -
  obtain p q where "s = p @ trim_start s" "trim_start s = trim s @ q"
    using trim_start_suffix trim_end_prefix unfolding trim_def by metis
  then show ?thesis by (metis Un_iff set_append subsetI)
qed

lemma length_trim: "length (trim s) \<le> length s"
proof -
  obtain p q where "s = p @ trim_start s" "trim_start s = trim s @ q"
    using trim_start_suffix trim_end_prefix unfolding trim_def by metis
  then have "length s = length p + length (trim s) + length q" by (metis add.assoc length_append)
  then show ?thesis by simp
qed

section \<open>Facts about searching, splitting and numbers\<close>

lemma split_once_append: "x \<notin> set a \<Longrightarrow> split_once x (a @ x # b) = Some (a, b)"
  by (induction a) auto

lemma split_once_SomeD: "split_once x s = Some (a, b) \<Longrightarrow> s = a @ x # b \<and> x \<notin> set a"
  by (induction s arbitrary: a b) (auto split: if_splits option.splits)

lemma split_once_Some: "split_once x s = Some (a, b) \<longleftrightarrow> s = a @ x # b \<and> x \<notin> set a"
  using split_once_SomeD split_once_append by metis

lemma split_once_None: "split_once x s = None \<longleftrightarrow> x \<notin> set s"
  by (induction s) (auto split: option.splits)

lemma find_sub_Some:
  "find_sub pat s = Some i \<Longrightarrow>
    i < length s \<and> starts_with pat (drop i s) \<and> (\<forall>j < i. \<not> starts_with pat (drop j s))"
proof (induction s arbitrary: i)
  case (Cons c s)
  show ?case
  proof (cases "starts_with pat (c # s)")
    case False
    then obtain k where k: "find_sub pat s = Some k" "i = Suc k" using Cons.prems by auto
    have "\<not> starts_with pat (drop j (c # s))" if "j < i" for j
      using that False Cons.IH[OF k(1)] k(2) by (cases j) auto
    then show ?thesis using Cons.IH[OF k(1)] k(2) by auto
  qed (use Cons.prems in auto)
qed simp

lemma find_sub_None: "find_sub pat s = None \<longleftrightarrow> (\<forall>i < length s. \<not> starts_with pat (drop i s))"
proof (induction s)
  case (Cons c s)
  have "(\<forall>i < length (c # s). \<not> starts_with pat (drop i (c # s))) \<longleftrightarrow>
      \<not> starts_with pat (c # s) \<and> (\<forall>i < length s. \<not> starts_with pat (drop i s))"
    by (auto simp: less_Suc_eq_0_disj)
  then show ?case using Cons by auto
qed simp

lemma parse_digits_bound: "parse_digits hi radix v s = Some n \<Longrightarrow> v \<le> hi \<Longrightarrow> n \<le> hi"
  by (induction s arbitrary: v) (auto split: option.splits if_splits)

lemma parse_usize_bound: "parse_usize s = Some n \<Longrightarrow> n \<le> usize_max"
  by (auto simp: parse_usize_def parse_unsigned_def simp del: parse_digits.simps
      split: list.splits if_splits dest: parse_digits_bound)

lemma eq_ignore_ascii_case_refl [simp]: "eq_ignore_ascii_case a a"
  by (simp add: eq_ignore_ascii_case_def)

lemma eq_ignore_ascii_case_sym: "eq_ignore_ascii_case a b = eq_ignore_ascii_case b a"
  by (auto simp: eq_ignore_ascii_case_def)

lemma eq_ignore_ascii_case_trans:
  "eq_ignore_ascii_case a b \<Longrightarrow> eq_ignore_ascii_case b c \<Longrightarrow> eq_ignore_ascii_case a c"
  by (simp add: eq_ignore_ascii_case_def)

section \<open>Words and printed numbers\<close>

text \<open>\<open>hex\<close> prints a number in lower-case hexadecimal, as \<open>decimal\<close> does in decimal.\<close>

definition digit_char :: "nat \<Rightarrow> char" where
  "digit_char d = char_of (if d < 10 then 48 + d else 87 + d)"

fun hex :: "nat \<Rightarrow> string" where
  "hex n = (if n < 16 then [digit_char n] else hex (n div 16) @ [digit_char (n mod 16)])"

declare hex.simps [simp del]

lemma ends_with_iff: "ends_with p s \<longleftrightarrow> (\<exists>r. s = r @ p)"
  unfolding ends_with_def starts_with_iff by (metis rev_append rev_rev_ident)

lemma utf8_valid_ascii: "\<forall>c \<in> set s. byte c < 128 \<Longrightarrow> utf8_valid s"
  by (induction s) auto

lemma split_char_nonempty [simp]: "split_char x s \<noteq> []"
  by (cases s) (auto split: list.splits)

lemma split_char_absent: "x \<notin> set s \<Longrightarrow> split_char x s = [s]"
  by (induction s) auto

lemma ws_chars_ends:
  "w \<in> set ws_chars \<Longrightarrow> w \<noteq> [] \<and> \<not> is_ascii_alphanumeric (hd w) \<and> \<not> is_ascii_alphanumeric (last w)"
proof -
  have "list_all (\<lambda>w. w \<noteq> [] \<and> \<not> is_ascii_alphanumeric (hd w) \<and> \<not> is_ascii_alphanumeric (last w)) ws_chars"
    by code_simp
  then show "w \<in> set ws_chars \<Longrightarrow> ?thesis" by (simp add: list_all_iff)
qed

lemma ws_len_rev_0: "\<forall>w \<in> set ws_chars. \<not> starts_with (rev w) s \<Longrightarrow> ws_len_rev s = 0"
proof -
  assume "\<forall>w \<in> set ws_chars. \<not> starts_with (rev w) s"
  then have "find (\<lambda>w. starts_with (rev w) s) ws_chars = None" by (simp add: find_None_iff)
  then show ?thesis by (simp add: ws_len_rev_def)
qed

lemma trim_word:
  assumes "s = [] \<or> is_ascii_alphanumeric (hd s) \<and> is_ascii_alphanumeric (last s)"
  shows "trim s = s"
proof -
  have "\<not> starts_with w s" "\<not> starts_with (rev w) (rev s)" if "w \<in> set ws_chars" for w
    using ws_chars_ends[OF that] assms unfolding starts_with_iff
    by (auto simp: hd_append last_append hd_rev rev_eq_append_conv)
  then have "ws_len s = 0" "ws_len_rev (rev s) = 0"
    by (auto simp: ws_len_0_iff intro: ws_len_rev_0)
  then show ?thesis
    by (simp add: trim_def trim_end_def trim_start_fix trim_end_rev_fix)
qed

lemma digit_char_facts:
  assumes "d < 16"
  shows "digit_of 16 (digit_char d) = Some d \<and> is_ascii_alphanumeric (digit_char d)"
proof -
  have "list_all (\<lambda>d. digit_of 16 (digit_char d) = Some d \<and> is_ascii_alphanumeric (digit_char d)) [0..<16]"
    by code_simp
  then show ?thesis using assms by (simp add: list_all_iff)
qed

lemma alphanumeric_facts:
  assumes "is_ascii_alphanumeric c"
  shows "byte c < 128 \<and> c \<noteq> CR \<and> c \<noteq> LF \<and> c \<noteq> CHR '';'' \<and> c \<noteq> CHR ''+'' \<and> c \<noteq> CHR '' '' \<and>
    c \<noteq> CHR '':''"
  using assms
  by (auto simp: is_ascii_alphanumeric_def is_ascii_digit_def is_ascii_uppercase_def
      is_ascii_lowercase_def between_def)

lemma parse_digits_append:
  "parse_digits hi radix v (xs @ ys) =
    (case parse_digits hi radix v xs of None \<Rightarrow> None | Some w \<Rightarrow> parse_digits hi radix w ys)"
  by (induction xs arbitrary: v) (auto split: option.splits)

lemma hex_word: "hex n \<noteq> [] \<and> (\<forall>c \<in> set (hex n). is_ascii_alphanumeric c)"
proof (induction n rule: hex.induct)
  case (1 n)
  then show ?case
    by (cases "n < 16") (auto simp: hex.simps[of n] digit_char_facts)
qed

lemma parse_digits_hex: "n \<le> hi \<Longrightarrow> parse_digits hi 16 0 (hex n) = Some n"
proof (induction n rule: hex.induct)
  case (1 n)
  show ?case
  proof (cases "n < 16")
    case True
    then show ?thesis using 1(2) by (simp add: hex.simps[of n] digit_char_facts)
  next
    case False
    then have "parse_digits hi 16 0 (hex (n div 16)) = Some (n div 16)"
      using 1 by (meson div_le_dividend le_trans)
    moreover have "n div 16 * 16 + n mod 16 = n" by presburger
    ultimately show ?thesis
      using 1(2) False by (simp add: hex.simps[of n] parse_digits_append digit_char_facts)
  qed
qed

lemma parse_unsigned_hex: "n \<le> hi \<Longrightarrow> parse_unsigned hi 16 (hex n) = Some n"
  using parse_digits_hex[of n hi] hex_word[of n] alphanumeric_facts
  by (auto simp: parse_unsigned_def simp del: parse_digits.simps split: list.splits)

lemma length_hex: "n < 16 ^ Suc k \<Longrightarrow> length (hex n) \<le> Suc k"
proof (induction k arbitrary: n)
  case (Suc k)
  then have "n div 16 < 16 ^ Suc k" by (simp add: less_mult_imp_div_less mult.commute)
  then show ?case using Suc.IH by (simp add: hex.simps[of n])
qed (simp add: hex.simps)

end
