(* ===== verification/HttpRequest.thy ===== *)
theory HttpRequest
  imports Errors RustStr Contracts
begin

text \<open>
  HTTP/1.1 request parsing and the incremental request buffer
  (\<^verbatim>\<open>edge-core/src/http_request.rs\<close>). \<open>parse_http_request\<close> works on the complete bytes of a
  request, \<open>client_request_push\<close> collects fragments until the bytes of one request are there.
  The lemmas show what an accepted request is guaranteed to satisfy before it reaches
  routing and forwarding, and how the result depends on the way the bytes were cut.
\<close>

section \<open>Data\<close>

record Header =
  hdr_name :: string
  hdr_value :: string

record HttpRequest =
  req_method :: string
  req_path :: string
  req_version :: string
  req_headers :: "Header list"
  req_body :: string

record HttpLimits =
  max_request_line_bytes :: nat
  max_header_bytes :: nat
  max_header_count :: nat
  max_body_bytes :: nat

definition default_http_limits :: HttpLimits where
  "default_http_limits = \<lparr>max_request_line_bytes = 8 * 1024, max_header_bytes = 16 * 1024,
     max_header_count = 100, max_body_bytes = 1024 * 1024\<rparr>"

definition request_header_value :: "HttpRequest \<Rightarrow> string \<Rightarrow> string option" where
  "request_header_value r name =
    map_option hdr_value (find (\<lambda>h. eq_ignore_ascii_case (hdr_name h) name) (req_headers r))"

abbreviation malformed :: "string \<Rightarrow> ('a, AppError) result" where
  "malformed m \<equiv> Err (app_error (Http HttpMalformedRequest) m)"

section \<open>Validators\<close>

definition is_token_char :: "char \<Rightarrow> bool" where
  "is_token_char c \<longleftrightarrow> is_ascii_alphanumeric c \<or> c \<in> set ''!#$%&*+-.^_`|~'' \<or> c = CHR 0x27"

definition is_http_token :: "string \<Rightarrow> bool" where
  "is_http_token s \<longleftrightarrow> s \<noteq> [] \<and> list_all is_token_char s"

definition prohibited_value_byte :: "char \<Rightarrow> bool" where
  "prohibited_value_byte c \<longleftrightarrow> between 0 8 c \<or> between 10 31 c \<or> byte c = 127"

definition contains_prohibited_http_field_value_control :: "string \<Rightarrow> bool" where
  "contains_prohibited_http_field_value_control s \<longleftrightarrow> list_ex prohibited_value_byte s"

definition contains_prohibited_request_target_control :: "string \<Rightarrow> bool" where
  "contains_prohibited_request_target_control s \<longleftrightarrow> list_ex (\<lambda>c. byte c \<le> 31 \<or> byte c = 127) s"

definition validate_header_value :: "string \<Rightarrow> unit app" where
  "validate_header_value v =
    (if contains_prohibited_http_field_value_control v
     then malformed ''header value contains prohibited control byte'' else Ok ())"

definition validate_request_line :: "string \<Rightarrow> (string \<times> string \<times> string) app" where
  "validate_request_line line =
    (case split_whitespace line of
       [] \<Rightarrow> malformed ''missing method''
     | [_] \<Rightarrow> malformed ''missing path''
     | [_, _] \<Rightarrow> malformed ''missing version''
     | method # path # version # rest \<Rightarrow>
         if rest \<noteq> [] then malformed ''request line has unexpected trailing token''
         else if \<not> is_http_token method then malformed ''request method is not an HTTP token''
         else if contains_prohibited_request_target_control path
         then malformed ''request target contains prohibited control byte''
         else if version \<noteq> ''HTTP/1.1'' then malformed ''unsupported HTTP version''
         else if eq_ignore_ascii_case method ''CONNECT''
         then Err (app_error (Http HttpConnectMethodRejected) ''CONNECT is not supported'')
         else Ok (method, path, version))"

definition host_values :: "Header list \<Rightarrow> string list" where
  "host_values hs = map (\<lambda>h. trim (hdr_value h)) (filter (\<lambda>h. eq_ignore_ascii_case (hdr_name h) ''Host'') hs)"

definition validate_http11_host_authority :: "Header list \<Rightarrow> unit app" where
  "validate_http11_host_authority hs =
    (case host_values hs of
       [] \<Rightarrow> malformed ''HTTP/1.1 request requires one Host header''
     | host # others \<Rightarrow>
         if host = [] \<or> others \<noteq> []
         then malformed ''HTTP/1.1 request Host header is invalid or ambiguous''
         else Ok ())"

fun body_len_loop :: "nat option \<Rightarrow> bool \<Rightarrow> Header list \<Rightarrow> (nat option \<times> bool) app" where
  "body_len_loop cl te [] = Ok (cl, te)"
| "body_len_loop cl te (h # hs) =
    (let te = te \<or> (eq_ignore_ascii_case (hdr_name h) ''Transfer-Encoding'' \<and> trim (hdr_value h) \<noteq> [])
     in if eq_ignore_ascii_case (hdr_name h) ''Content-Length''
        then case parse_usize (trim (hdr_value h)) of
               None \<Rightarrow> malformed ''invalid content length''
             | Some parsed \<Rightarrow>
                 (case cl of
                    Some existing \<Rightarrow>
                      if existing \<noteq> parsed
                      then Err (app_error (Http HttpTransferEncodingContentLengthConflict)
                             ''conflicting content length headers'')
                      else body_len_loop cl te hs
                  | None \<Rightarrow> body_len_loop (Some parsed) te hs)
        else body_len_loop cl te hs)"

definition expected_request_body_len_from_headers :: "Header list \<Rightarrow> nat app" where
  "expected_request_body_len_from_headers hs =
    rbind (body_len_loop None False hs) (\<lambda>(cl, te).
      if te \<and> cl \<noteq> None
      then Err (app_error (Http HttpTransferEncodingContentLengthConflict) ''ambiguous transfer length'')
      else if te then malformed ''transfer encoding is not supported by the MVP runtime''
      else Ok (case cl of None \<Rightarrow> 0 | Some n \<Rightarrow> n))"

section \<open>Parsing a complete request\<close>

fun parse_header_lines :: "nat \<Rightarrow> Header list \<Rightarrow> string list \<Rightarrow> Header list app" where
  "parse_header_lines limit acc [] = Ok acc"
| "parse_header_lines limit acc (line # lines) =
    (if limit \<le> length acc then Err (app_error (Http HttpHeaderTooLarge) ''too many headers'')
     else case split_once CHR '':'' line of
       None \<Rightarrow> malformed ''malformed header''
     | Some (name, value) \<Rightarrow>
         if \<not> is_http_token name then malformed ''header name is invalid''
         else rbind (validate_header_value value) (\<lambda>_.
           parse_header_lines limit (acc @ [\<lparr>hdr_name = trim name, hdr_value = trim value\<rparr>]) lines))"

definition parse_http_request :: "string \<Rightarrow> HttpLimits \<Rightarrow> HttpRequest app" where
  "parse_http_request input limits =
    (case find_sub (crlf @ crlf) input of
       None \<Rightarrow> malformed ''missing header end''
     | Some header_end \<Rightarrow>
         let header_bytes = take header_end input; body = drop (header_end + 4) input in
         if max_header_bytes limits < length header_bytes
         then Err (app_error (Http HttpHeaderTooLarge) ''headers exceed limit'')
         else if max_body_bytes limits < length body
         then Err (app_error (Http HttpRequestBodyTooLarge) ''body exceeds limit'')
         else if \<not> utf8_valid header_bytes then malformed ''headers are not UTF-8''
         else case split_crlf header_bytes of
           [] \<Rightarrow> malformed ''missing request line''
         | request_line # lines \<Rightarrow>
             if max_request_line_bytes limits < length request_line
             then Err (app_error (Http HttpRequestLineTooLarge) ''request line exceeds limit'')
             else rbind (validate_request_line request_line) (\<lambda>(method, path, version).
               rbind (parse_header_lines (max_header_count limits) [] lines) (\<lambda>headers.
               rbind (validate_http11_host_authority headers) (\<lambda>_.
               rbind (expected_request_body_len_from_headers headers) (\<lambda>expected.
                 if max_body_bytes limits < expected
                 then Err (app_error (Http HttpRequestBodyTooLarge) ''body exceeds limit'')
                 else if length body \<noteq> expected
                 then malformed ''content length does not match body''
                 else Ok \<lparr>req_method = method, req_path = path, req_version = version,
                          req_headers = headers, req_body = body\<rparr>)))))"

section \<open>The incremental buffer\<close>

fun lenient_header_lines :: "Header list \<Rightarrow> string list \<Rightarrow> Header list app" where
  "lenient_header_lines acc [] = Ok acc"
| "lenient_header_lines acc (line # lines) =
    (if line = [] then lenient_header_lines acc lines
     else case split_once CHR '':'' line of
       None \<Rightarrow> malformed ''malformed header''
     | Some (name, value) \<Rightarrow>
         rbind (validate_header_value value) (\<lambda>_.
           lenient_header_lines (acc @ [\<lparr>hdr_name = trim name, hdr_value = trim value\<rparr>]) lines))"

definition expected_request_body_len_from_header_bytes :: "string \<Rightarrow> nat app" where
  "expected_request_body_len_from_header_bytes header_bytes =
    (if \<not> utf8_valid header_bytes then malformed ''headers are not UTF-8''
     else case split_crlf header_bytes of
       [] \<Rightarrow> malformed ''missing request line''
     | request_line # lines \<Rightarrow>
         rbind (validate_request_line request_line) (\<lambda>_.
         rbind (lenient_header_lines [] lines) expected_request_body_len_from_headers))"

datatype RequestReadOutcome = Incomplete | Complete string

record ClientRequestBuffer =
  crb_bytes :: string
  crb_header_end :: "nat option"

definition empty_request_buffer :: ClientRequestBuffer where
  "empty_request_buffer = \<lparr>crb_bytes = [], crb_header_end = None\<rparr>"

definition client_request_push ::
  "string \<Rightarrow> HttpLimits \<Rightarrow> ClientRequestBuffer \<Rightarrow> RequestReadOutcome app \<times> ClientRequestBuffer" where
  "client_request_push chunk limits b =
    (let bytes = crb_bytes b @ chunk;
         header_end = (case crb_header_end b of
             Some n \<Rightarrow> Some n
           | None \<Rightarrow> map_option (\<lambda>p. p + 4) (find_sub (crlf @ crlf) bytes));
         b = \<lparr>crb_bytes = bytes, crb_header_end = header_end\<rparr>
     in case header_end of
       None \<Rightarrow>
         if max_header_bytes limits < length bytes
         then (Err (app_error (Http HttpHeaderTooLarge) ''headers exceed limit''), b)
         else (Ok Incomplete, b)
     | Some he \<Rightarrow>
         if max_header_bytes limits < he - 4
         then (Err (app_error (Http HttpHeaderTooLarge) ''headers exceed limit''), b)
         else case expected_request_body_len_from_header_bytes (take (he - 4) bytes) of
           Err e \<Rightarrow> (Err e, b)
         | Ok expected \<Rightarrow>
             if max_body_bytes limits < expected
             then (Err (app_error (Http HttpRequestBodyTooLarge) ''body exceeds limit''), b)
             else if wrap64 (he + max_body_bytes limits) < length bytes
             then (Err (app_error (Http HttpRequestBodyTooLarge)
                     ''request exceeds configured body limit''), b)
             else if wrap64 (he + expected) \<le> length bytes
             then (Ok (Complete bytes), \<lparr>crb_bytes = [], crb_header_end = None\<rparr>)
             else (Ok Incomplete, b))"

section \<open>What an accepted request satisfies\<close>

lemma ws_char_in:
  assumes "w \<in> set ws_chars"
  shows "starts_with w s \<Longrightarrow> hd w \<in> set s" "starts_with (rev w) s \<Longrightarrow> last w \<in> set s"
proof -
  have ne: "w \<noteq> []" using ws_chars_nonempty[OF assms] .
  show "starts_with w s \<Longrightarrow> hd w \<in> set s"
    using ne by (auto simp: starts_with_iff)
  show "starts_with (rev w) s \<Longrightarrow> last w \<in> set s"
    using ne by (auto simp: starts_with_iff)
qed

lemma trim_clean:
  assumes "\<And>w. w \<in> set ws_chars \<Longrightarrow> hd w \<notin> set s \<and> last w \<notin> set s"
  shows "trim s = s"
proof -
  have "ws_len s = 0" using assms ws_char_in(1) unfolding ws_len_0_iff by blast
  moreover have "find (\<lambda>w. starts_with (rev w) (rev s)) ws_chars = None"
    unfolding find_None_iff using assms ws_char_in(2)[of _ "rev s"] by fastforce
  then have "ws_len_rev (rev s) = 0" by (simp add: ws_len_rev_def)
  ultimately show ?thesis
    by (simp add: trim_def trim_end_def trim_start_fix trim_end_rev_fix)
qed

lemma ws_chars_not_token: "list_all (\<lambda>w. \<not> is_token_char (hd w) \<and> \<not> is_token_char (last w)) ws_chars"
  by code_simp

lemma token_trim [simp]: "is_http_token s \<Longrightarrow> trim s = s"
  using ws_chars_not_token
  by (intro trim_clean) (auto simp: is_http_token_def list_all_iff)

lemma ascii_ws_len: "byte c = 32 \<or> between 9 13 c \<Longrightarrow> 0 < ws_len (c # s)"
proof -
  assume "byte c = 32 \<or> between 9 13 c"
  then have "byte c \<in> {9, 10, 11, 12, 13, 32}" by (auto simp: between_def)
  then have "byte c \<in> byte ` {CHR 0x09, CHR 0x0A, CHR 0x0B, CHR 0x0C, CHR 0x0D, CHR 0x20}" by simp
  moreover have "inj (of_char :: char \<Rightarrow> nat)" by (rule injI) simp
  ultimately have "c \<in> {CHR 0x09, CHR 0x0A, CHR 0x0B, CHR 0x0C, CHR 0x0D, CHR 0x20}"
    by (meson inj_image_mem_iff)
  then have "[c] \<in> set ws_chars" by (auto simp: ws_chars_def)
  then show ?thesis using ws_len_0_iff[of "c # s"] by fastforce
qed

lemma word_span_no_ws: "c \<in> set (fst (word_span s)) \<Longrightarrow> byte c \<noteq> 32 \<and> \<not> between 9 13 c"
proof (induction s)
  case (Cons d s)
  then show ?case
    using ascii_ws_len[of d s] by (auto split: if_splits prod.splits)
qed simp

lemma split_whitespace_word:
  "w \<in> set (split_whitespace s) \<Longrightarrow> w \<noteq> [] \<and> (\<forall>c \<in> set w. byte c \<noteq> 32 \<and> \<not> between 9 13 c)"
proof (induction s rule: split_whitespace.induct)
  case (1 s)
  let ?t = "trim_start s"
  show ?case
  proof (cases "?t = []")
    case True
    then show ?thesis using 1(2) by (subst (asm) split_whitespace.simps) simp
  next
    case False
    have "fst (word_span ?t) \<noteq> []"
      using False trim_start_no_ws[of s] by (cases ?t) (auto split: prod.splits)
    then show ?thesis
      using 1 False word_span_no_ws
      by (subst (asm) (2) split_whitespace.simps) (auto simp: Let_def)
  qed
qed

lemma validate_request_line_Ok:
  assumes "validate_request_line line = Ok (m, p, v)"
  shows "is_http_token m \<and> \<not> eq_ignore_ascii_case m ''CONNECT'' \<and> v = ''HTTP/1.1'' \<and> p \<noteq> [] \<and>
    (\<forall>c \<in> set p. 32 < byte c \<and> byte c \<noteq> 127)"
proof -
  have sp: "split_whitespace line = [m, p, v]" and tok: "is_http_token m"
    and tgt: "\<not> contains_prohibited_request_target_control p" and v: "v = ''HTTP/1.1''"
    and con: "\<not> eq_ignore_ascii_case m ''CONNECT''"
    using assms unfolding validate_request_line_def by (auto split: list.splits if_splits)
  have "p \<noteq> []" and ws: "\<forall>c \<in> set p. byte c \<noteq> 32" using split_whitespace_word[of p line] sp by auto
  have "32 < byte c \<and> byte c \<noteq> 127" if "c \<in> set p" for c
  proof -
    have "\<not> (byte c \<le> 31 \<or> byte c = 127)" "byte c \<noteq> 32"
      using tgt ws that by (auto simp: contains_prohibited_request_target_control_def list_ex_iff)
    then show ?thesis by linarith
  qed
  then show ?thesis using tok con v \<open>p \<noteq> []\<close> by blast
qed

lemma parse_header_lines_Ok:
  "parse_header_lines limit acc lines = Ok hs \<Longrightarrow>
    (\<exists>new. hs = acc @ new \<and> length new = length lines \<and>
      list_all (\<lambda>h. is_http_token (hdr_name h) \<and>
        \<not> contains_prohibited_http_field_value_control (hdr_value h) \<and>
        trim (hdr_value h) = hdr_value h) new) \<and> (lines \<noteq> [] \<longrightarrow> length hs \<le> limit)"
proof (induction limit acc lines rule: parse_header_lines.induct)
  case (2 limit acc line lines)
  obtain name val where nv: "split_once CHR '':'' line = Some (name, val)"
      "is_http_token name" "\<not> limit \<le> length acc" "\<not> contains_prohibited_http_field_value_control val"
    using 2(2) by (auto simp: validate_header_value_def split: if_splits option.splits)
  let ?h = "\<lparr>hdr_name = trim name, hdr_value = trim val\<rparr>"
  have run: "parse_header_lines limit (acc @ [?h]) lines = Ok hs"
    using 2(2) nv by (simp add: validate_header_value_def)
  from 2(1)[OF nv(3,1) refl _ run] nv obtain new
    where new: "hs = (acc @ [?h]) @ new" "length new = length lines"
      "list_all (\<lambda>h. is_http_token (hdr_name h) \<and>
        \<not> contains_prohibited_http_field_value_control (hdr_value h) \<and>
        trim (hdr_value h) = hdr_value h) new" "lines \<noteq> [] \<longrightarrow> length hs \<le> limit"
    by (auto simp: validate_header_value_def)
  have "\<not> contains_prohibited_http_field_value_control (trim val)"
    using nv(4) set_trim[of val]
    by (auto simp: contains_prohibited_http_field_value_control_def list_ex_iff)
  then show ?case using new nv by (cases lines) auto
qed simp

definition content_lengths :: "Header list \<Rightarrow> nat option list" where
  "content_lengths hs = map (\<lambda>h. parse_usize (trim (hdr_value h)))
     (filter (\<lambda>h. eq_ignore_ascii_case (hdr_name h) ''Content-Length'') hs)"

definition has_transfer_encoding :: "Header list \<Rightarrow> bool" where
  "has_transfer_encoding hs \<longleftrightarrow>
    list_ex (\<lambda>h. eq_ignore_ascii_case (hdr_name h) ''Transfer-Encoding'' \<and> trim (hdr_value h) \<noteq> []) hs"

lemma body_len_loop_Ok:
  "body_len_loop cl te hs = Ok (cl', te') \<Longrightarrow>
    te' = (te \<or> has_transfer_encoding hs) \<and> (\<forall>x \<in> set (content_lengths hs). x = cl' \<and> x \<noteq> None) \<and>
    (cl \<noteq> None \<longrightarrow> cl' = cl) \<and> (cl = None \<longrightarrow> content_lengths hs = [] \<longrightarrow> cl' = None)"
proof (induction cl te hs rule: body_len_loop.induct)
  case (2 cl te h hs)
  show ?case
  proof (cases "eq_ignore_ascii_case (hdr_name h) ''Content-Length''")
    case False
    then show ?thesis using 2(3)[OF refl False] 2(4)
      by (auto simp: has_transfer_encoding_def content_lengths_def Let_def)
  next
    case True
    then obtain n where n: "parse_usize (trim (hdr_value h)) = Some n"
      using 2(4) by (auto simp: Let_def split: option.splits)
    show ?thesis
    proof (cases cl)
      case None
      then show ?thesis using 2(1)[OF refl True n None] 2(4) True n
        by (auto simp: has_transfer_encoding_def content_lengths_def Let_def)
    next
      case (Some m)
      then have "m = n" using 2(4) True n by (auto simp: Let_def split: if_splits)
      then show ?thesis using 2(2)[OF refl True n Some] 2(4) True n Some
        by (auto simp: has_transfer_encoding_def content_lengths_def Let_def)
    qed
  qed
qed (simp add: has_transfer_encoding_def content_lengths_def)

lemma expected_body_len_Ok:
  assumes "expected_request_body_len_from_headers hs = Ok n"
  shows "\<not> has_transfer_encoding hs \<and> (\<forall>x \<in> set (content_lengths hs). x = Some n) \<and>
    (content_lengths hs = [] \<longrightarrow> n = 0)"
proof -
  obtain cl te where loop: "body_len_loop None False hs = Ok (cl, te)"
    using assms by (auto simp: expected_request_body_len_from_headers_def rbind_Ok_iff)
  with assms have "\<not> te" "n = (case cl of None \<Rightarrow> 0 | Some n \<Rightarrow> n)"
    by (auto simp: expected_request_body_len_from_headers_def split: if_splits)
  then show ?thesis using body_len_loop_Ok[OF loop] by (auto split: option.splits)
qed

definition request_is_safe :: "HttpLimits \<Rightarrow> HttpRequest \<Rightarrow> bool" where
  "request_is_safe limits r \<longleftrightarrow>
    is_http_token (req_method r) \<and> \<not> eq_ignore_ascii_case (req_method r) ''CONNECT'' \<and>
    req_version r = ''HTTP/1.1'' \<and>
    req_path r \<noteq> [] \<and> (\<forall>c \<in> set (req_path r). 32 < byte c \<and> byte c \<noteq> 127) \<and>
    (\<forall>h \<in> set (req_headers r). is_http_token (hdr_name h) \<and>
       \<not> contains_prohibited_http_field_value_control (hdr_value h)) \<and>
    length (req_headers r) \<le> max_header_count limits \<and>
    (\<exists>host. host_values (req_headers r) = [host] \<and> host \<noteq> []) \<and>
    \<not> has_transfer_encoding (req_headers r) \<and>
    (\<forall>x \<in> set (content_lengths (req_headers r)). x = Some (length (req_body r))) \<and>
    (content_lengths (req_headers r) = [] \<longrightarrow> req_body r = []) \<and>
    length (req_body r) \<le> max_body_bytes limits"


definition sample_request :: string where
  "sample_request = ''POST /a HTTP/1.1'' @ crlf @ ''Host: x'' @ crlf @ ''Content-Length: 2'' @ crlf @ crlf @ ''hi''"

lemma sample_request_parsed:
  "parse_http_request sample_request default_http_limits =
    Ok \<lparr>req_method = ''POST'', req_path = ''/a'', req_version = ''HTTP/1.1'',
       req_headers = [\<lparr>hdr_name = ''Host'', hdr_value = ''x''\<rparr>,
         \<lparr>hdr_name = ''Content-Length'', hdr_value = ''2''\<rparr>], req_body = ''hi''\<rparr>"
  by code_simp



section \<open>Fragments\<close>

lemma starts_with_append_iff:
  "length p \<le> length s \<Longrightarrow> starts_with p (s @ t) = starts_with p s"
  by (induction p s rule: starts_with.induct) auto

lemma find_sub_append: "find_sub p s = Some i \<Longrightarrow> find_sub p (s @ t) = Some i"
proof (induction s arbitrary: i)
  case (Cons c s)
  show ?case
  proof (cases "starts_with p (c # s)")
    case True
    then show ?thesis using Cons.prems starts_with_append[OF True, of t] by simp
  next
    case False
    then obtain k where k: "find_sub p s = Some k" "i = Suc k" using Cons.prems by auto
    have "length p \<le> length (c # s)"
      using find_sub_Some[OF k(1)] starts_with_length[of p "drop k s"] by simp
    then have "\<not> starts_with p ((c # s) @ t)" using False starts_with_append_iff by blast
    then show ?thesis using Cons.IH[OF k(1)] k(2) by simp
  qed
qed simp

definition request_buffer_inv :: "ClientRequestBuffer \<Rightarrow> bool" where
  "request_buffer_inv b \<longleftrightarrow>
    crb_header_end b = map_option (\<lambda>p. p + 4) (find_sub (crlf @ crlf) (crb_bytes b))"

lemma push_header_end:
  assumes "request_buffer_inv b"
  shows "(case crb_header_end b of Some n \<Rightarrow> Some n
      | None \<Rightarrow> map_option (\<lambda>p. p + 4) (find_sub (crlf @ crlf) (crb_bytes b @ chunk))) =
    map_option (\<lambda>p. p + 4) (find_sub (crlf @ crlf) (crb_bytes b @ chunk))"
  using assms find_sub_append[of "crlf @ crlf" "crb_bytes b" _ chunk]
  by (auto simp: request_buffer_inv_def split: option.splits)

lemma empty_request_buffer_inv: "request_buffer_inv empty_request_buffer"
  by (simp add: request_buffer_inv_def empty_request_buffer_def)

lemma push_by_bytes:
  assumes "request_buffer_inv b"
  shows "client_request_push chunk limits b =
    client_request_push (crb_bytes b @ chunk) limits empty_request_buffer"
proof -
  have "crb_bytes empty_request_buffer @ crb_bytes b @ chunk = crb_bytes b @ chunk"
    by (simp add: empty_request_buffer_def)
  then show ?thesis
    unfolding client_request_push_def Let_def push_header_end[OF assms]
      push_header_end[OF empty_request_buffer_inv] by (simp only:)
qed

lemma push_incomplete:
  assumes "request_buffer_inv b" "client_request_push chunk limits b = (Ok Incomplete, b')"
  shows "crb_bytes b' = crb_bytes b @ chunk \<and> request_buffer_inv b'"
  using assms push_header_end[OF assms(1), of chunk]
  by (auto simp: client_request_push_def request_buffer_inv_def Let_def
      split: if_splits option.splits result.splits)

interpretation request_buffer: chunked_reader request_buffer_inv
  "\<lambda>chunk. client_request_push chunk limits" "\<lambda>r. r = Ok Incomplete" for limits
proof (unfold_locales, goal_cases)
  case (1 s a r s')
  then show ?case using push_incomplete by blast
next
  case (2 s a r s' b)
  then have "crb_bytes s' = crb_bytes s @ a" "request_buffer_inv s'"
    using push_incomplete by blast+
  then show ?case
    using push_by_bytes[of s' b limits] push_by_bytes[OF 2(1), of "a @ b" limits] by simp
qed

text \<open>
  C6: The bytes of a request that arrives in pieces are handed on exactly as they were sent: when
  feeding the chunks completes a request, its bytes are the concatenation of the chunks read so
  far, and pushing them at once gives the same outcome; and while the buffer asks for more, its
  state is the one a single push of everything would have left.
\<close>

theorem request_fragments_reassemble:
  fixes limits :: HttpLimits
  defines "feeding \<equiv> feed (\<lambda>chunk. client_request_push chunk limits) (\<lambda>r. r = Ok Incomplete)"
  shows "(\<exists>k \<le> length ds. feeding c ds empty_request_buffer =
      client_request_push (c @ concat (take k ds)) limits empty_request_buffer) \<and>
    (\<forall>bytes b. feeding c ds empty_request_buffer = (Ok (Complete bytes), b) \<longrightarrow>
      (\<exists>k \<le> length ds. bytes = c @ concat (take k ds)) \<and> b = empty_request_buffer) \<and>
    (fst (feeding c ds empty_request_buffer) = Ok Incomplete \<longrightarrow>
      feeding c ds empty_request_buffer =
        client_request_push (c @ concat ds) limits empty_request_buffer)"
proof -
  note inv = empty_request_buffer_inv
  have complete: "bytes = chunk \<and> b = empty_request_buffer"
    if "client_request_push chunk limits empty_request_buffer = (Ok (Complete bytes), b)"
    for chunk bytes b
    using that by (auto simp: client_request_push_def empty_request_buffer_def Let_def
        split: if_splits option.splits result.splits)
  obtain k where k: "k \<le> length ds" "feeding c ds empty_request_buffer =
      client_request_push (c @ concat (take k ds)) limits empty_request_buffer"
    using request_buffer.feed_is_push[OF inv] unfolding feeding_def by blast
  then show ?thesis
    using complete request_buffer.feed_whole[OF inv, of limits c ds] unfolding feeding_def by auto
qed

theorem request_fragments_reassemble_witness:
  "feed (\<lambda>chunk. client_request_push chunk default_http_limits) (\<lambda>r. r = Ok Incomplete)
     (take 20 sample_request) [drop 20 sample_request] empty_request_buffer =
   (Ok (Complete sample_request), empty_request_buffer)"
proof -
  let ?f = "feed (\<lambda>chunk. client_request_push chunk default_http_limits) (\<lambda>r. r = Ok Incomplete)
     (take 20 sample_request) [drop 20 sample_request] empty_request_buffer"
  have "fst ?f = Ok (Complete sample_request)" by code_simp
  then have "?f = (Ok (Complete sample_request), snd ?f)" by (metis prod.collapse)
  then show ?thesis using request_fragments_reassemble by metis
qed

definition tight_limits :: HttpLimits where
  "tight_limits = default_http_limits\<lparr>max_header_bytes := 23\<rparr>"


end
