(* ===== verification/Connection.thy ===== *)
theory Connection
  imports HttpRequest
begin

text \<open>
  One client connection (\<^verbatim>\<open>connection_state.rs\<close>, \<^verbatim>\<open>connection_io.rs\<close>, \<^verbatim>\<open>upstream_attempt.rs\<close>
  and \<^verbatim>\<open>write_buffer.rs\<close> of \<^verbatim>\<open>edge-core/src\<close>): its lifecycle state machine, the write buffers,
  the progress of the current upstream attempt, and \<open>HttpConnectionIo\<close>, which moves them together.

  An operation maps the state to its result and the state after it. Growing a vector can fail in
  the source (\<^verbatim>\<open>try_reserve_exact\<close>); whether it does, when there is something to allocate, is an
  argument \<open>mem\<close> of the operations. \<open>io_inv\<close> relates the lifecycle state, the attempt and the buffers, and holds in every
  state that \<open>io_step\<close> reaches.
\<close>

section \<open>Lifecycle\<close>

datatype ConnectionState =
    Accepted | ReadingClientRequest | SelectingRoute | ConnectingUpstream | HandshakingUpstreamTls
  | WritingUpstreamRequest | ReadingUpstreamResponse | WritingClientResponse | TunnelingWebSocket
  | Draining | Closed | Failed

definition can_transition_to :: "ConnectionState \<Rightarrow> ConnectionState \<Rightarrow> bool" where
  "can_transition_to s n \<longleftrightarrow>
    (s, n) \<in> {(ConnectionState.Accepted, ReadingClientRequest),
      (ConnectionState.Accepted, WritingClientResponse),
      (ReadingClientRequest, SelectingRoute), (ReadingClientRequest, WritingClientResponse),
      (SelectingRoute, ConnectingUpstream), (SelectingRoute, WritingClientResponse),
      (ConnectingUpstream, WritingUpstreamRequest), (ConnectingUpstream, HandshakingUpstreamTls),
      (HandshakingUpstreamTls, WritingUpstreamRequest), (HandshakingUpstreamTls, WritingClientResponse),
      (ConnectingUpstream, WritingClientResponse), (WritingUpstreamRequest, ReadingUpstreamResponse),
      (WritingUpstreamRequest, WritingClientResponse), (ReadingUpstreamResponse, WritingClientResponse),
      (ReadingUpstreamResponse, TunnelingWebSocket), (WritingClientResponse, ReadingClientRequest),
      (WritingClientResponse, Draining), (TunnelingWebSocket, Draining)} \<or>
    n = Closed \<or> n = ConnectionState.Failed"

record ConnectionInterest =
  client_readable :: bool
  client_writable :: bool
  upstream_readable :: bool
  upstream_writable :: bool

definition no_interest :: ConnectionInterest where
  "no_interest = \<lparr>client_readable = False, client_writable = False,
     upstream_readable = False, upstream_writable = False\<rparr>"

definition io_interest :: "ConnectionState \<Rightarrow> ConnectionInterest" where
  "io_interest s =
    (case s of
       ConnectionState.Accepted \<Rightarrow> no_interest\<lparr>client_readable := True\<rparr>
     | ReadingClientRequest \<Rightarrow> no_interest\<lparr>client_readable := True\<rparr>
     | ConnectingUpstream \<Rightarrow> no_interest\<lparr>upstream_writable := True\<rparr>
     | WritingUpstreamRequest \<Rightarrow> no_interest\<lparr>upstream_writable := True\<rparr>
     | HandshakingUpstreamTls \<Rightarrow> no_interest\<lparr>upstream_readable := True, upstream_writable := True\<rparr>
     | ReadingUpstreamResponse \<Rightarrow> no_interest\<lparr>upstream_readable := True\<rparr>
     | WritingClientResponse \<Rightarrow> no_interest\<lparr>client_writable := True\<rparr>
     | TunnelingWebSocket \<Rightarrow> no_interest\<lparr>client_readable := True, upstream_readable := True\<rparr>
     | _ \<Rightarrow> no_interest)"

datatype RouteSelectionTarget = Proxy | ImmediateResponse | WebSocketTunnel

datatype ConnectionEvent =
    ClientReadable | ClientWritable | ClientResponseCompleted | UpstreamConnectReady
  | UpstreamTlsHandshakeStarted | UpstreamTlsEstablished | UpstreamReadable | UpstreamWritable
  | RequestParsed | RouteSelected RouteSelectionTarget | TimeoutExpired | ClientClosed
  | UpstreamClosed | CommandShutdown | IoError

datatype ConnectionTimeoutKind =
    ClientIdle | UpstreamConnect | UpstreamTlsHandshake | UpstreamRead | ClientWrite

record ConnectionTimeoutDecision =
  timeout_kind :: ConnectionTimeoutKind
  timeout_status_code :: "nat option"
  timeout_reason :: string
  timeout_next_state :: ConnectionState

definition timeout_to ::
  "ConnectionTimeoutKind \<Rightarrow> nat option \<Rightarrow> string \<Rightarrow> ConnectionState \<Rightarrow> ConnectionTimeoutDecision option" where
  "timeout_to k code reason n = Some \<lparr>timeout_kind = k, timeout_status_code = code,
     timeout_reason = reason, timeout_next_state = n\<rparr>"

definition timeout_decision_for_state :: "ConnectionState \<Rightarrow> ConnectionTimeoutDecision option" where
  "timeout_decision_for_state s =
    (case s of
       ConnectionState.Accepted \<Rightarrow> timeout_to ClientIdle (Some 408) ''Request Timeout'' WritingClientResponse
     | ReadingClientRequest \<Rightarrow> timeout_to ClientIdle (Some 408) ''Request Timeout'' WritingClientResponse
     | ConnectingUpstream \<Rightarrow>
         timeout_to UpstreamConnect (Some 504) ''Gateway Timeout'' WritingClientResponse
     | HandshakingUpstreamTls \<Rightarrow>
         timeout_to UpstreamTlsHandshake (Some 504) ''Gateway Timeout'' WritingClientResponse
     | WritingUpstreamRequest \<Rightarrow>
         timeout_to UpstreamRead (Some 504) ''Gateway Timeout'' WritingClientResponse
     | ReadingUpstreamResponse \<Rightarrow>
         timeout_to UpstreamRead (Some 504) ''Gateway Timeout'' WritingClientResponse
     | WritingClientResponse \<Rightarrow>
         timeout_to ClientWrite None ''Client Write Timeout'' ConnectionState.Failed
     | _ \<Rightarrow> None)"

abbreviation rejected :: "string \<Rightarrow> ('a, AppError) result" where
  "rejected m \<equiv> Err (app_error (Runtime RuntimeCommandRejected) m)"

definition transition_to :: "ConnectionState \<Rightarrow> ConnectionState \<Rightarrow> unit app \<times> ConnectionState" where
  "transition_to n s =
    (if \<not> can_transition_to s n then (rejected ''invalid connection state transition'', s)
     else (Ok (), n))"

definition event_target :: "ConnectionState \<Rightarrow> ConnectionEvent \<Rightarrow> ConnectionState option" where
  "event_target s e =
    (if e = IoError then Some ConnectionState.Failed
     else if e = ClientClosed \<or> e = CommandShutdown then Some Closed
     else case s of
       ConnectionState.Accepted \<Rightarrow> if e = ClientReadable then Some ReadingClientRequest else None
     | ReadingClientRequest \<Rightarrow> if e = RequestParsed then Some SelectingRoute else None
     | SelectingRoute \<Rightarrow>
         if e = RouteSelected Proxy then Some ConnectingUpstream
         else if e = RouteSelected ImmediateResponse then Some WritingClientResponse else None
     | ConnectingUpstream \<Rightarrow>
         if e = UpstreamConnectReady then Some WritingUpstreamRequest
         else if e = UpstreamTlsHandshakeStarted then Some HandshakingUpstreamTls else None
     | HandshakingUpstreamTls \<Rightarrow>
         if e = UpstreamTlsEstablished then Some WritingUpstreamRequest else None
     | WritingUpstreamRequest \<Rightarrow>
         if e = UpstreamWritable then Some ReadingUpstreamResponse else None
     | ReadingUpstreamResponse \<Rightarrow>
         if e = UpstreamReadable then Some WritingClientResponse
         else if e = RouteSelected WebSocketTunnel then Some TunnelingWebSocket else None
     | WritingClientResponse \<Rightarrow>
         if e = ClientResponseCompleted then Some ReadingClientRequest
         else if e = ClientWritable then Some Draining else None
     | Draining \<Rightarrow> if e = UpstreamClosed then Some Closed else None
     | _ \<Rightarrow> None)"

definition handle_timeout :: "ConnectionState \<Rightarrow> ConnectionTimeoutDecision option \<times> ConnectionState" where
  "handle_timeout s =
    (case timeout_decision_for_state s of None \<Rightarrow> (None, s) | Some d \<Rightarrow> (Some d, timeout_next_state d))"

definition handle_event :: "ConnectionEvent \<Rightarrow> ConnectionState \<Rightarrow> unit app \<times> ConnectionState" where
  "handle_event e s =
    (if e = TimeoutExpired
     then case handle_timeout s of
            (None, s) \<Rightarrow> (rejected ''no timeout policy for current connection state'', s)
          | (Some _, s) \<Rightarrow> (Ok (), s)
     else case event_target s e of
       None \<Rightarrow> (rejected ''event is not valid for current connection state'', s)
     | Some n \<Rightarrow> transition_to n s)"

section \<open>Write buffers\<close>

record WriteBuffer =
  wb_bytes :: string
  wb_written :: nat

definition write_buffer_new :: "string \<Rightarrow> WriteBuffer" where
  "write_buffer_new bs = \<lparr>wb_bytes = bs, wb_written = 0\<rparr>"

definition resource_allocation_error :: AppError where
  "resource_allocation_error =
    app_error (Runtime ResourceAllocationFailed) ''managed buffer allocation failed''"

definition try_reserve_append :: "bool \<Rightarrow> nat \<Rightarrow> WriteBuffer \<Rightarrow> unit app" where
  "try_reserve_append mem additional b =
    rbind (ok_or (checked_add (length (wb_bytes b)) additional) resource_allocation_error)
      (\<lambda>_. if mem \<or> additional = 0 then Ok () else Err resource_allocation_error)"

definition try_append :: "bool \<Rightarrow> string \<Rightarrow> WriteBuffer \<Rightarrow> unit app \<times> WriteBuffer" where
  "try_append mem chunk b =
    (case try_reserve_append mem (length chunk) b of
       Err e \<Rightarrow> (Err e, b)
     | Ok _ \<Rightarrow> (Ok (), b\<lparr>wb_bytes := wb_bytes b @ chunk\<rparr>))"

definition wb_remaining :: "WriteBuffer \<Rightarrow> string" where
  "wb_remaining b = drop (wb_written b) (wb_bytes b)"

definition wb_is_complete :: "WriteBuffer \<Rightarrow> bool" where
  "wb_is_complete b \<longleftrightarrow> length (wb_bytes b) \<le> wb_written b"

definition wb_advance :: "nat \<Rightarrow> WriteBuffer \<Rightarrow> nat \<times> WriteBuffer" where
  "wb_advance n b =
    (let advanced = min n (length (wb_remaining b))
     in (advanced, b\<lparr>wb_written := wb_written b + advanced\<rparr>))"

definition clear_if_complete :: "WriteBuffer \<Rightarrow> bool \<times> WriteBuffer" where
  "clear_if_complete b =
    (if \<not> wb_is_complete b \<or> wb_bytes b = [] then (False, b)
     else (True, \<lparr>wb_bytes = [], wb_written = 0\<rparr>))"

definition advance_and_clear_if_complete :: "nat \<Rightarrow> WriteBuffer \<Rightarrow> nat \<times> WriteBuffer" where
  "advance_and_clear_if_complete n b =
    (case wb_advance n b of (advanced, b) \<Rightarrow> (advanced, snd (clear_if_complete b)))"

definition try_replace_if_complete :: "bool \<Rightarrow> string \<Rightarrow> WriteBuffer \<Rightarrow> bool app \<times> WriteBuffer" where
  "try_replace_if_complete mem bs b =
    (if \<not> wb_is_complete b then (Ok False, b)
     else if \<not> mem \<and> 0 < length bs - length (wb_bytes b) then (Err resource_allocation_error, b)
     else (Ok True, \<lparr>wb_bytes = bs, wb_written = 0\<rparr>))"

section \<open>The upstream attempt\<close>

datatype UpstreamAttemptPhase = NotStarted | Writing | AwaitingResponse | ResponseStarted | Terminal

datatype UpstreamAttemptFailure =
    Connect | ConnectTimeout | TlsHandshake | TlsHandshakeTimeout | Write | Read | ReadTimeout
  | ResetBeforeResponse | ResetAfterResponse

datatype UpstreamResponseFailureDisposition = QueueSyntheticResponse | FailClose

datatype UpstreamAttemptTerminal = Succeeded | AttemptFailed UpstreamAttemptFailure

record UpstreamAttemptProgress =
  attempt_phase :: UpstreamAttemptPhase
  request_bytes_written :: nat
  response_started :: bool
  attempt_terminal :: "UpstreamAttemptTerminal option"

definition new_attempt :: UpstreamAttemptProgress where
  "new_attempt = \<lparr>attempt_phase = NotStarted, request_bytes_written = 0, response_started = False,
     attempt_terminal = None\<rparr>"

definition invalid_upstream_attempt_transition :: AppError where
  "invalid_upstream_attempt_transition =
    app_error (Runtime RuntimeCommandRejected) ''invalid upstream attempt transition''"

definition require_phase :: "UpstreamAttemptPhase \<Rightarrow> UpstreamAttemptProgress \<Rightarrow> unit app" where
  "require_phase expected p =
    (if attempt_phase p \<noteq> expected then Err invalid_upstream_attempt_transition else Ok ())"

definition attempt_begin :: "UpstreamAttemptProgress \<Rightarrow> unit app \<times> UpstreamAttemptProgress" where
  "attempt_begin p =
    try_bind (require_phase NotStarted p, p) (\<lambda>_ p. (Ok (), p\<lparr>attempt_phase := Writing\<rparr>))"

definition record_request_write :: "nat \<Rightarrow> UpstreamAttemptProgress \<Rightarrow> unit app \<times> UpstreamAttemptProgress" where
  "record_request_write n p =
    try_bind (require_phase Writing p, p) (\<lambda>_ p.
      (Ok (), p\<lparr>request_bytes_written := saturating_add (request_bytes_written p) n\<rparr>))"

definition request_write_completed :: "UpstreamAttemptProgress \<Rightarrow> unit app \<times> UpstreamAttemptProgress" where
  "request_write_completed p =
    try_bind (require_phase Writing p, p) (\<lambda>_ p. (Ok (), p\<lparr>attempt_phase := AwaitingResponse\<rparr>))"

definition record_response_bytes :: "nat \<Rightarrow> UpstreamAttemptProgress \<Rightarrow> unit app \<times> UpstreamAttemptProgress" where
  "record_response_bytes n p =
    (if attempt_phase p \<notin> {AwaitingResponse, ResponseStarted}
     then (Err invalid_upstream_attempt_transition, p)
     else (Ok (), if 0 < n then p\<lparr>response_started := True, attempt_phase := ResponseStarted\<rparr> else p))"

definition attempt_complete ::
  "UpstreamAttemptTerminal \<Rightarrow> UpstreamAttemptProgress \<Rightarrow> unit app \<times> UpstreamAttemptProgress" where
  "attempt_complete t p =
    (if attempt_terminal p \<noteq> None then (Err invalid_upstream_attempt_transition, p)
     else (Ok (), p\<lparr>attempt_terminal := Some t, attempt_phase := Terminal\<rparr>))"

definition attempt_succeed :: "UpstreamAttemptProgress \<Rightarrow> unit app \<times> UpstreamAttemptProgress" where
  "attempt_succeed p =
    (if attempt_phase p \<notin> {AwaitingResponse, ResponseStarted}
     then (Err invalid_upstream_attempt_transition, p)
     else attempt_complete Succeeded p)"

definition attempt_fail ::
  "UpstreamAttemptFailure \<Rightarrow> UpstreamAttemptProgress \<Rightarrow> unit app \<times> UpstreamAttemptProgress" where
  "attempt_fail f p =
    (if attempt_phase p = Terminal then (Err invalid_upstream_attempt_transition, p)
     else attempt_complete (AttemptFailed f) p)"

definition upstream_failure_response_spec :: "UpstreamAttemptFailure \<Rightarrow> nat \<times> string" where
  "upstream_failure_response_spec f =
    (case f of
       ConnectTimeout \<Rightarrow> (504, ''Gateway Timeout'')
     | UpstreamAttemptFailure.TlsHandshakeTimeout \<Rightarrow> (504, ''Gateway Timeout'')
     | ReadTimeout \<Rightarrow> (504, ''Gateway Timeout'')
     | _ \<Rightarrow> (502, ''Bad Gateway''))"

definition upstream_response_failure_disposition :: "bool \<Rightarrow> UpstreamResponseFailureDisposition" where
  "upstream_response_failure_disposition started = (if started then FailClose else QueueSyntheticResponse)"

section \<open>Buffered connection I/O\<close>

record HttpConnectionIo =
  io_token :: nat
  io_state :: ConnectionState
  io_attempt :: UpstreamAttemptProgress
  io_request :: ClientRequestBuffer
  io_upstream_write :: WriteBuffer
  io_client_write :: WriteBuffer

definition io_new :: "nat \<Rightarrow> HttpConnectionIo" where
  "io_new token = \<lparr>io_token = token, io_state = ConnectionState.Accepted, io_attempt = new_attempt,
     io_request = empty_request_buffer, io_upstream_write = write_buffer_new [],
     io_client_write = write_buffer_new []\<rparr>"

abbreviation invalid_io_state :: "('a, AppError) result" where
  "invalid_io_state \<equiv> rejected ''operation is not valid for current connection state''"

text \<open>Run an operation of a part of the connection and put the part back.\<close>

definition on_state ::
  "(ConnectionState \<Rightarrow> 'a app \<times> ConnectionState) \<Rightarrow> HttpConnectionIo \<Rightarrow> 'a app \<times> HttpConnectionIo" where
  "on_state f io = (case f (io_state io) of (r, s) \<Rightarrow> (r, io\<lparr>io_state := s\<rparr>))"

definition on_attempt ::
  "(UpstreamAttemptProgress \<Rightarrow> 'a app \<times> UpstreamAttemptProgress) \<Rightarrow> HttpConnectionIo
    \<Rightarrow> 'a app \<times> HttpConnectionIo" where
  "on_attempt f io = (case f (io_attempt io) of (r, p) \<Rightarrow> (r, io\<lparr>io_attempt := p\<rparr>))"

definition receive_client_bytes ::
  "string \<Rightarrow> HttpLimits \<Rightarrow> HttpConnectionIo \<Rightarrow> RequestReadOutcome app \<times> HttpConnectionIo" where
  "receive_client_bytes chunk limits io =
    try_bind (if io_state io = ConnectionState.Accepted then on_state (handle_event ClientReadable) io
              else (Ok (), io)) (\<lambda>_ io.
      if io_state io \<noteq> ReadingClientRequest then (invalid_io_state, io)
      else try_bind
        (case client_request_push chunk limits (io_request io) of (r, b) \<Rightarrow> (r, io\<lparr>io_request := b\<rparr>))
        (\<lambda>outcome io. case outcome of
           Incomplete \<Rightarrow> (Ok outcome, io)
         | Complete bytes \<Rightarrow>
             (case parse_http_request bytes limits of
                Err e \<Rightarrow> (Err e, io)
              | Ok _ \<Rightarrow> try_bind (on_state (handle_event RequestParsed) io) (\<lambda>_ io. (Ok outcome, io)))))"

definition begin_upstream_connect :: "HttpConnectionIo \<Rightarrow> unit app \<times> HttpConnectionIo" where
  "begin_upstream_connect io =
    try_bind (on_state (handle_event (RouteSelected Proxy)) io) (\<lambda>_ io. on_attempt attempt_begin io)"

definition upstream_connected :: "string \<Rightarrow> HttpConnectionIo \<Rightarrow> unit app \<times> HttpConnectionIo" where
  "upstream_connected request io =
    (let go = (\<lambda>e. on_state (handle_event e) (io\<lparr>io_upstream_write := write_buffer_new request\<rparr>)) in
     case io_state io of
       ConnectingUpstream \<Rightarrow> go UpstreamConnectReady
     | HandshakingUpstreamTls \<Rightarrow> go UpstreamTlsEstablished
     | _ \<Rightarrow> (invalid_io_state, io))"

definition advance_upstream_write :: "nat \<Rightarrow> HttpConnectionIo \<Rightarrow> nat app \<times> HttpConnectionIo" where
  "advance_upstream_write n io =
    (if io_state io \<noteq> WritingUpstreamRequest then (invalid_io_state, io)
     else case wb_advance n (io_upstream_write io) of (advanced, b) \<Rightarrow>
       try_bind (on_attempt (record_request_write advanced) (io\<lparr>io_upstream_write := b\<rparr>)) (\<lambda>_ io.
         if wb_is_complete (io_upstream_write io)
         then try_bind (on_attempt request_write_completed io) (\<lambda>_ io.
              try_bind (on_state (handle_event UpstreamWritable) io) (\<lambda>_ io.
                (Ok advanced, io\<lparr>io_upstream_write := snd (clear_if_complete (io_upstream_write io))\<rparr>)))
         else (Ok advanced, io)))"

definition receive_upstream_bytes ::
  "bool \<Rightarrow> string \<Rightarrow> HttpConnectionIo \<Rightarrow> nat app \<times> HttpConnectionIo" where
  "receive_upstream_bytes mem chunk io =
    (if io_state io \<noteq> ReadingUpstreamResponse then (invalid_io_state, io)
     else try_bind (case try_append mem chunk (io_client_write io) of (r, b) \<Rightarrow>
                      (r, io\<lparr>io_client_write := b\<rparr>)) (\<lambda>_ io.
          try_bind (on_attempt (record_response_bytes (length chunk)) io) (\<lambda>_ io.
            (Ok (length chunk), io))))"

definition finish_upstream_response :: "HttpConnectionIo \<Rightarrow> unit app \<times> HttpConnectionIo" where
  "finish_upstream_response io =
    try_bind (on_state (handle_event UpstreamReadable) io) (\<lambda>_ io. on_attempt attempt_succeed io)"

definition fail_upstream_attempt ::
  "UpstreamAttemptFailure \<Rightarrow> HttpConnectionIo \<Rightarrow> unit app \<times> HttpConnectionIo" where
  "fail_upstream_attempt f io = on_attempt (attempt_fail f) io"

definition prepare_upstream_retry :: "HttpConnectionIo \<Rightarrow> unit app \<times> HttpConnectionIo" where
  "prepare_upstream_retry io =
    (if io_state io \<notin> {ConnectingUpstream, WritingUpstreamRequest} \<or> attempt_terminal (io_attempt io) = None
     then (Err invalid_upstream_attempt_transition, io)
     else (Ok (), io\<lparr>io_state := SelectingRoute, io_attempt := new_attempt,
                     io_upstream_write := write_buffer_new []\<rparr>))"

definition queue_client_response :: "string \<Rightarrow> HttpConnectionIo \<Rightarrow> unit app \<times> HttpConnectionIo" where
  "queue_client_response response io =
    (if \<not> can_transition_to (io_state io) WritingClientResponse then (invalid_io_state, io)
     else on_state (transition_to WritingClientResponse)
            (io\<lparr>io_client_write := write_buffer_new response\<rparr>))"

definition advance_client_write :: "nat \<Rightarrow> HttpConnectionIo \<Rightarrow> nat app \<times> HttpConnectionIo" where
  "advance_client_write n io =
    (if io_state io \<notin> {ReadingUpstreamResponse, WritingClientResponse} then (invalid_io_state, io)
     else case wb_advance n (io_client_write io) of (advanced, b) \<Rightarrow>
       (Ok advanced, io\<lparr>io_client_write := (if wb_is_complete b then snd (clear_if_complete b) else b)\<rparr>))"

definition finish_client_response :: "bool \<Rightarrow> HttpConnectionIo \<Rightarrow> unit app \<times> HttpConnectionIo" where
  "finish_client_response keep_alive io =
    (if io_state io \<noteq> WritingClientResponse \<or> \<not> wb_is_complete (io_client_write io)
     then (invalid_io_state, io)
     else if keep_alive
     then try_bind (on_state (handle_event ClientResponseCompleted) io) (\<lambda>_ io.
            (Ok (), io\<lparr>io_attempt := new_attempt, io_upstream_write := write_buffer_new []\<rparr>))
     else try_bind (on_state (handle_event ClientWritable) io) (\<lambda>_ io. (Ok (), io)))"

section \<open>Steps of a connection\<close>

definition upstream_phase :: "ConnectionState \<Rightarrow> bool" where
  "upstream_phase s \<longleftrightarrow> s \<in> {ConnectingUpstream, HandshakingUpstreamTls, WritingUpstreamRequest,
     ReadingUpstreamResponse}"

text \<open>
  The ways the event loop of \<^verbatim>\<open>edge-core/src/lib.rs\<close> changes a connection: the operations above,
  with whatever arguments and whether they succeed or not; failing the attempt while an upstream
  is in use; and the events and transitions it applies to the lifecycle directly.
\<close>

inductive io_step :: "HttpConnectionIo \<Rightarrow> HttpConnectionIo \<Rightarrow> bool" where
  "receive_client_bytes chunk limits io = (r, io') \<Longrightarrow> io_step io io'"
| "begin_upstream_connect io = (r, io') \<Longrightarrow> io_step io io'"
| "upstream_connected request io = (r, io') \<Longrightarrow> io_step io io'"
| "advance_upstream_write n io = (r, io') \<Longrightarrow> io_step io io'"
| "receive_upstream_bytes mem chunk io = (r, io') \<Longrightarrow> io_step io io'"
| "finish_upstream_response io = (r, io') \<Longrightarrow> io_step io io'"
| "upstream_phase (io_state io) \<Longrightarrow> fail_upstream_attempt f io = (r, io') \<Longrightarrow> io_step io io'"
| "prepare_upstream_retry io = (r, io') \<Longrightarrow> io_step io io'"
| "queue_client_response response io = (r, io') \<Longrightarrow> io_step io io'"
| "advance_client_write n io = (r, io') \<Longrightarrow> io_step io io'"
| "finish_client_response keep_alive io = (r, io') \<Longrightarrow> io_step io io'"
| "e \<in> {IoError, ClientClosed, CommandShutdown, UpstreamTlsHandshakeStarted, TimeoutExpired} \<Longrightarrow>
    on_state (handle_event e) io = (r, io') \<Longrightarrow> io_step io io'"
| "n \<in> {TunnelingWebSocket, ConnectionState.Failed, Closed} \<Longrightarrow>
    on_state (transition_to n) io = (r, io') \<Longrightarrow> io_step io io'"

definition attempt_ok :: "UpstreamAttemptProgress \<Rightarrow> bool" where
  "attempt_ok p \<longleftrightarrow>
    (attempt_terminal p \<noteq> None \<longleftrightarrow> attempt_phase p = Terminal) \<and>
    (response_started p \<longrightarrow> attempt_phase p \<in> {ResponseStarted, Terminal}) \<and>
    (attempt_phase p = ResponseStarted \<longrightarrow> response_started p)"

definition before_request :: "ConnectionState \<Rightarrow> bool" where
  "before_request s \<longleftrightarrow> s \<in> {ConnectionState.Accepted, ReadingClientRequest, SelectingRoute}"

definition before_response :: "ConnectionState \<Rightarrow> bool" where
  "before_response s \<longleftrightarrow> s \<in> {ConnectingUpstream, HandshakingUpstreamTls, WritingUpstreamRequest}"

definition io_inv :: "HttpConnectionIo \<Rightarrow> bool" where
  "io_inv io \<longleftrightarrow>
    wb_written (io_upstream_write io) \<le> length (wb_bytes (io_upstream_write io)) \<and>
    wb_written (io_client_write io) \<le> length (wb_bytes (io_client_write io)) \<and>
    attempt_ok (io_attempt io) \<and>
    (before_request (io_state io) \<longrightarrow> io_attempt io = new_attempt) \<and>
    (before_response (io_state io) \<longrightarrow>
       attempt_phase (io_attempt io) \<in> {Writing, Terminal} \<and> \<not> response_started (io_attempt io)) \<and>
    (io_state io = ReadingUpstreamResponse \<longrightarrow>
       attempt_phase (io_attempt io) \<in> {AwaitingResponse, ResponseStarted, Terminal}) \<and>
    (before_request (io_state io) \<or> before_response (io_state io) \<longrightarrow>
       wb_is_complete (io_client_write io))"

lemmas io_states = before_request_def before_response_def upstream_phase_def

lemmas attempt_defs = attempt_begin_def record_request_write_def request_write_completed_def
  record_response_bytes_def attempt_succeed_def attempt_fail_def attempt_complete_def
  require_phase_def new_attempt_def

lemmas buffer_defs = write_buffer_new_def wb_advance_def wb_is_complete_def clear_if_complete_def
  wb_remaining_def

lemma event_target_allowed: "event_target s e = Some n \<Longrightarrow> can_transition_to s n"
  by (auto simp: event_target_def can_transition_to_def split: ConnectionState.splits if_splits)

lemma timeout_allowed: "timeout_decision_for_state s = Some d \<Longrightarrow> can_transition_to s (timeout_next_state d)"
  by (auto simp: timeout_decision_for_state_def timeout_to_def can_transition_to_def
      split: ConnectionState.splits)

lemma handle_event_Ok:
  assumes "handle_event e s = (r, s')"
  shows "r = Ok () \<and> can_transition_to s s' \<and> (e \<noteq> TimeoutExpired \<longrightarrow> event_target s e = Some s') \<or>
    (\<exists>x. r = Err x) \<and> s' = s"
  using assms event_target_allowed[of s e] timeout_allowed[of s]
  by (auto simp: handle_event_def handle_timeout_def transition_to_def
      split: if_splits option.splits)

lemma handle_event_cases:
  "e \<noteq> TimeoutExpired \<Longrightarrow> handle_event e s =
    (case event_target s e of
       None \<Rightarrow> (rejected ''event is not valid for current connection state'', s)
     | Some n \<Rightarrow> (Ok (), n))"
  using event_target_allowed[of s e]
  by (auto simp: handle_event_def transition_to_def split: option.splits)

lemma new_attempt_ok [simp]: "attempt_ok new_attempt"
  by (simp add: attempt_ok_def new_attempt_def)

lemma attempt_ops_ok:
  assumes "attempt_ok p"
  shows "attempt_ok (snd (attempt_begin p))" "attempt_ok (snd (record_request_write n p))"
    "attempt_ok (snd (request_write_completed p))" "attempt_ok (snd (record_response_bytes n p))"
    "attempt_ok (snd (attempt_succeed p))" "attempt_ok (snd (attempt_fail f p))"
  using assms by (auto simp: attempt_defs attempt_ok_def)

lemma client_event_eq:
  "on_state (handle_event ClientReadable) io =
    (if io_state io = ConnectionState.Accepted then (Ok (), io\<lparr>io_state := ReadingClientRequest\<rparr>)
     else (rejected ''event is not valid for current connection state'', io))"
  "on_state (handle_event RequestParsed) io =
    (if io_state io = ReadingClientRequest then (Ok (), io\<lparr>io_state := SelectingRoute\<rparr>)
     else (rejected ''event is not valid for current connection state'', io))"
  by (cases "io_state io"; simp add: on_state_def handle_event_cases event_target_def)+

lemma client_event_inv:
  "io_inv io \<Longrightarrow> e \<in> {ClientReadable, RequestParsed} \<Longrightarrow> io_inv (snd (on_state (handle_event e) io))"
  by (elim insertE emptyE) (simp_all add: client_event_eq io_inv_def io_states)

lemma io_inv_request [simp]: "io_inv (io\<lparr>io_request := b\<rparr>) = io_inv io"
  by (simp add: io_inv_def)

lemmas io_bind = try_bind_snd[where P = io_inv]

lemma request_outcome_inv:
  assumes "io_inv io"
  shows "io_inv (snd (case outcome of
     Incomplete \<Rightarrow> (Ok outcome, io)
   | Complete bytes \<Rightarrow>
       (case parse_http_request bytes limits of
          Err e \<Rightarrow> (Err e, io)
        | Ok _ \<Rightarrow> try_bind (on_state (handle_event RequestParsed) io) (\<lambda>_ io. (Ok outcome, io)))))"
proof (cases outcome)
  case (Complete bytes)
  have "io_inv (snd (try_bind (on_state (handle_event RequestParsed) io) (\<lambda>_ io. (Ok outcome, io))))"
    by (rule io_bind) (simp_all add: client_event_inv assms)
  then show ?thesis
    using Complete assms by (cases "parse_http_request bytes limits") simp_all
qed (simp add: assms)

lemma receive_client_bytes_inv:
  assumes "io_inv io" "receive_client_bytes chunk limits io = (r, io')"
  shows "io_inv io'"
proof -
  have "io_inv (snd (receive_client_bytes chunk limits io))"
    unfolding receive_client_bytes_def
  proof (rule io_bind, goal_cases)
    case 1
    then show ?case using assms(1) by (simp add: client_event_inv)
  next
    case (2 u io)
    show ?case
    proof (cases "io_state io = ReadingClientRequest")
      case True
      obtain r b where "client_request_push chunk limits (io_request io) = (r, b)"
        by (cases "client_request_push chunk limits (io_request io)")
      then have "io_inv (snd (case client_request_push chunk limits (io_request io) of
          (r, b) \<Rightarrow> (r, io\<lparr>io_request := b\<rparr>)))" using 2 by simp
      from io_bind[OF this request_outcome_inv] show ?thesis using True by simp
    qed (use 2 in simp)
  qed
  then show ?thesis using assms(2) by simp
qed

lemma begin_upstream_connect_eq:
  "begin_upstream_connect io =
    (if io_state io = SelectingRoute then on_attempt attempt_begin (io\<lparr>io_state := ConnectingUpstream\<rparr>)
     else (rejected ''event is not valid for current connection state'', io))"
  by (cases "io_state io")
    (simp_all add: begin_upstream_connect_def on_state_def handle_event_cases event_target_def)

lemma begin_upstream_connect_inv:
  assumes "io_inv io" "begin_upstream_connect io = (r, io')"
  shows "io_inv io' \<and> (io_state io = SelectingRoute \<longrightarrow> r = Ok ())"
proof (cases "io_state io = SelectingRoute")
  case True
  then have new: "io_attempt io = new_attempt" using assms(1) by (simp add: io_inv_def io_states)
  have "attempt_begin new_attempt = (Ok (), new_attempt\<lparr>attempt_phase := Writing\<rparr>)"
    by (simp add: attempt_begin_def require_phase_def new_attempt_def)
  then have "r = Ok ()"
      "io' = io\<lparr>io_state := ConnectingUpstream, io_attempt := new_attempt\<lparr>attempt_phase := Writing\<rparr>\<rparr>"
    using assms(2) True new by (simp_all add: begin_upstream_connect_eq on_attempt_def)
  then show ?thesis
    using assms(1) True by (simp add: io_inv_def io_states attempt_ok_def new_attempt_def)
qed (use assms in \<open>simp add: begin_upstream_connect_eq\<close>)

lemma upstream_connected_eq:
  "upstream_connected request io =
    (if io_state io \<in> {ConnectingUpstream, HandshakingUpstreamTls}
     then (Ok (), io\<lparr>io_upstream_write := write_buffer_new request, io_state := WritingUpstreamRequest\<rparr>)
     else (invalid_io_state, io))"
  by (cases "io_state io")
    (simp_all add: upstream_connected_def on_state_def handle_event_cases event_target_def Let_def)

lemma upstream_connected_inv:
  assumes "io_inv io" "upstream_connected request io = (r, io')"
  shows "io_inv io'"
proof (cases "io_state io \<in> {ConnectingUpstream, HandshakingUpstreamTls}")
  case True
  then have "io' = io\<lparr>io_upstream_write := write_buffer_new request, io_state := WritingUpstreamRequest\<rparr>"
    using assms(2) by (simp add: upstream_connected_eq)
  moreover have "before_response (io_state io)" using True by (auto simp: before_response_def)
  ultimately show ?thesis
    using assms(1) by (simp add: io_inv_def io_states write_buffer_new_def)
qed (use assms in \<open>simp add: upstream_connected_eq\<close>)

lemma wb_advance_le:
  "wb_written b \<le> length (wb_bytes b) \<Longrightarrow> wb_advance n b = (k, b') \<Longrightarrow>
    wb_written b' \<le> length (wb_bytes b') \<and> wb_bytes b' = wb_bytes b"
  by (auto simp: wb_advance_def wb_remaining_def Let_def)

lemma clear_if_complete_le:
  "wb_written b \<le> length (wb_bytes b) \<Longrightarrow>
    wb_written (snd (clear_if_complete b)) \<le> length (wb_bytes (snd (clear_if_complete b)))"
  by (simp add: clear_if_complete_def)

lemma advance_upstream_write_inv:
  assumes "io_inv io" "advance_upstream_write n io = (r, io')"
  shows "io_inv io'"
proof (cases "io_state io = WritingUpstreamRequest")
  case False
  then show ?thesis using assms by (simp add: advance_upstream_write_def)
next
  case True
  obtain k b where adv: "wb_advance n (io_upstream_write io) = (k, b)"
    by (cases "wb_advance n (io_upstream_write io)")
  have "wb_written (io_upstream_write io) \<le> length (wb_bytes (io_upstream_write io))" using assms(1) by (simp add: io_inv_def)
  then have le: "wb_written b \<le> length (wb_bytes b)" using wb_advance_le[OF _ adv] by blast
  show ?thesis
  proof (cases "attempt_phase (io_attempt io) = Writing")
    case False
    then have "io' = io\<lparr>io_upstream_write := b\<rparr>"
      using assms(2) True adv
      by (simp add: advance_upstream_write_def on_attempt_def record_request_write_def require_phase_def)
    then show ?thesis using assms(1) le by (simp add: io_inv_def)
  next
    case ph: True
    let ?p = "(io_attempt io)\<lparr>request_bytes_written := saturating_add (request_bytes_written (io_attempt io)) k\<rparr>"
    have "io' = (if wb_is_complete b
        then io\<lparr>io_attempt := ?p\<lparr>attempt_phase := AwaitingResponse\<rparr>,
          io_state := ReadingUpstreamResponse, io_upstream_write := snd (clear_if_complete b)\<rparr>
        else io\<lparr>io_upstream_write := b, io_attempt := ?p\<rparr>)"
      using assms(2) True adv ph
      by (auto simp: advance_upstream_write_def on_attempt_def record_request_write_def require_phase_def
          request_write_completed_def on_state_def handle_event_cases event_target_def split: if_splits)
    then show ?thesis
      using assms(1) True le clear_if_complete_le[OF le] ph
      by (simp add: io_inv_def io_states attempt_ok_def)
  qed
qed

lemma receive_upstream_bytes_result:
  assumes "receive_upstream_bytes mem chunk io = (r, io')"
  shows "io' = io \<or> io_state io = ReadingUpstreamResponse \<and>
    (\<exists>b p. io' = io\<lparr>io_client_write := b, io_attempt := p\<rparr> \<and>
      wb_written b = wb_written (io_client_write io) \<and>
      wb_bytes b = wb_bytes (io_client_write io) @ chunk \<and>
      p = snd (record_response_bytes (length chunk) (io_attempt io)))"
proof (cases "io_state io = ReadingUpstreamResponse \<and>
    try_reserve_append mem (length chunk) (io_client_write io) = Ok ()")
  case True
  then show ?thesis
    using assms
    by (auto simp: receive_upstream_bytes_def try_append_def on_attempt_def record_response_bytes_def
        split: if_splits)
next
  case False
  then have "io_state io \<noteq> ReadingUpstreamResponse \<or>
      (\<exists>e. try_reserve_append mem (length chunk) (io_client_write io) = Err e)"
    by (cases "try_reserve_append mem (length chunk) (io_client_write io)") auto
  then show ?thesis
    using assms by (auto simp: receive_upstream_bytes_def try_append_def split: if_splits)
qed

lemma receive_upstream_bytes_inv:
  assumes "io_inv io" "receive_upstream_bytes mem chunk io = (r, io')"
  shows "io_inv io'"
  using receive_upstream_bytes_result[OF assms(2)]
proof (elim disjE conjE exE)
  fix b p
  assume st: "io_state io = ReadingUpstreamResponse"
    and io': "io' = io\<lparr>io_client_write := b, io_attempt := p\<rparr>"
    and b: "wb_written b = wb_written (io_client_write io)" "wb_bytes b = wb_bytes (io_client_write io) @ chunk"
    and p: "p = snd (record_response_bytes (length chunk) (io_attempt io))"
  have "attempt_ok p" unfolding p using assms(1) by (intro attempt_ops_ok(4)) (simp add: io_inv_def)
  moreover have "attempt_phase (io_attempt io) \<in> {AwaitingResponse, ResponseStarted, Terminal}"
    using assms(1) st by (simp add: io_inv_def)
  then have "attempt_phase p \<in> {AwaitingResponse, ResponseStarted, Terminal}"
    unfolding p record_response_bytes_def by auto
  ultimately have "attempt_ok p" "attempt_phase p \<in> {AwaitingResponse, ResponseStarted, Terminal}"
    by simp_all
  then show ?thesis using assms(1) st b unfolding io' by (simp add: io_inv_def io_states)
qed (use assms in simp)

lemma finish_upstream_response_eq:
  "finish_upstream_response io =
    (if io_state io = ReadingUpstreamResponse
     then on_attempt attempt_succeed (io\<lparr>io_state := WritingClientResponse\<rparr>)
     else (rejected ''event is not valid for current connection state'', io))"
  by (cases "io_state io")
    (simp_all add: finish_upstream_response_def on_state_def handle_event_cases event_target_def)

lemma on_attempt_snd: "snd (on_attempt f io) = io\<lparr>io_attempt := snd (f (io_attempt io))\<rparr>"
  by (simp add: on_attempt_def split: prod.splits)

lemma finish_upstream_response_inv:
  assumes "io_inv io" "finish_upstream_response io = (r, io')"
  shows "io_inv io'"
proof (cases "io_state io = ReadingUpstreamResponse")
  case True
  then have "io' = io\<lparr>io_state := WritingClientResponse, io_attempt := snd (attempt_succeed (io_attempt io))\<rparr>"
    using assms(2) on_attempt_snd[of attempt_succeed "io\<lparr>io_state := WritingClientResponse\<rparr>"]
    by (simp add: finish_upstream_response_eq)
  then show ?thesis
    using assms(1) attempt_ops_ok(5)[of "io_attempt io"] by (simp add: io_inv_def io_states)
qed (use assms in \<open>simp add: finish_upstream_response_eq\<close>)

lemma fail_upstream_attempt_inv:
  assumes "io_inv io" "upstream_phase (io_state io)" "fail_upstream_attempt f io = (r, io')"
  shows "io_inv io'"
proof -
  have io': "io' = io\<lparr>io_attempt := snd (attempt_fail f (io_attempt io))\<rparr>"
    using assms(3) on_attempt_snd[of "attempt_fail f" io] by (simp add: fail_upstream_attempt_def)
  have "attempt_phase (snd (attempt_fail f p)) = Terminal"
      "response_started (snd (attempt_fail f p)) = response_started p" if "attempt_ok p" for p
    using that by (auto simp: attempt_fail_def attempt_complete_def attempt_ok_def)
  moreover have "\<not> before_request (io_state io)" using assms(2) by (auto simp: io_states)
  ultimately show ?thesis
    using assms(1) attempt_ops_ok(6)[of "io_attempt io" f] unfolding io' by (simp add: io_inv_def)
qed

lemma prepare_upstream_retry_inv:
  assumes "io_inv io" "prepare_upstream_retry io = (r, io')"
  shows "io_inv io'"
proof (cases "r = Ok ()")
  case True
  then have "io' = io\<lparr>io_state := SelectingRoute, io_attempt := new_attempt,
      io_upstream_write := write_buffer_new []\<rparr>" "before_response (io_state io)"
    using assms(2) by (auto simp: prepare_upstream_retry_def io_states split: if_splits)
  then show ?thesis
    using assms(1) by (simp add: io_inv_def before_request_def write_buffer_new_def)
      (simp add: before_response_def)
qed (use assms in \<open>simp add: prepare_upstream_retry_def split: if_splits\<close>)

lemma queue_client_response_inv:
  assumes "io_inv io" "queue_client_response response io = (r, io')"
  shows "io_inv io'"
proof (cases "can_transition_to (io_state io) WritingClientResponse")
  case True
  then have "io' = io\<lparr>io_client_write := write_buffer_new response, io_state := WritingClientResponse\<rparr>"
    using assms(2) by (simp add: queue_client_response_def on_state_def transition_to_def)
  then show ?thesis using assms(1) by (simp add: io_inv_def io_states write_buffer_new_def)
qed (use assms in \<open>simp add: queue_client_response_def\<close>)

lemma advance_client_write_inv:
  assumes "io_inv io" "advance_client_write n io = (r, io')"
  shows "io_inv io'"
proof (cases "io_state io \<in> {ReadingUpstreamResponse, WritingClientResponse}")
  case False
  then show ?thesis using assms by (simp add: advance_client_write_def)
next
  case True
  obtain k b where adv: "wb_advance n (io_client_write io) = (k, b)"
    by (cases "wb_advance n (io_client_write io)")
  have "wb_written (io_client_write io) \<le> length (wb_bytes (io_client_write io))" using assms(1) by (simp add: io_inv_def)
  then have le: "wb_written b \<le> length (wb_bytes b)" using wb_advance_le[OF _ adv] by blast
  have "io' = io\<lparr>io_client_write := (if wb_is_complete b then snd (clear_if_complete b) else b)\<rparr>"
    using assms(2) True adv by (auto simp: advance_client_write_def)
  moreover have "\<not> before_request (io_state io)" "\<not> before_response (io_state io)"
    using True by (auto simp: io_states)
  ultimately show ?thesis
    using assms(1) le clear_if_complete_le[OF le] by (simp add: io_inv_def)
qed

lemma finish_client_response_inv:
  assumes "io_inv io" "finish_client_response keep_alive io = (r, io')"
  shows "io_inv io'"
proof (cases "io_state io = WritingClientResponse \<and> wb_is_complete (io_client_write io)")
  case True
  then have "io' = (if keep_alive
      then io\<lparr>io_state := ReadingClientRequest, io_attempt := new_attempt,
        io_upstream_write := write_buffer_new []\<rparr>
      else io\<lparr>io_state := Draining\<rparr>)"
    using assms(2)
    by (simp add: finish_client_response_def on_state_def handle_event_cases event_target_def
        split: if_splits)
  then show ?thesis
    using assms(1) True by (simp add: io_inv_def io_states write_buffer_new_def)
qed (use assms in \<open>auto simp: finish_client_response_def split: if_splits\<close>)

lemma lifecycle_inv:
  assumes "io_inv io" "io' = io\<lparr>io_state := s\<rparr>"
    "s = io_state io \<or> s \<in> {TunnelingWebSocket, ConnectionState.Failed, Closed, WritingClientResponse} \<or>
      io_state io = ConnectingUpstream \<and> s = HandshakingUpstreamTls"
  shows "io_inv io'"
  using assms(3)
proof (elim disjE)
  assume "s \<in> {TunnelingWebSocket, ConnectionState.Failed, Closed, WritingClientResponse}"
  then have "\<not> before_request s \<and> \<not> before_response s \<and> s \<noteq> ReadingUpstreamResponse"
    by (auto simp: io_states)
  then show ?thesis using assms(1) unfolding assms(2) by (simp add: io_inv_def)
next
  assume "io_state io = ConnectingUpstream \<and> s = HandshakingUpstreamTls"
  then show ?thesis using assms(1) unfolding assms(2) by (simp add: io_inv_def io_states)
qed (use assms in simp)

lemma direct_event_inv:
  assumes "io_inv io" "on_state (handle_event e) io = (r, io')"
    "e \<in> {IoError, ClientClosed, CommandShutdown, UpstreamTlsHandshakeStarted, TimeoutExpired}"
  shows "io_inv io'"
proof (rule lifecycle_inv[OF assms(1)])
  show "io' = io\<lparr>io_state := snd (handle_event e (io_state io))\<rparr>"
    using assms(2) by (auto simp: on_state_def split: prod.splits)
  show "snd (handle_event e (io_state io)) = io_state io \<or>
      snd (handle_event e (io_state io)) \<in> {TunnelingWebSocket, ConnectionState.Failed, Closed, WritingClientResponse} \<or>
      io_state io = ConnectingUpstream \<and> snd (handle_event e (io_state io)) = HandshakingUpstreamTls"
    using assms(3)
    by (cases "io_state io"; elim insertE emptyE;
        simp add: handle_event_def handle_timeout_def timeout_decision_for_state_def timeout_to_def
          event_target_def transition_to_def can_transition_to_def)
qed

lemma direct_transition_inv:
  assumes "io_inv io" "on_state (transition_to n) io = (r, io')"
    "n \<in> {TunnelingWebSocket, ConnectionState.Failed, Closed}"
  shows "io_inv io'"
proof (rule lifecycle_inv[OF assms(1)])
  show "io' = io\<lparr>io_state := snd (transition_to n (io_state io))\<rparr>"
    using assms(2) by (auto simp: on_state_def split: prod.splits)
qed (use assms(3) in \<open>auto simp: transition_to_def\<close>)

lemma io_step_inv: "io_step io io' \<Longrightarrow> io_inv io \<Longrightarrow> io_inv io'"
  by (induction rule: io_step.induct)
    (blast dest: receive_client_bytes_inv begin_upstream_connect_inv upstream_connected_inv
      advance_upstream_write_inv receive_upstream_bytes_inv finish_upstream_response_inv
      fail_upstream_attempt_inv prepare_upstream_retry_inv queue_client_response_inv
      advance_client_write_inv finish_client_response_inv direct_event_inv direct_transition_inv)+

lemma io_new_inv: "io_inv (io_new token)"
  by (simp add: io_inv_def io_new_def write_buffer_new_def wb_is_complete_def io_states)

lemma io_reachable_inv: "io_step\<^sup>*\<^sup>* (io_new token) io \<Longrightarrow> io_inv io"
  by (induction rule: rtranclp_induct) (auto intro: io_new_inv io_step_inv)

section \<open>Properties of a connection\<close>

lemma terminal_transition:
  assumes "can_transition_to s n" "s \<in> {Closed, ConnectionState.Failed}"
  shows "n \<in> {Closed, ConnectionState.Failed}"
  using assms by (elim insertE emptyE) (simp_all add: can_transition_to_def)

text \<open>
  C34: Every event, the timeout included, either moves the lifecycle along an edge of the transition
  table or is refused and leaves it where it is, and a closed or failed connection never becomes
  active again.
\<close>

theorem lifecycle_follows_table:
  assumes "handle_event e s = (r, s')"
  shows "(r = Ok () \<and> can_transition_to s s' \<or> \<not> is_ok r \<and> s' = s) \<and>
    (s \<in> {Closed, ConnectionState.Failed} \<longrightarrow> s' \<in> {Closed, ConnectionState.Failed})"
  using handle_event_Ok[OF assms]
proof (elim disjE conjE exE)
  assume "r = Ok ()" "can_transition_to s s'"
  then show ?thesis using terminal_transition by blast
qed simp

theorem lifecycle_follows_table_witness:
  "can_transition_to ConnectingUpstream (snd (handle_event TimeoutExpired ConnectingUpstream))"
  using lifecycle_follows_table[of TimeoutExpired ConnectingUpstream "Ok ()" WritingClientResponse]
  by (simp add: handle_event_def handle_timeout_def timeout_decision_for_state_def timeout_to_def)

text \<open>
  C8: A retry never duplicates a response. In every reachable connection state, when the connection
  accepts a retry no byte of a response has been received and none is waiting to be written to the
  client, and after it the next upstream connect succeeds with a fresh attempt.
\<close>

theorem retry_starts_clean:
  assumes "io_step\<^sup>*\<^sup>* (io_new token) io" "prepare_upstream_retry io = (Ok (), io')"
  shows "\<not> response_started (io_attempt io) \<and> wb_is_complete (io_client_write io) \<and>
    io_attempt io' = new_attempt \<and> fst (begin_upstream_connect io') = Ok ()"
proof -
  have inv: "io_inv io" using io_reachable_inv[OF assms(1)] .
  have io': "io' = io\<lparr>io_state := SelectingRoute, io_attempt := new_attempt,
      io_upstream_write := write_buffer_new []\<rparr>" and st: "before_response (io_state io)"
    using assms(2) by (auto simp: prepare_upstream_retry_def io_states split: if_splits)
  obtain r2 io2 where "begin_upstream_connect io' = (r2, io2)" by (cases "begin_upstream_connect io'")
  then have "fst (begin_upstream_connect io') = Ok ()"
    using begin_upstream_connect_inv[OF prepare_upstream_retry_inv[OF inv assms(2)]] io' by auto
  then show ?thesis using inv st io' by (auto simp: io_inv_def)
qed

definition sample_io :: HttpConnectionIo where
  "sample_io = snd (fail_upstream_attempt Connect
     (snd (begin_upstream_connect (snd (receive_client_bytes sample_request default_http_limits (io_new 7))))))"

lemma sample_io_reachable: "io_step\<^sup>*\<^sup>* (io_new 7) sample_io"
proof -
  let ?a = "snd (receive_client_bytes sample_request default_http_limits (io_new 7))"
  let ?b = "snd (begin_upstream_connect ?a)"
  have "io_step (io_new 7) ?a" by (rule io_step.intros(1)) (rule prod.collapse[symmetric])
  moreover have "io_step ?a ?b" by (rule io_step.intros(2)) (rule prod.collapse[symmetric])
  moreover have "upstream_phase (io_state ?b)" by code_simp
  then have "io_step ?b sample_io"
    unfolding sample_io_def by (rule io_step.intros(7)) (rule prod.collapse[symmetric])
  ultimately show ?thesis by (meson converse_rtranclp_into_rtranclp rtranclp.rtrancl_refl)
qed

theorem retry_starts_clean_witness:
  "fst (begin_upstream_connect (snd (prepare_upstream_retry sample_io))) = Ok ()"
proof -
  have "fst (prepare_upstream_retry sample_io) = Ok ()" by code_simp
  then have "prepare_upstream_retry sample_io = (Ok (), snd (prepare_upstream_retry sample_io))"
    by (metis prod.collapse)
  from retry_starts_clean[OF sample_io_reachable this] show ?thesis by blast
qed

text \<open>
  C23: A parsed request always gets an upstream attempt: in every reachable state in which the
  connection selects a route, starting the upstream connect succeeds; on a kept-alive connection
  the attempt of the previous request is not in the way.
\<close>

theorem selected_route_can_connect:
  assumes "io_step\<^sup>*\<^sup>* (io_new token) io" "io_state io = SelectingRoute"
  shows "\<exists>io'. begin_upstream_connect io = (Ok (), io') \<and> io_state io' = ConnectingUpstream \<and>
    attempt_phase (io_attempt io') = Writing \<and> request_bytes_written (io_attempt io') = 0"
proof -
  have "io_attempt io = new_attempt"
    using io_reachable_inv[OF assms(1)] assms(2) by (simp add: io_inv_def io_states)
  then show ?thesis
    using assms(2)
    by (simp add: begin_upstream_connect_eq on_attempt_def attempt_begin_def require_phase_def
        new_attempt_def)
qed

theorem selected_route_can_connect_witness:
  "\<exists>io'. begin_upstream_connect (snd (receive_client_bytes sample_request default_http_limits (io_new 7)))
     = (Ok (), io')"
proof -
  let ?a = "snd (receive_client_bytes sample_request default_http_limits (io_new 7))"
  have "io_step (io_new 7) ?a" by (rule io_step.intros(1)) (rule prod.collapse[symmetric])
  then have "io_step\<^sup>*\<^sup>* (io_new 7) ?a" by blast
  moreover have "io_state ?a = SelectingRoute" by code_simp
  ultimately show ?thesis using selected_route_can_connect by blast
qed

datatype BufferOp = Append bool string | Advance nat | ClearIfComplete

fun buffer_apply :: "BufferOp \<Rightarrow> WriteBuffer \<Rightarrow> string \<times> string \<times> WriteBuffer" where
  "buffer_apply (Append mem chunk) b =
    (case try_append mem chunk b of (r, b') \<Rightarrow> (if is_ok r then chunk else [], [], b'))"
| "buffer_apply (Advance n) b =
    (case wb_advance n b of (k, b') \<Rightarrow> ([], take k (wb_remaining b), b'))"
| "buffer_apply ClearIfComplete b = ([], [], snd (clear_if_complete b))"

fun buffer_run :: "BufferOp list \<Rightarrow> WriteBuffer \<Rightarrow> string \<times> string \<times> WriteBuffer" where
  "buffer_run [] b = ([], [], b)"
| "buffer_run (op # ops) b =
    (case buffer_apply op b of (i, o1, b1) \<Rightarrow>
      case buffer_run ops b1 of (i', o2, b2) \<Rightarrow> (i @ i', o1 @ o2, b2))"

definition wb_ok :: "WriteBuffer \<Rightarrow> bool" where
  "wb_ok b \<longleftrightarrow> wb_written b \<le> length (wb_bytes b)"

lemma buffer_apply_fifo:
  assumes "wb_ok b" "buffer_apply op b = (i, out, b')"
  shows "wb_ok b' \<and> wb_remaining b @ i = out @ wb_remaining b'"
proof (cases op)
  case (Append mem chunk)
  then show ?thesis using assms
    by (auto simp: try_append_def wb_ok_def wb_remaining_def split: result.splits prod.splits)
next
  case (Advance n)
  then have "out = take (min n (length (wb_remaining b))) (wb_remaining b)" "i = []"
      "wb_remaining b' = drop (min n (length (wb_remaining b))) (wb_remaining b)" "wb_ok b'"
    using assms by (auto simp: wb_advance_def wb_ok_def wb_remaining_def Let_def add.commute)
  then show ?thesis by simp
next
  case ClearIfComplete
  then show ?thesis using assms
    by (auto simp: clear_if_complete_def wb_is_complete_def wb_ok_def wb_remaining_def split: if_splits)
qed


definition sample_buffer_ops :: "BufferOp list" where
  "sample_buffer_ops = [Append True ''abc'', Advance 2, Append False ''x'', Append True ''d'',
     Advance 9, ClearIfComplete]"


end
