(* ===== verification/ResponseFraming.thy ===== *)
theory ResponseFraming
  imports HttpRequest
begin

text \<open>
  Incremental framing of upstream responses (\<^verbatim>\<open>edge-core/src/upstream_response_framing.rs\<close>).
  \<open>framing_push\<close> is the loop of the source: it collects header and chunk-size lines byte by byte
  and skips over body bytes in blocks. \<open>framing_ref\<close> is a reference machine that reads one byte
  per step; both agree, and from that follow the facts about the way the bytes were cut and
  about where a response ends.

  The source grows its line buffers by \<^verbatim>\<open>try_reserve\<close>; the argument \<open>room\<close> says, for each input
  position, whether the memory for that byte is there.
\<close>

section \<open>Data\<close>

datatype ResponseFramingPhase =
    Headers | ContentLength | ChunkSize | ChunkData | ChunkDataCrlf | Trailers | CloseDelimited
  | Complete | Failed

datatype ResponseBodyExpectation = Normal | HeadResponse

datatype ResponseBodyFraming =
    Interim | NoBody | ContentLength nat | Chunked | CloseDelimited

datatype ResponseFramingState =
    Headers string | ContentLength nat | ChunkSize string | ChunkData nat | ChunkDataCrlf nat
  | Trailers string | CloseDelimited | Complete | Failed

record ResponseFramingProgress =
  fp_consumed :: nat
  fp_input_len :: nat
  fp_phase :: ResponseFramingPhase
  fp_status_code :: "nat option"

record HttpResponseFraming =
  fr_state :: ResponseFramingState
  fr_max_header_bytes :: nat
  fr_max_line_bytes :: nat
  fr_body_expectation :: ResponseBodyExpectation
  fr_status_code :: "nat option"
  fr_connection_close :: bool
  fr_close_delimited :: bool

definition with_body_expectation ::
  "nat \<Rightarrow> nat \<Rightarrow> ResponseBodyExpectation \<Rightarrow> HttpResponseFraming" where
  "with_body_expectation max_header max_line expectation =
    \<lparr>fr_state = Headers [], fr_max_header_bytes = max_header, fr_max_line_bytes = max_line,
     fr_body_expectation = expectation, fr_status_code = None, fr_connection_close = False,
     fr_close_delimited = False\<rparr>"

definition framing_new :: "nat \<Rightarrow> nat \<Rightarrow> HttpResponseFraming" where
  "framing_new max_header max_line = with_body_expectation max_header max_line Normal"

definition new_for_head_response :: "nat \<Rightarrow> nat \<Rightarrow> HttpResponseFraming" where
  "new_for_head_response max_header max_line = with_body_expectation max_header max_line HeadResponse"

definition state_phase :: "ResponseFramingState \<Rightarrow> ResponseFramingPhase" where
  "state_phase s =
    (case s of
       Headers _ \<Rightarrow> ResponseFramingPhase.Headers
     | ContentLength _ \<Rightarrow> ResponseFramingPhase.ContentLength
     | ChunkSize _ \<Rightarrow> ResponseFramingPhase.ChunkSize
     | ChunkData _ \<Rightarrow> ResponseFramingPhase.ChunkData
     | ChunkDataCrlf _ \<Rightarrow> ResponseFramingPhase.ChunkDataCrlf
     | Trailers _ \<Rightarrow> ResponseFramingPhase.Trailers
     | CloseDelimited \<Rightarrow> ResponseFramingPhase.CloseDelimited
     | Complete \<Rightarrow> ResponseFramingPhase.Complete
     | Failed \<Rightarrow> ResponseFramingPhase.Failed)"

definition framing_phase :: "HttpResponseFraming \<Rightarrow> ResponseFramingPhase" where
  "framing_phase f = state_phase (fr_state f)"

definition is_keep_alive_reusable :: "HttpResponseFraming \<Rightarrow> bool" where
  "is_keep_alive_reusable f \<longleftrightarrow>
    fr_state f = Complete \<and> \<not> fr_connection_close f \<and> \<not> fr_close_delimited f"

section \<open>Header block, chunk sizes and trailers\<close>

abbreviation malformed_upstream_response :: "string \<Rightarrow> ('a, AppError) result" where
  "malformed_upstream_response m \<equiv> Err (app_error (Runtime RuntimeUpstreamBadGateway) m)"

definition try_push_bounded :: "bool \<Rightarrow> string \<Rightarrow> char \<Rightarrow> nat \<Rightarrow> string app" where
  "try_push_bounded room bytes c limit =
    (if limit \<le> length bytes
     then Err (app_error (Runtime ResourcePayloadCapacityReached) ''response framing buffer limit reached'')
     else if \<not> room
     then Err (app_error (Runtime ResourceAllocationFailed) ''response framing buffer allocation failed'')
     else Ok (bytes @ [c]))"

definition validate_response_value :: "string \<Rightarrow> string \<Rightarrow> unit app" where
  "validate_response_value v field =
    (if contains_prohibited_http_field_value_control v
     then malformed_upstream_response
       (if field = ''response header'' then ''response header value contains prohibited control byte''
        else if field = ''chunk trailer'' then ''chunk trailer value contains prohibited control byte''
        else ''response field value contains prohibited control byte'')
     else Ok ())"

record FramingScan =
  scan_content_length :: "nat option"
  scan_encoding_present :: bool
  scan_encoding_chunked :: bool
  scan_chunked_seen :: bool
  scan_connection_close :: bool

fun scan_codings :: "string list \<Rightarrow> FramingScan \<Rightarrow> FramingScan app" where
  "scan_codings [] s = Ok s"
| "scan_codings (coding # codings) s =
    (if trim coding = [] then malformed_upstream_response ''response transfer encoding is empty''
     else let chunked = eq_ignore_ascii_case (trim coding) ''chunked''
          in scan_codings codings (s\<lparr>scan_encoding_chunked := chunked,
               scan_chunked_seen := scan_chunked_seen s \<or> chunked\<rparr>))"

definition scan_length :: "string \<Rightarrow> string \<Rightarrow> FramingScan \<Rightarrow> FramingScan app" where
  "scan_length name v s =
    (if eq_ignore_ascii_case name ''Content-Length''
     then if scan_content_length s \<noteq> None
          then malformed_upstream_response ''duplicate response content length''
          else case parse_usize (trim v) of
            None \<Rightarrow> malformed_upstream_response ''response content length is invalid''
          | Some n \<Rightarrow> Ok (s\<lparr>scan_content_length := Some n\<rparr>)
     else Ok s)"

definition scan_encoding :: "string \<Rightarrow> string \<Rightarrow> FramingScan \<Rightarrow> FramingScan app" where
  "scan_encoding name v s =
    (if eq_ignore_ascii_case name ''Transfer-Encoding''
     then scan_codings (split_char CHR '','' v) (s\<lparr>scan_encoding_present := True\<rparr>)
     else Ok s)"

definition scan_connection :: "string \<Rightarrow> string \<Rightarrow> FramingScan \<Rightarrow> FramingScan" where
  "scan_connection name v s =
    (if eq_ignore_ascii_case name ''Connection''
     then s\<lparr>scan_connection_close := scan_connection_close s \<or>
            list_ex (\<lambda>t. eq_ignore_ascii_case (trim t) ''close'') (split_char CHR '','' v)\<rparr>
     else s)"

fun scan_lines :: "string list \<Rightarrow> FramingScan \<Rightarrow> FramingScan app" where
  "scan_lines [] s = Ok s"
| "scan_lines (line # lines) s =
    (case split_once CHR '':'' line of
       None \<Rightarrow> malformed_upstream_response ''response header is malformed''
     | Some (name, v) \<Rightarrow>
         if \<not> is_http_token name then malformed_upstream_response ''response header name is invalid''
         else rbind (validate_response_value v ''response header'') (\<lambda>_.
              rbind (scan_length name v s) (\<lambda>s.
              rbind (scan_encoding name v s) (\<lambda>s.
                scan_lines lines (scan_connection name v s)))))"

definition parse_status_line :: "string \<Rightarrow> nat app" where
  "parse_status_line line =
    (case split_once CHR '' '' line of
       None \<Rightarrow> malformed_upstream_response ''response HTTP version is missing''
     | Some (version, status_and_reason) \<Rightarrow>
         if version \<noteq> ''HTTP/1.1'' then malformed_upstream_response ''response HTTP version is invalid''
         else case split_once CHR '' '' status_and_reason of
           None \<Rightarrow> malformed_upstream_response ''response reason separator is missing''
         | Some (code, _) \<Rightarrow>
             if length code \<noteq> 3 \<or> \<not> list_all is_ascii_digit code
             then malformed_upstream_response ''response status code is invalid''
             else case parse_unsigned 65535 10 code of
               None \<Rightarrow> malformed_upstream_response ''response status code is invalid''
             | Some status \<Rightarrow>
                 if status < 100 \<or> 999 < status
                 then malformed_upstream_response ''response status code is outside the valid range''
                 else Ok status)"

definition is_interim :: "nat \<Rightarrow> bool" where
  "is_interim status \<longleftrightarrow> 100 \<le> status \<and> status < 200 \<and> status \<noteq> 101"

definition choose_framing ::
  "ResponseBodyExpectation \<Rightarrow> nat \<Rightarrow> FramingScan \<Rightarrow> (nat \<times> ResponseBodyFraming \<times> bool) app" where
  "choose_framing expectation status s =
    (if scan_encoding_present s \<and> scan_content_length s \<noteq> None
     then malformed_upstream_response ''response transfer encoding conflicts with content length''
     else if scan_chunked_seen s \<and> \<not> scan_encoding_chunked s
     then malformed_upstream_response ''chunked must be the final response transfer coding''
     else Ok (status,
       (if is_interim status then Interim
        else if expectation = HeadResponse \<or> status \<in> {101, 204, 304} then NoBody
        else if scan_encoding_chunked s then Chunked
        else case scan_content_length s of
               Some n \<Rightarrow> ResponseBodyFraming.ContentLength n
             | None \<Rightarrow> ResponseBodyFraming.CloseDelimited),
       scan_connection_close s))"

definition parse_response_framing_headers ::
  "string \<Rightarrow> ResponseBodyExpectation \<Rightarrow> (nat \<times> ResponseBodyFraming \<times> bool) app" where
  "parse_response_framing_headers bytes expectation =
    (if \<not> utf8_valid bytes then malformed_upstream_response ''response headers are not UTF-8''
     else case strip_suffix (crlf @ crlf) bytes of
       None \<Rightarrow> malformed_upstream_response ''response header terminator is missing''
     | Some text \<Rightarrow>
         (case split_crlf text of
            [] \<Rightarrow> malformed_upstream_response ''response status line is missing''
          | status_line # lines \<Rightarrow>
              rbind (parse_status_line status_line) (\<lambda>status.
              rbind (scan_lines lines \<lparr>scan_content_length = None, scan_encoding_present = False,
                 scan_encoding_chunked = False, scan_chunked_seen = False,
                 scan_connection_close = False\<rparr>)
                (choose_framing expectation status))))"

definition parse_chunk_size :: "string \<Rightarrow> nat app" where
  "parse_chunk_size line =
    (if \<not> utf8_valid line then malformed_upstream_response ''chunk size is not UTF-8''
     else let digits = trim (case split_char CHR '';'' line of [] \<Rightarrow> [] | first # _ \<Rightarrow> first)
     in if digits = [] then malformed_upstream_response ''chunk size is missing''
        else case parse_unsigned usize_max 16 digits of
          None \<Rightarrow> malformed_upstream_response ''chunk size is invalid''
        | Some n \<Rightarrow> Ok n)"

definition validate_trailer_line :: "string \<Rightarrow> unit app" where
  "validate_trailer_line line =
    (if \<not> utf8_valid line then malformed_upstream_response ''chunk trailer is not UTF-8''
     else case split_once CHR '':'' line of
       None \<Rightarrow> malformed_upstream_response ''chunk trailer is malformed''
     | Some (name, v) \<Rightarrow>
         if \<not> is_http_token name then malformed_upstream_response ''chunk trailer name is invalid''
         else validate_response_value v ''chunk trailer'')"

definition parse_response_status_code :: "string \<Rightarrow> nat option" where
  "parse_response_status_code bytes =
    (case find_sub crlf bytes of
       None \<Rightarrow> None
     | Some line_end \<Rightarrow>
         if \<not> utf8_valid (take line_end bytes) then None
         else case split_whitespace (take line_end bytes) of
           version # code # _ \<Rightarrow>
             if starts_with ''HTTP/'' version then parse_unsigned 65535 10 code else None
         | _ \<Rightarrow> None)"

section \<open>The framing loop\<close>

definition framing_fail :: "string \<Rightarrow> HttpResponseFraming \<Rightarrow> 'a app \<times> HttpResponseFraming" where
  "framing_fail m f = (malformed_upstream_response m, f\<lparr>fr_state := Failed\<rparr>)"

definition headers_complete :: "string \<Rightarrow> HttpResponseFraming \<Rightarrow> unit app \<times> HttpResponseFraming" where
  "headers_complete bytes f =
    (case parse_response_framing_headers bytes (fr_body_expectation f) of
       Err e \<Rightarrow> (Err e, f\<lparr>fr_state := Failed\<rparr>)
     | Ok (status, framing, close) \<Rightarrow>
         let f = f\<lparr>fr_status_code := Some status\<rparr>;
             f = (if framing = Interim then f
                  else f\<lparr>fr_connection_close := close,
                         fr_close_delimited := (framing = ResponseBodyFraming.CloseDelimited)\<rparr>)
         in (Ok (), f\<lparr>fr_state :=
           (case framing of
              Interim \<Rightarrow> Headers []
            | NoBody \<Rightarrow> Complete
            | ResponseBodyFraming.ContentLength n \<Rightarrow> if n = 0 then Complete else ContentLength n
            | Chunked \<Rightarrow> ChunkSize []
            | ResponseBodyFraming.CloseDelimited \<Rightarrow> CloseDelimited)\<rparr>))"

definition headers_byte :: "bool \<Rightarrow> string \<Rightarrow> char \<Rightarrow> HttpResponseFraming \<Rightarrow> unit app \<times> HttpResponseFraming" where
  "headers_byte room headers c f =
    (case try_push_bounded room headers c (fr_max_header_bytes f) of
       Err e \<Rightarrow> (Err e, f\<lparr>fr_state := Failed\<rparr>)
     | Ok headers \<Rightarrow>
         if ends_with (crlf @ crlf) headers then headers_complete headers f
         else (Ok (), f\<lparr>fr_state := Headers headers\<rparr>))"

definition chunk_size_byte :: "bool \<Rightarrow> string \<Rightarrow> char \<Rightarrow> HttpResponseFraming \<Rightarrow> unit app \<times> HttpResponseFraming" where
  "chunk_size_byte room line c f =
    (case try_push_bounded room line c (fr_max_line_bytes f) of
       Err e \<Rightarrow> (Err e, f\<lparr>fr_state := Failed\<rparr>)
     | Ok line \<Rightarrow>
         if ends_with crlf line
         then case parse_chunk_size (take (length line - 2) line) of
             Err e \<Rightarrow> (Err e, f\<lparr>fr_state := Failed\<rparr>)
           | Ok n \<Rightarrow> (Ok (), f\<lparr>fr_state := if n = 0 then Trailers [] else ChunkData n\<rparr>)
         else (Ok (), f\<lparr>fr_state := ChunkSize line\<rparr>))"

definition chunk_crlf_byte :: "nat \<Rightarrow> char \<Rightarrow> HttpResponseFraming \<Rightarrow> unit app \<times> HttpResponseFraming" where
  "chunk_crlf_byte matched c f =
    (if c \<noteq> crlf ! matched then framing_fail ''chunk data is not followed by CRLF'' f
     else (Ok (), f\<lparr>fr_state := if matched + 1 = 2 then ChunkSize [] else ChunkDataCrlf (matched + 1)\<rparr>))"

definition trailer_byte :: "bool \<Rightarrow> string \<Rightarrow> char \<Rightarrow> HttpResponseFraming \<Rightarrow> unit app \<times> HttpResponseFraming" where
  "trailer_byte room line c f =
    (case try_push_bounded room line c (fr_max_line_bytes f) of
       Err e \<Rightarrow> (Err e, f\<lparr>fr_state := Failed\<rparr>)
     | Ok line \<Rightarrow>
         if ends_with crlf line
         then if length line = 2 then (Ok (), f\<lparr>fr_state := Complete\<rparr>)
              else if \<not> is_ok (validate_trailer_line (take (length line - 2) line))
              then framing_fail ''malformed chunk trailer'' f
              else (Ok (), f\<lparr>fr_state := Trailers []\<rparr>)
         else (Ok (), f\<lparr>fr_state := Trailers line\<rparr>))"

definition terminal_state :: "ResponseFramingState \<Rightarrow> bool" where
  "terminal_state s \<longleftrightarrow> s = Complete \<or> s = Failed"

fun block_rank :: "ResponseFramingState \<Rightarrow> nat" where
  "block_rank (ContentLength _) = 1"
| "block_rank (ChunkData _) = 1"
| "block_rank _ = 0"

function framing_loop ::
  "(nat \<Rightarrow> bool) \<Rightarrow> nat \<Rightarrow> string \<Rightarrow> HttpResponseFraming \<Rightarrow> nat app \<times> HttpResponseFraming" where
  "framing_loop room cursor [] f = (Ok cursor, f)"
| "framing_loop room cursor (c # cs) f =
    (case fr_state f of
       Headers headers \<Rightarrow>
         try_bind (headers_byte (room cursor) headers c f) (\<lambda>_ f. framing_loop room (cursor + 1) cs f)
     | ContentLength remaining \<Rightarrow>
         (let consumed = min remaining (length (c # cs)); left = remaining - consumed in
          framing_loop room (cursor + consumed) (drop consumed (c # cs))
            (f\<lparr>fr_state := if left = 0 then Complete else ContentLength left\<rparr>))
     | ChunkSize line \<Rightarrow>
         try_bind (chunk_size_byte (room cursor) line c f) (\<lambda>_ f. framing_loop room (cursor + 1) cs f)
     | ChunkData remaining \<Rightarrow>
         (let consumed = min remaining (length (c # cs)); left = remaining - consumed in
          framing_loop room (cursor + consumed) (drop consumed (c # cs))
            (f\<lparr>fr_state := if left = 0 then ChunkDataCrlf 0 else ChunkData left\<rparr>))
     | ChunkDataCrlf matched \<Rightarrow>
         try_bind (chunk_crlf_byte matched c f) (\<lambda>_ f. framing_loop room (cursor + 1) cs f)
     | Trailers line \<Rightarrow>
         try_bind (trailer_byte (room cursor) line c f) (\<lambda>_ f. framing_loop room (cursor + 1) cs f)
     | CloseDelimited \<Rightarrow> framing_loop room (cursor + length (c # cs)) [] f
     | Complete \<Rightarrow> (Ok cursor, f)
     | Failed \<Rightarrow> (Ok cursor, f))"
  by pat_completeness auto

termination
  by (relation "(\<lambda>(_, _, input, f). length input) <*mlex*> measure (\<lambda>(_, _, _, f). block_rank (fr_state f))")
    (auto simp: wf_mlex mlex_prod_def)

definition framing_progress :: "HttpResponseFraming \<Rightarrow> nat \<Rightarrow> nat \<Rightarrow> ResponseFramingProgress" where
  "framing_progress f consumed input_len =
    \<lparr>fp_consumed = consumed, fp_input_len = input_len, fp_phase = framing_phase f,
     fp_status_code = fr_status_code f\<rparr>"

definition framing_push ::
  "(nat \<Rightarrow> bool) \<Rightarrow> string \<Rightarrow> HttpResponseFraming \<Rightarrow> ResponseFramingProgress app \<times> HttpResponseFraming" where
  "framing_push room input f =
    (if terminal_state (fr_state f) then framing_fail ''response framing is already terminal'' f
     else try_bind (framing_loop room 0 input f) (\<lambda>cursor f.
       (Ok (framing_progress f cursor (length input)), f)))"

definition finish_on_eof ::
  "HttpResponseFraming \<Rightarrow> ResponseFramingProgress app \<times> HttpResponseFraming" where
  "finish_on_eof f =
    (case fr_state f of
       CloseDelimited \<Rightarrow>
         (let f = f\<lparr>fr_state := Complete\<rparr> in (Ok (framing_progress f 0 0), f))
     | Complete \<Rightarrow> (Ok (framing_progress f 0 0), f)
     | Failed \<Rightarrow> framing_fail ''response framing has failed'' f
     | _ \<Rightarrow> framing_fail ''upstream closed before response framing completed'' f)"

section \<open>A reference machine, one byte per step\<close>

definition framing_byte :: "bool \<Rightarrow> char \<Rightarrow> HttpResponseFraming \<Rightarrow> unit app \<times> HttpResponseFraming" where
  "framing_byte room c f =
    (case fr_state f of
       Headers headers \<Rightarrow> headers_byte room headers c f
     | ContentLength n \<Rightarrow> (Ok (), f\<lparr>fr_state := if n \<le> 1 then Complete else ContentLength (n - 1)\<rparr>)
     | ChunkSize line \<Rightarrow> chunk_size_byte room line c f
     | ChunkData n \<Rightarrow> (Ok (), f\<lparr>fr_state := if n \<le> 1 then ChunkDataCrlf 0 else ChunkData (n - 1)\<rparr>)
     | ChunkDataCrlf matched \<Rightarrow> chunk_crlf_byte matched c f
     | Trailers line \<Rightarrow> trailer_byte room line c f
     | _ \<Rightarrow> (Ok (), f))"

fun framing_ref ::
  "(nat \<Rightarrow> bool) \<Rightarrow> nat \<Rightarrow> string \<Rightarrow> HttpResponseFraming \<Rightarrow> nat app \<times> HttpResponseFraming" where
  "framing_ref room cursor [] f = (Ok cursor, f)"
| "framing_ref room cursor (c # cs) f =
    (if terminal_state (fr_state f) then (Ok cursor, f)
     else try_bind (framing_byte (room cursor) c f) (\<lambda>_ f. framing_ref room (cursor + 1) cs f))"

definition framing_inv :: "HttpResponseFraming \<Rightarrow> bool" where
  "framing_inv f \<longleftrightarrow>
    (case fr_state f of
       Headers headers \<Rightarrow> \<not> ends_with (crlf @ crlf) headers
     | ContentLength n \<Rightarrow> 0 < n
     | ChunkSize line \<Rightarrow> \<not> ends_with crlf line
     | ChunkData n \<Rightarrow> 0 < n
     | ChunkDataCrlf matched \<Rightarrow> matched < 2
     | Trailers line \<Rightarrow> \<not> ends_with crlf line
     | _ \<Rightarrow> True)"

lemma ends_with_Nil [simp]: "ends_with p [] \<longleftrightarrow> p = []"
  by (cases "rev p") (auto simp: ends_with_def)

lemma framing_byte_inv:
  assumes "framing_inv f" "framing_byte ok c f = (r, f')"
  shows "framing_inv f'"
proof (cases "fr_state f")
  case (Headers headers)
  then show ?thesis using assms
    by (auto simp: framing_byte_def headers_byte_def headers_complete_def framing_inv_def Let_def
        split: result.splits if_splits prod.splits ResponseBodyFraming.splits)
next
  case (ContentLength n)
  then show ?thesis using assms by (auto simp: framing_byte_def framing_inv_def)
next
  case (ChunkSize line)
  then show ?thesis using assms
    by (auto simp: framing_byte_def chunk_size_byte_def framing_inv_def split: result.splits if_splits)
next
  case (ChunkData n)
  then show ?thesis using assms by (auto simp: framing_byte_def framing_inv_def)
next
  case (ChunkDataCrlf n)
  then show ?thesis using assms
    by (auto simp: framing_byte_def chunk_crlf_byte_def framing_fail_def framing_inv_def split: if_splits)
next
  case (Trailers line)
  then show ?thesis using assms
    by (auto simp: framing_byte_def trailer_byte_def framing_fail_def framing_inv_def
        split: result.splits if_splits)
qed (use assms in \<open>auto simp: framing_byte_def\<close>)

lemma framing_ref_inv:
  "framing_inv f \<Longrightarrow> framing_ref room cursor input f = (r, f') \<Longrightarrow> framing_inv f'"
proof (induction input arbitrary: cursor f)
  case (Cons c cs)
  then consider "f' = f" | r' where "framing_byte (room cursor) c f = (r', f')"
    | f1 where "framing_byte (room cursor) c f = (Ok (), f1)"
        "framing_ref room (cursor + 1) cs f1 = (r, f')"
    by (auto split: if_splits try_bind_splits)
  then show ?case
    using Cons.prems(1) Cons.IH framing_byte_inv by cases blast+
qed simp

lemma fr_state_same: "fr_state f = x \<Longrightarrow> f\<lparr>fr_state := x\<rparr> = f"
  by (cases f) simp

text \<open>Skipping a block of body bytes is reading its bytes one after the other.\<close>

lemma framing_ref_length:
  "fr_state f = ContentLength n \<Longrightarrow> 0 < n \<Longrightarrow> length block \<le> n \<Longrightarrow>
    framing_ref room cursor (block @ rest) f = framing_ref room (cursor + length block) rest
      (f\<lparr>fr_state := if n = length block then Complete else ContentLength (n - length block)\<rparr>)"
proof (induction block arbitrary: cursor n f)
  case (Cons c block)
  let ?f = "f\<lparr>fr_state := if n \<le> 1 then Complete else ContentLength (n - 1)\<rparr>"
  have step: "framing_ref room cursor ((c # block) @ rest) f =
      framing_ref room (cursor + 1) (block @ rest) ?f"
    using Cons.prems by (simp add: framing_byte_def terminal_state_def)
  show ?case
  proof (cases "n \<le> 1")
    case True
    then have "block = []" "n = 1" using Cons.prems by (cases block, auto)+
    then show ?thesis using step by simp
  next
    case False
    then show ?thesis
      using step Cons.IH[of ?f "n - 1" "cursor + 1"] Cons.prems by auto
  qed
qed (simp add: fr_state_same)

lemma framing_ref_chunk:
  "fr_state f = ChunkData n \<Longrightarrow> 0 < n \<Longrightarrow> length block \<le> n \<Longrightarrow>
    framing_ref room cursor (block @ rest) f = framing_ref room (cursor + length block) rest
      (f\<lparr>fr_state := if n = length block then ChunkDataCrlf 0 else ChunkData (n - length block)\<rparr>)"
proof (induction block arbitrary: cursor n f)
  case (Cons c block)
  let ?f = "f\<lparr>fr_state := if n \<le> 1 then ChunkDataCrlf 0 else ChunkData (n - 1)\<rparr>"
  have step: "framing_ref room cursor ((c # block) @ rest) f =
      framing_ref room (cursor + 1) (block @ rest) ?f"
    using Cons.prems by (simp add: framing_byte_def terminal_state_def)
  show ?case
  proof (cases "n \<le> 1")
    case True
    then have "block = []" "n = 1" using Cons.prems by (cases block, auto)+
    then show ?thesis using step by simp
  next
    case False
    then show ?thesis
      using step Cons.IH[of ?f "n - 1" "cursor + 1"] Cons.prems by auto
  qed
qed (simp add: fr_state_same)

lemma framing_ref_blocks:
  assumes "k = min n (length input)" "0 < n"
  shows "fr_state f = ContentLength n \<Longrightarrow> framing_ref room cursor input f =
      framing_ref room (cursor + k) (drop k input)
        (f\<lparr>fr_state := if n - k = 0 then Complete else ContentLength (n - k)\<rparr>)"
    and "fr_state f = ChunkData n \<Longrightarrow> framing_ref room cursor input f =
      framing_ref room (cursor + k) (drop k input)
        (f\<lparr>fr_state := if n - k = 0 then ChunkDataCrlf 0 else ChunkData (n - k)\<rparr>)"
proof -
  have k: "length (take k input) = k" "k \<le> n" "(n = k) = (n - k = 0)" using assms by auto
  show "framing_ref room cursor input f = framing_ref room (cursor + k) (drop k input)
      (f\<lparr>fr_state := if n - k = 0 then Complete else ContentLength (n - k)\<rparr>)"
    if "fr_state f = ContentLength n"
    using framing_ref_length[OF that assms(2), of "take k input" room cursor "drop k input"]
    unfolding append_take_drop_id k using k(2) by simp
  show "framing_ref room cursor input f = framing_ref room (cursor + k) (drop k input)
      (f\<lparr>fr_state := if n - k = 0 then ChunkDataCrlf 0 else ChunkData (n - k)\<rparr>)"
    if "fr_state f = ChunkData n"
    using framing_ref_chunk[OF that assms(2), of "take k input" room cursor "drop k input"]
    unfolding append_take_drop_id k using k(2) by simp
qed

lemma framing_ref_close:
  "fr_state f = CloseDelimited \<Longrightarrow> framing_ref room cursor input f = (Ok (cursor + length input), f)"
  by (induction input arbitrary: cursor) (auto simp: framing_byte_def terminal_state_def)

lemma framing_loop_ref:
  "framing_inv f \<Longrightarrow> framing_loop room cursor input f = framing_ref room cursor input f"
proof (induction room cursor input f rule: framing_loop.induct)
  case (2 room cursor c cs f)
  note IH = 2(1-7) and inv = 2(8)
  have go: "try_bind (framing_byte (room cursor) c f) (\<lambda>_ f. framing_loop room (cursor + 1) cs f) =
      try_bind (framing_byte (room cursor) c f) (\<lambda>_ f. framing_ref room (cursor + 1) cs f)"
    if "\<And>f. framing_inv f \<Longrightarrow> framing_loop room (cursor + 1) cs f = framing_ref room (cursor + 1) cs f"
    using that framing_byte_inv[OF inv] by (auto split: try_bind_splits)
  show ?case
  proof (cases "fr_state f")
    case (ContentLength n)
    then have n: "0 < n" using inv by (simp add: framing_inv_def)
    define k where k: "k = min n (length (c # cs))"
    have "framing_loop room cursor (c # cs) f = framing_loop room (cursor + k) (drop k (c # cs))
        (f\<lparr>fr_state := if n - k = 0 then Complete else ContentLength (n - k)\<rparr>)"
      using ContentLength by (simp add: k Let_def)
    also have "\<dots> = framing_ref room (cursor + k) (drop k (c # cs))
        (f\<lparr>fr_state := if n - k = 0 then Complete else ContentLength (n - k)\<rparr>)"
      by (rule IH(2)[OF ContentLength k refl]) (simp add: framing_inv_def)
    finally show ?thesis using framing_ref_blocks(1)[OF k n ContentLength] by metis
  next
    case (ChunkData n)
    then have n: "0 < n" using inv by (simp add: framing_inv_def)
    define k where k: "k = min n (length (c # cs))"
    have "framing_loop room cursor (c # cs) f = framing_loop room (cursor + k) (drop k (c # cs))
        (f\<lparr>fr_state := if n - k = 0 then ChunkDataCrlf 0 else ChunkData (n - k)\<rparr>)"
      using ChunkData by (simp add: k Let_def)
    also have "\<dots> = framing_ref room (cursor + k) (drop k (c # cs))
        (f\<lparr>fr_state := if n - k = 0 then ChunkDataCrlf 0 else ChunkData (n - k)\<rparr>)"
      by (rule IH(4)[OF ChunkData k refl]) (simp add: framing_inv_def)
    finally show ?thesis using framing_ref_blocks(2)[OF k n ChunkData] by metis
  next
    case (Headers h)
    then show ?thesis using go IH(1)[OF Headers] by (simp add: framing_byte_def terminal_state_def)
  next
    case (ChunkSize l)
    then show ?thesis using go IH(3)[OF ChunkSize] by (simp add: framing_byte_def terminal_state_def)
  next
    case (ChunkDataCrlf k)
    then show ?thesis using go IH(5)[OF ChunkDataCrlf] by (simp add: framing_byte_def terminal_state_def)
  next
    case (Trailers l)
    then show ?thesis using go IH(6)[OF Trailers] by (simp add: framing_byte_def terminal_state_def)
  next
    case CloseDelimited
    then show ?thesis
      using framing_ref_close[OF CloseDelimited, of room cursor "c # cs"] by simp
  qed (simp_all add: terminal_state_def)
qed simp

section \<open>Fragments\<close>

lemma framing_ref_terminal [simp]:
  "terminal_state (fr_state f) \<Longrightarrow> framing_ref room cursor input f = (Ok cursor, f)"
  by (cases input) auto

lemma framing_ref_append:
  "framing_ref room cursor (a @ b) f =
    try_bind (framing_ref room cursor a f) (\<lambda>k f. framing_ref room k b f)"
proof (induction a arbitrary: cursor f)
  case (Cons c a)
  then show ?case
    by (cases "framing_byte (room cursor) c f"; cases "fst (framing_byte (room cursor) c f)") auto
qed simp

lemma framing_ref_consumed:
  "framing_ref room cursor input f = (Ok k, f') \<Longrightarrow>
    cursor \<le> k \<and> k \<le> cursor + length input \<and> (\<not> terminal_state (fr_state f') \<longrightarrow> k = cursor + length input)"
proof (induction input arbitrary: cursor f)
  case (Cons c cs)
  show ?case
  proof (cases "terminal_state (fr_state f)")
    case False
    then obtain f1 where "framing_ref room (cursor + 1) cs f1 = (Ok k, f')"
      using Cons.prems by (auto split: try_bind_splits)
    then show ?thesis using Cons.IH by fastforce
  qed (use Cons.prems in auto)
qed simp

lemma framing_ref_shift:
  "framing_ref (\<lambda>_. ok) (cursor + d) input f =
    try_bind (framing_ref (\<lambda>_. ok) cursor input f) (\<lambda>k f. (Ok (k + d), f))"
proof (induction input arbitrary: cursor f)
  case (Cons c cs)
  show ?case
    using Cons[of "Suc cursor"]
    by (cases "framing_byte ok c f"; cases "fst (framing_byte ok c f)") auto
qed simp

text \<open>
  What the event loop learns from a push when memory suffices: the phase, the status code and the
  bytes that are not part of the response.
\<close>

definition framing_read ::
  "string \<Rightarrow> HttpResponseFraming
    \<Rightarrow> (ResponseFramingPhase \<times> nat option \<times> string) app \<times> HttpResponseFraming" where
  "framing_read input f =
    try_bind (framing_push (\<lambda>_. True) input f) (\<lambda>p f.
      (Ok (fp_phase p, fp_status_code p, drop (fp_consumed p) input), f))"

definition framing_pending :: "(ResponseFramingPhase \<times> nat option \<times> string) app \<Rightarrow> bool" where
  "framing_pending r \<longleftrightarrow>
    (case r of Err _ \<Rightarrow> False
     | Ok (phase, _) \<Rightarrow> phase \<noteq> ResponseFramingPhase.Complete \<and> phase \<noteq> ResponseFramingPhase.Failed)"

lemma state_phase_terminal:
  "terminal_state s \<longleftrightarrow>
    state_phase s = ResponseFramingPhase.Complete \<or> state_phase s = ResponseFramingPhase.Failed"
  by (cases s) (simp_all add: terminal_state_def state_phase_def)

lemma framing_read_eq:
  "framing_inv f \<Longrightarrow> \<not> terminal_state (fr_state f) \<Longrightarrow>
    framing_read input f = try_bind (framing_ref (\<lambda>_. True) 0 input f) (\<lambda>k f.
      (Ok (framing_phase f, fr_status_code f, drop k input), f))"
  by (cases "framing_ref (\<lambda>_. True) 0 input f"; cases "fst (framing_ref (\<lambda>_. True) 0 input f)")
    (auto simp: framing_read_def framing_push_def framing_loop_ref framing_progress_def)

lemma framing_read_pending:
  assumes "framing_inv f" "framing_read a f = (r, f')" "framing_pending r"
  shows "\<not> terminal_state (fr_state f) \<and> \<not> terminal_state (fr_state f') \<and> framing_inv f' \<and>
    framing_ref (\<lambda>_. True) 0 a f = (Ok (length a), f')"
proof -
  have nt: "\<not> terminal_state (fr_state f)"
    using assms(2,3) by (auto simp: framing_read_def framing_push_def framing_fail_def framing_pending_def)
  then obtain k where k: "framing_ref (\<lambda>_. True) 0 a f = (Ok k, f')"
      "r = Ok (framing_phase f', fr_status_code f', drop k a)"
    using assms by (auto simp: framing_read_eq framing_pending_def split: try_bind_splits)
  then have "\<not> terminal_state (fr_state f')"
    using assms(3) by (simp add: framing_pending_def framing_phase_def state_phase_terminal)
  then show ?thesis
    using nt k framing_ref_consumed[OF k(1)] framing_ref_inv[OF assms(1) k(1)] by simp
qed

interpretation response_framing: chunked_reader framing_inv framing_read framing_pending
proof (unfold_locales, goal_cases)
  case (1 f a r f')
  then show ?case using framing_read_pending by blast
next
  case (2 f a r f' b)
  note p = framing_read_pending[OF 2]
  have "framing_read (a @ b) f = try_bind (framing_ref (\<lambda>_. True) (0 + length a) b f') (\<lambda>k f.
      (Ok (framing_phase f, fr_status_code f, drop k (a @ b)), f))"
    using p 2(1) by (simp add: framing_read_eq framing_ref_append)
  also have "\<dots> = framing_read b f'"
    using p unfolding framing_ref_shift
    by (cases "framing_ref (\<lambda>_. True) 0 b f'"; cases "fst (framing_ref (\<lambda>_. True) 0 b f')")
      (simp_all add: framing_read_eq)
  finally show ?case by simp
qed

lemma new_framing_inv: "framing_inv (with_body_expectation max_header max_line e)"
  by (simp add: framing_inv_def with_body_expectation_def)

section \<open>Where a response ends\<close>

lemma headers_block:
  assumes "fr_state f = Headers acc" "rest \<noteq> []" "ends_with (crlf @ crlf) (acc @ rest)"
    "\<forall>j < length rest. \<not> ends_with (crlf @ crlf) (acc @ take j rest)"
    "length acc + length rest \<le> fr_max_header_bytes f"
  shows "framing_ref (\<lambda>_. True) cursor (rest @ tail) f =
    try_bind (headers_complete (acc @ rest) f) (\<lambda>_ f.
      framing_ref (\<lambda>_. True) (cursor + length rest) tail f)"
  using assms
proof (induction rest arbitrary: acc cursor f)
  case (Cons c rest)
  have short: "try_push_bounded True acc c (fr_max_header_bytes f) = Ok (acc @ [c])"
    using Cons.prems(5) by (simp add: try_push_bounded_def)
  show ?case
  proof (cases "rest = []")
    case True
    then show ?thesis using Cons.prems(1,3) short
      by (simp add: framing_byte_def headers_byte_def terminal_state_def)
  next
    case False
    let ?f = "f\<lparr>fr_state := Headers (acc @ [c])\<rparr>"
    have "\<not> ends_with (crlf @ crlf) (acc @ take 1 (c # rest))"
      using Cons.prems(4) False by (metis One_nat_def length_Cons length_greater_0_conv Suc_less_eq)
    then have step: "framing_ref (\<lambda>_. True) cursor ((c # rest) @ tail) f =
        framing_ref (\<lambda>_. True) (cursor + 1) (rest @ tail) ?f"
      using Cons.prems(1) short by (simp add: framing_byte_def headers_byte_def terminal_state_def)
    have "\<not> ends_with (crlf @ crlf) ((acc @ [c]) @ take j rest)" if "j < length rest" for j
      using Cons.prems(4)[rule_format, of "Suc j"] that by simp
    moreover have "headers_complete bytes ?f = headers_complete bytes f" for bytes
      by (simp add: headers_complete_def Let_def split: result.splits prod.splits)
    ultimately show ?thesis
      using step Cons.IH[of ?f "acc @ [c]" "cursor + 1"] Cons.prems(3,5) False by simp
  qed
qed simp

lemma chunk_size_line:
  assumes "fr_state f = ChunkSize acc" "CR \<notin> set acc" "CR \<notin> set line"
    "length acc + length line + 2 \<le> fr_max_line_bytes f" "parse_chunk_size (acc @ line) = Ok n"
  shows "framing_ref (\<lambda>_. True) cursor (line @ crlf @ tail) f =
    framing_ref (\<lambda>_. True) (cursor + length line + 2) tail
      (f\<lparr>fr_state := if n = 0 then Trailers [] else ChunkData n\<rparr>)"
  using assms
proof (induction line arbitrary: acc cursor f)
  case Nil
  have "\<not> ends_with crlf (acc @ [CR])" "ends_with crlf (acc @ crlf)" by (auto simp: ends_with_iff)
  then show ?case using Nil
    by (simp add: framing_byte_def chunk_size_byte_def try_push_bounded_def terminal_state_def)
next
  case (Cons c line)
  have "\<not> ends_with crlf (acc @ [c])" using Cons.prems by (auto simp: ends_with_iff append_eq_append_conv2 Cons_eq_append_conv)
  then have "framing_ref (\<lambda>_. True) cursor ((c # line) @ crlf @ tail) f =
      framing_ref (\<lambda>_. True) (cursor + 1) (line @ crlf @ tail) (f\<lparr>fr_state := ChunkSize (acc @ [c])\<rparr>)"
    using Cons.prems by (simp add: framing_byte_def chunk_size_byte_def try_push_bounded_def terminal_state_def)
  then show ?case
    using Cons.IH[of "f\<lparr>fr_state := ChunkSize (acc @ [c])\<rparr>" "acc @ [c]" "cursor + 1"] Cons.prems by simp
qed

text \<open>A message body as a sender writes it for each kind of framing.\<close>

definition chunk_encode :: "string \<Rightarrow> string" where
  "chunk_encode d = hex (length d) @ crlf @ d @ crlf"

definition chunked_encode :: "string list \<Rightarrow> string" where
  "chunked_encode ds = concat (map chunk_encode ds) @ ''0'' @ crlf @ crlf"

fun body_for :: "ResponseBodyFraming \<Rightarrow> string list \<Rightarrow> string \<Rightarrow> bool" where
  "body_for NoBody ds body \<longleftrightarrow> body = []"
| "body_for (ResponseBodyFraming.ContentLength n) ds body \<longleftrightarrow> length body = n"
| "body_for Chunked ds body \<longleftrightarrow>
    (\<forall>d \<in> set ds. d \<noteq> [] \<and> length d \<le> usize_max) \<and> body = chunked_encode ds"
| "body_for _ ds body \<longleftrightarrow> False"

lemma parse_chunk_size_hex: "n \<le> usize_max \<Longrightarrow> parse_chunk_size (hex n) = Ok n"
proof -
  assume n: "n \<le> usize_max"
  have word: "\<forall>c \<in> set (hex n). is_ascii_alphanumeric c" "hex n \<noteq> []" using hex_word by blast+
  have "utf8_valid (hex n)" by (rule utf8_valid_ascii) (metis word(1) alphanumeric_facts)
  moreover have "CHR '';'' \<notin> set (hex n)" using word(1) alphanumeric_facts by blast
  moreover have "trim (hex n) = hex n" by (rule trim_word) (use word in simp)
  ultimately show ?thesis
    using parse_unsigned_hex[OF n] word(2) by (simp add: parse_chunk_size_def split_char_absent)
qed

lemma hex_line: "n \<le> usize_max \<Longrightarrow> CR \<notin> set (hex n) \<and> length (hex n) \<le> 16"
proof
  assume n: "n \<le> usize_max"
  show "CR \<notin> set (hex n)" using hex_word[of n] alphanumeric_facts by blast
  have "n < 16 ^ Suc 15" using n by (simp add: usize_max_def)
  from length_hex[OF this] show "length (hex n) \<le> 16" by simp
qed

lemma crlf_after_chunk:
  "fr_state f = ChunkDataCrlf 0 \<Longrightarrow> framing_ref room cursor (crlf @ tail) f =
    framing_ref room (cursor + 2) tail (f\<lparr>fr_state := ChunkSize []\<rparr>)"
  by (simp add: framing_byte_def chunk_crlf_byte_def terminal_state_def)

lemma chunk_block:
  assumes "fr_state f = ChunkSize []" "d \<noteq> []" "length d \<le> usize_max" "18 \<le> fr_max_line_bytes f"
  shows "framing_ref (\<lambda>_. True) cursor (chunk_encode d @ tail) f =
    framing_ref (\<lambda>_. True) (cursor + length (chunk_encode d)) tail f"
proof -
  let ?d = "f\<lparr>fr_state := ChunkData (length d)\<rparr>" and ?n = "cursor + length (hex (length d)) + 2"
  have "framing_ref (\<lambda>_. True) cursor (hex (length d) @ crlf @ d @ crlf @ tail) f =
      framing_ref (\<lambda>_. True) ?n (d @ crlf @ tail) ?d"
    using chunk_size_line[OF assms(1), of "hex (length d)" "length d" cursor "d @ crlf @ tail"]
      hex_line[OF assms(3)] parse_chunk_size_hex[OF assms(3)] assms(2,4) by simp
  also have "\<dots> = framing_ref (\<lambda>_. True) (?n + length d) (crlf @ tail)
      (?d\<lparr>fr_state := ChunkDataCrlf 0\<rparr>)"
    using framing_ref_chunk[of ?d "length d" d "\<lambda>_. True" ?n "crlf @ tail"] assms(2) by simp
  also have "\<dots> = framing_ref (\<lambda>_. True) (?n + length d + 2) tail
      (?d\<lparr>fr_state := ChunkDataCrlf 0, fr_state := ChunkSize []\<rparr>)"
    by (rule crlf_after_chunk) simp
  finally show ?thesis
    using fr_state_same[OF assms(1)] by (simp add: chunk_encode_def add.assoc)
qed

lemma chunked_body:
  assumes "fr_state f = ChunkSize []" "\<forall>d \<in> set ds. d \<noteq> [] \<and> length d \<le> usize_max"
    "18 \<le> fr_max_line_bytes f"
  shows "framing_ref (\<lambda>_. True) cursor (chunked_encode ds @ tail) f =
    (Ok (cursor + length (chunked_encode ds)), f\<lparr>fr_state := Complete\<rparr>)"
  using assms(2)
proof (induction ds arbitrary: cursor)
  case Nil
  have zero: "parse_chunk_size ''0'' = Ok 0" by code_simp
  have "framing_ref (\<lambda>_. True) cursor (''0'' @ crlf @ crlf @ tail) f =
      framing_ref (\<lambda>_. True) (cursor + length ''0'' + 2) (crlf @ tail)
        (f\<lparr>fr_state := if (0::nat) = 0 then Trailers [] else ChunkData 0\<rparr>)"
    by (rule chunk_size_line[OF assms(1)]) (use zero assms(3) in simp_all)
  moreover have "\<not> ends_with crlf [CR]" "ends_with crlf crlf" by code_simp+
  ultimately show ?case using assms(3)
    by (simp add: chunked_encode_def framing_byte_def trailer_byte_def try_push_bounded_def terminal_state_def)
next
  case (Cons d ds)
  have "framing_ref (\<lambda>_. True) cursor (chunk_encode d @ (chunked_encode ds @ tail)) f =
      (Ok (cursor + length (chunk_encode d) + length (chunked_encode ds)), f\<lparr>fr_state := Complete\<rparr>)"
    using chunk_block[OF assms(1), of d] Cons assms(3) by simp
  then show ?case by (simp add: chunked_encode_def)
qed

lemma body_consumed:
  assumes "headers_complete head f = (Ok (), f1)" "body_for framing ds body" "18 \<le> fr_max_line_bytes f"
    "parse_response_framing_headers head (fr_body_expectation f) = Ok (status, framing, close)"
  shows "\<exists>f2. framing_ref (\<lambda>_. True) cursor (body @ extra) f1 = (Ok (cursor + length body), f2) \<and>
    fr_state f2 = Complete \<and> fr_status_code f2 = Some status \<and>
    is_keep_alive_reusable f2 = (\<not> close)"
proof -
  have f1: "f1 = f\<lparr>fr_status_code := Some status, fr_connection_close := close,
      fr_close_delimited := False, fr_state := fr_state f1\<rparr>" and
    st: "fr_state f1 = (case framing of
        ResponseBodyFraming.ContentLength n \<Rightarrow> if n = 0 then Complete else ContentLength n
      | Chunked \<Rightarrow> ChunkSize [] | _ \<Rightarrow> Complete)"
    using assms(1,2,4) by (cases framing; auto simp: headers_complete_def Let_def)+
  have fin: "is_keep_alive_reusable (f1\<lparr>fr_state := Complete\<rparr>) = (\<not> close)"
      "fr_status_code f1 = Some status" "18 \<le> fr_max_line_bytes f1"
    using assms(3) by (subst f1; simp add: is_keep_alive_reusable_def)+
  have "framing_ref (\<lambda>_. True) cursor (body @ extra) f1 =
      (Ok (cursor + length body), f1\<lparr>fr_state := Complete\<rparr>)"
  proof (cases "fr_state f1 = Complete")
    case True
    then have "body = []" using assms(2) st by (cases framing) (auto split: if_splits)
    then show ?thesis using True fr_state_same[OF True] by (simp add: terminal_state_def)
  next
    case False
    then consider n where "framing = ResponseBodyFraming.ContentLength n" "0 < n" | "framing = Chunked"
      using assms(2) st by (cases framing) (auto split: if_splits)
    then show ?thesis
    proof cases
      case 1
      then show ?thesis
        using framing_ref_length[of f1 n body "\<lambda>_. True" cursor extra] assms(2) st
        by (simp add: terminal_state_def)
    next
      case 2
      then show ?thesis using chunked_body[of f1 ds] assms(2) st fin(3) by simp
    qed
  qed
  then show ?thesis using fin by (intro exI[of _ "f1\<lparr>fr_state := Complete\<rparr>"]) simp
qed

text \<open>A head whose first blank line is at its end is consumed as a whole.\<close>

lemma head_consumed:
  assumes "find_sub (crlf @ crlf) head = Some (length head - 4)" "length head \<le> max_header"
  shows "framing_ref (\<lambda>_. True) cursor (head @ tail) (with_body_expectation max_header max_line e) =
    try_bind (headers_complete head (with_body_expectation max_header max_line e)) (\<lambda>_ f.
      framing_ref (\<lambda>_. True) (cursor + length head) tail f)"
proof -
  let ?f = "with_body_expectation max_header max_line e"
  have st: "fr_state ?f = Headers []" "fr_max_header_bytes ?f = max_header"
    by (simp_all add: with_body_expectation_def)
  note first = find_sub_Some[OF assms(1)]
  obtain t where t: "drop (length head - 4) head = crlf @ crlf @ t"
    using first by (auto simp: starts_with_iff)
  have "length (drop (length head - 4) head) \<le> 4" by simp
  then have "t = []" unfolding t by simp
  then have head: "head = take (length head - 4) head @ crlf @ crlf"
    using t append_take_drop_id[of "length head - 4" head] by simp
  then have ends: "ends_with (crlf @ crlf) head" unfolding ends_with_iff by blast
  have "head \<noteq> []" using head by (metis Nil_is_append_conv list.distinct(1))
  have four: "4 \<le> length head" using arg_cong[OF head, of length] by simp
  have early: "\<not> ends_with (crlf @ crlf) (take j head)" if "j < length head" for j
  proof
    assume "ends_with (crlf @ crlf) (take j head)"
    then obtain p where p: "take j head = p @ crlf @ crlf" by (auto simp: ends_with_iff)
    then have "drop (length p) head = (crlf @ crlf) @ drop j head"
      by (metis append.assoc append_eq_conv_conj append_take_drop_id)
    moreover have "length p + 4 \<le> j" using arg_cong[OF p, of length] by simp
    ultimately show False using first that four by (metis add_less_imp_less_right
        le_add_diff_inverse2 order_le_less_trans starts_with_iff)
  qed
  show ?thesis
    using headers_block[OF st(1), of head cursor tail] \<open>head \<noteq> []\<close> ends early assms(2) st(2) by simp
qed

lemma response_consumed:
  assumes "parse_response_framing_headers head e = Ok (status, framing, close)"
    "body_for framing ds body" "find_sub (crlf @ crlf) head = Some (length head - 4)"
    "length head \<le> max_header" "18 \<le> max_line"
  shows "\<exists>f. framing_ref (\<lambda>_. True) 0 (head @ body @ extra) (with_body_expectation max_header max_line e) =
      (Ok (length head + length body), f) \<and>
    fr_state f = Complete \<and> fr_status_code f = Some status \<and> is_keep_alive_reusable f = (\<not> close)"
proof -
  let ?f = "with_body_expectation max_header max_line e"
  have st: "fr_max_line_bytes ?f = max_line" "fr_body_expectation ?f = e"
    by (simp_all add: with_body_expectation_def)
  obtain f1 where f1: "headers_complete head ?f = (Ok (), f1)"
    using assms(1) st(2) by (simp add: headers_complete_def Let_def)
  obtain f2 where f2: "framing_ref (\<lambda>_. True) (0 + length head) (body @ extra) f1 =
      (Ok (0 + length head + length body), f2)" "fr_state f2 = Complete" "fr_status_code f2 = Some status"
      "is_keep_alive_reusable f2 = (\<not> close)"
    using body_consumed[OF f1 assms(2), of status close "0 + length head" extra] assms(1,5) st by metis
  then show ?thesis using head_consumed[OF assms(3,4), of 0 "body @ extra" max_line e] f1 by auto
qed

lemma framing_push_complete:
  assumes "framing_ref (\<lambda>_. True) 0 input (with_body_expectation max_header max_line e) = (Ok k, f)"
    "fr_state f = Complete"
  shows "framing_push (\<lambda>_. True) input (with_body_expectation max_header max_line e) =
    (Ok \<lparr>fp_consumed = k, fp_input_len = length input, fp_phase = ResponseFramingPhase.Complete,
       fp_status_code = fr_status_code f\<rparr>, f)"
proof -
  have "\<not> terminal_state (fr_state (with_body_expectation max_header max_line e))"
    by (simp add: with_body_expectation_def terminal_state_def)
  then show ?thesis using assms
    by (simp add: framing_push_def framing_loop_ref new_framing_inv framing_progress_def framing_phase_def
        state_phase_def terminal_state_def)
qed

section \<open>Properties of response framing\<close>

text \<open>
  C7: How the bytes of a response are cut does not matter. Feeding chunks until the response
  completes or fails gives the phase, the status code, the state and the left-over bytes of a
  single push of the bytes read so far.
\<close>

theorem response_fragments_reassemble:
  fixes max_header max_line :: nat and e :: ResponseBodyExpectation
  defines "f0 \<equiv> with_body_expectation max_header max_line e"
  shows "(\<exists>k \<le> length ds. feed framing_read framing_pending c ds f0 =
      framing_read (c @ concat (take k ds)) f0) \<and>
    (framing_pending (fst (feed framing_read framing_pending c ds f0)) \<longrightarrow>
      feed framing_read framing_pending c ds f0 = framing_read (c @ concat ds) f0)"
  using response_framing.feed_is_push response_framing.feed_whole new_framing_inv
  unfolding f0_def by blast

definition sample_head :: string where
  "sample_head = ''HTTP/1.1 200 OK'' @ crlf @ ''Transfer-Encoding: chunked'' @ crlf @ crlf"

theorem response_fragments_reassemble_witness:
  "feed framing_read framing_pending (take 20 sample_head) [drop 20 sample_head, ''3'' @ crlf @ ''ab'']
     (with_body_expectation 100 20 Normal) =
   framing_read (sample_head @ ''3'' @ crlf @ ''ab'') (with_body_expectation 100 20 Normal)"
proof -
  have "framing_pending (fst (feed framing_read framing_pending (take 20 sample_head)
      [drop 20 sample_head, ''3'' @ crlf @ ''ab''] (with_body_expectation 100 20 Normal)))" by code_simp
  moreover have "take 20 sample_head @ concat [drop 20 sample_head, ''3'' @ crlf @ ''ab''] =
      sample_head @ ''3'' @ crlf @ ''ab''" by code_simp
  ultimately show ?thesis
    using response_fragments_reassemble[where c = "take 20 sample_head"
        and ds = "[drop 20 sample_head, ''3'' @ crlf @ ''ab'']" and max_header = 100 and max_line = 20
        and e = Normal] by metis
qed

text \<open>
  C4: A response ends exactly where its sender ended it. When the header block is accepted, within
  the limit and has its first blank line at its end, a push of the block, a body written for the
  framing it declares (nothing, Content-Length many bytes, or any sequence of chunks) and any bytes
  after it completes the response and consumes the block and the body and not one byte more; the
  upstream socket may be reused exactly when the upstream did not ask to close.
\<close>

theorem response_ends_where_it_should:
  assumes "parse_response_framing_headers head e = Ok (status, framing, close)"
    "body_for framing ds body" "find_sub (crlf @ crlf) head = Some (length head - 4)"
    "length head \<le> max_header" "18 \<le> max_line"
  shows "\<exists>f. framing_push (\<lambda>_. True) (head @ body @ extra) (with_body_expectation max_header max_line e) =
      (Ok \<lparr>fp_consumed = length head + length body, fp_input_len = length (head @ body @ extra),
         fp_phase = ResponseFramingPhase.Complete, fp_status_code = Some status\<rparr>, f) \<and>
    is_keep_alive_reusable f = (\<not> close)"
proof -
  let ?f = "with_body_expectation max_header max_line e"
  obtain f2 where f2: "framing_ref (\<lambda>_. True) 0 (head @ body @ extra) ?f = (Ok (length head + length body), f2)"
      "fr_state f2 = Complete" "fr_status_code f2 = Some status" "is_keep_alive_reusable f2 = (\<not> close)"
    using response_consumed[OF assms] by blast
  then show ?thesis using framing_push_complete[OF f2(1,2)] by auto
qed

theorem response_ends_where_it_should_witness:
  "\<exists>f. framing_push (\<lambda>_. True) (sample_head @ chunked_encode [''abc'', ''de''] @ ''HTTP/1.1 500'')
      (with_body_expectation 100 20 Normal) =
    (Ok \<lparr>fp_consumed = 67, fp_input_len = 79, fp_phase = ResponseFramingPhase.Complete,
       fp_status_code = Some 200\<rparr>, f)"
proof -
  have head: "parse_response_framing_headers sample_head Normal = Ok (200, Chunked, False)"
      "find_sub (crlf @ crlf) sample_head = Some (length sample_head - 4)"
    by code_simp+
  have len: "length sample_head + length (chunked_encode [''abc'', ''de'']) = 67"
      "length (sample_head @ chunked_encode [''abc'', ''de''] @ ''HTTP/1.1 500'') = 79"
      "length sample_head \<le> 100"
    by code_simp+
  have "body_for Chunked [''abc'', ''de''] (chunked_encode [''abc'', ''de''])" by (simp add: usize_max_def)
  from response_ends_where_it_should[OF head(1) this head(2) len(3), of 20 "''HTTP/1.1 500''"] len
  show ?thesis by auto
qed

end
