(* ===== verification/Endpoint.thy ===== *)
theory Endpoint
  imports Errors RustStr
begin

text \<open>
  Upstream addresses and TLS policies (\<^verbatim>\<open>edge-domain/src/lib.rs\<close>): the two endpoint types with
  their parsers and printers, TLS server names, HTTP host overrides, trust bundle references, and
  the rules that combine them with the schema version. The lemmas show that printing an endpoint
  and parsing it again gives it back, and which policies a configuration can end up with.
\<close>

section \<open>Validation errors\<close>

record ValidationError =
  ve_code :: ErrorCode
  ve_message :: string

type_synonym 'a valid = "('a, ValidationError) result"

abbreviation validation_error :: "ConfigCode \<Rightarrow> string \<Rightarrow> 'a valid" where
  "validation_error code m \<equiv> Err \<lparr>ve_code = Config code, ve_message = m\<rparr>"

abbreviation invalid_upstream_url :: "'a valid" where
  "invalid_upstream_url \<equiv> validation_error ConfigInvalidUpstreamUrl
     ''upstream URL must use HTTP with a literal IP address and valid port''"

abbreviation invalid_upstream_http_host :: "'a valid" where
  "invalid_upstream_http_host \<equiv> validation_error ConfigUpstreamHttpHostInvalid
     ''upstream HTTP Host authority is invalid''"

abbreviation invalid_tls_policy :: "'a valid" where
  "invalid_tls_policy \<equiv> validation_error ConfigTlsPolicyInvalid
     ''upstream TLS policy is incomplete or contradicts its scheme''"

abbreviation invalid_client_auth_policy :: "'a valid" where
  "invalid_client_auth_policy \<equiv> validation_error ConfigClientAuthPolicyInvalid
     ''listener client-auth policy is invalid''"

section \<open>Literals, ports and names\<close>

text \<open>
  \<^verbatim>\<open>char::is_control\<close> and \<^verbatim>\<open>char::is_whitespace\<close> on the bytes of a UTF-8 string: the control
  characters above ASCII are the two-byte sequences from C2 80 to C2 9F.
\<close>

fun contains_control :: "string \<Rightarrow> bool" where
  "contains_control [] = False"
| "contains_control (c # cs) \<longleftrightarrow>
    byte c < 32 \<or> byte c = 127 \<or>
    (byte c = 0xC2 \<and> cs \<noteq> [] \<and> between 0x80 0x9F (hd cs)) \<or> contains_control cs"

definition contains_whitespace :: "string \<Rightarrow> bool" where
  "contains_whitespace s \<longleftrightarrow> list_ex (\<lambda>w. find_sub w s \<noteq> None) ws_chars"

definition contains_any :: "string \<Rightarrow> string \<Rightarrow> bool" where
  "contains_any cs s \<longleftrightarrow> list_ex (\<lambda>c. c \<in> set cs) s"

fun split_colons :: "string \<Rightarrow> string list" where
  "split_colons [] = [[]]"
| "split_colons [c] = [[c]]"
| "split_colons (c # d # cs) =
    (if c = CHR '':'' \<and> d = CHR '':'' then [] # split_colons cs
     else case split_colons (d # cs) of l # ls \<Rightarrow> (c # l) # ls | [] \<Rightarrow> [[c]])"

definition is_ascii_hexdigit :: "char \<Rightarrow> bool" where
  "is_ascii_hexdigit c \<longleftrightarrow> is_ascii_digit c \<or> between 97 102 c \<or> between 65 70 c"

definition valid_dns_label :: "string \<Rightarrow> bool" where
  "valid_dns_label label \<longleftrightarrow>
    label \<noteq> [] \<and> length label \<le> 63 \<and> hd label \<noteq> CHR ''-'' \<and> last label \<noteq> CHR ''-'' \<and>
    list_all (\<lambda>c. is_ascii_alphanumeric c \<or> c = CHR ''-'') label"

definition valid_dns_name :: "string \<Rightarrow> bool" where
  "valid_dns_name s \<longleftrightarrow>
    s \<noteq> [] \<and> length s \<le> 253 \<and> CHR ''.'' \<in> set s \<and>
    list_all valid_dns_label (split_char CHR ''.'' s)"

definition parse_port :: "string \<Rightarrow> nat valid" where
  "parse_port s =
    (case parse_unsigned 65535 10 s of
       None \<Rightarrow> invalid_upstream_url
     | Some port \<Rightarrow> if port = 0 then invalid_upstream_url else Ok port)"

definition parse_optional_port_with_default :: "string \<Rightarrow> nat \<Rightarrow> nat valid" where
  "parse_optional_port_with_default suffix default_port =
    (if suffix = [] then Ok default_port
     else case strip_prefix '':'' suffix of
       None \<Rightarrow> invalid_upstream_url
     | Some port \<Rightarrow> parse_port port)"

definition parse_optional_port :: "string \<Rightarrow> nat valid" where
  "parse_optional_port suffix =
    (if suffix = [] then Ok 80
     else case strip_prefix '':'' suffix of
       None \<Rightarrow> invalid_upstream_url
     | Some port \<Rightarrow> parse_port port)"

definition is_ipv4_literal :: "string \<Rightarrow> bool" where
  "is_ipv4_literal s \<longleftrightarrow>
    (let octets = split_char CHR ''.'' s in
     length octets = 4 \<and> list_all (\<lambda>octet. octet \<noteq> [] \<and> parse_unsigned 255 10 octet \<noteq> None) octets)"

definition valid_groups :: "string \<Rightarrow> nat option" where
  "valid_groups part =
    (if part = [] then Some 0
     else let groups = split_char CHR '':'' part in
       if list_all (\<lambda>g. g \<noteq> [] \<and> length g \<le> 4 \<and> list_all is_ascii_hexdigit g) groups
       then Some (length groups) else None)"

definition is_ipv6_literal :: "string \<Rightarrow> bool" where
  "is_ipv6_literal s \<longleftrightarrow>
    s \<noteq> [] \<and> CHR ''.'' \<notin> set s \<and>
    (let parts = split_colons s in
     length parts \<le> 2 \<and>
     (case valid_groups (parts ! 0) of
        None \<Rightarrow> False
      | Some left \<Rightarrow>
          if length parts = 1 then left = 8
          else case valid_groups (parts ! 1) of None \<Rightarrow> False | Some right \<Rightarrow> left + right < 8))"

section \<open>Endpoints\<close>

datatype UpstreamScheme = HttpScheme | HttpsScheme

fun scheme_as_str :: "UpstreamScheme \<Rightarrow> string" where
  "scheme_as_str HttpScheme = ''http''"
| "scheme_as_str HttpsScheme = ''https''"

fun default_port :: "UpstreamScheme \<Rightarrow> nat" where
  "default_port HttpScheme = 80"
| "default_port HttpsScheme = 443"

record HttpUpstreamEndpoint =
  hue_host :: string
  hue_port :: nat
  hue_base_path :: string
  hue_ipv6 :: bool

record UpstreamEndpoint =
  ue_scheme :: UpstreamScheme
  ue_host :: string
  ue_port :: nat
  ue_base_path :: string
  ue_ipv6 :: bool

text \<open>The authority part, common to both parsers: host, port and whether the host is IPv6.\<close>

definition parse_authority ::
  "(string \<Rightarrow> nat valid) \<Rightarrow> nat \<Rightarrow> string \<Rightarrow> (string \<times> nat \<times> bool) valid" where
  "parse_authority optional_port port_default authority =
    (case strip_prefix ''['' authority of
       Some bracketed \<Rightarrow>
         (case find_sub '']'' bracketed of
            None \<Rightarrow> invalid_upstream_url
          | Some close \<Rightarrow>
              let host = take close bracketed; suffix = drop (close + 1) bracketed in
              if \<not> is_ipv6_literal host then invalid_upstream_url
              else rbind (optional_port suffix) (\<lambda>port. Ok (to_ascii_lowercase host, port, True)))
     | None \<Rightarrow>
         rbind (case rsplit_once CHR '':'' authority of
                  Some (host, port) \<Rightarrow>
                    if CHR '':'' \<notin> set host then rbind (parse_port port) (\<lambda>port. Ok (host, port))
                    else invalid_upstream_url
                | None \<Rightarrow> Ok (authority, port_default))
           (\<lambda>(host, port).
             if \<not> is_ipv4_literal host then invalid_upstream_url else Ok (host, port, False)))"

definition split_base_path :: "string \<Rightarrow> string \<times> string" where
  "split_base_path remainder =
    (case split_once CHR ''/'' remainder of
       Some (authority, path) \<Rightarrow> (authority, CHR ''/'' # path)
     | None \<Rightarrow> (remainder, []))"

definition http_endpoint_parse :: "string \<Rightarrow> HttpUpstreamEndpoint valid" where
  "http_endpoint_parse s =
    (if contains_control s \<or> contains_any ''?#@'' s then invalid_upstream_url
     else case strip_prefix ''http://'' s of
       None \<Rightarrow> invalid_upstream_url
     | Some remainder \<Rightarrow>
         (case split_base_path remainder of (authority, base_path) \<Rightarrow>
            if authority = [] then invalid_upstream_url
            else rbind (parse_authority parse_optional_port 80 authority) (\<lambda>(host, port, ipv6).
              Ok \<lparr>hue_host = host, hue_port = port, hue_base_path = base_path, hue_ipv6 = ipv6\<rparr>)))"

definition split_scheme :: "string \<Rightarrow> (UpstreamScheme \<times> string) valid" where
  "split_scheme s =
    (case strip_prefix ''http://'' s of
       Some remainder \<Rightarrow> Ok (HttpScheme, remainder)
     | None \<Rightarrow>
         (case strip_prefix ''https://'' s of
            Some remainder \<Rightarrow> Ok (HttpsScheme, remainder)
          | None \<Rightarrow> invalid_upstream_url))"

definition endpoint_after_scheme :: "UpstreamScheme \<Rightarrow> string \<Rightarrow> UpstreamEndpoint valid" where
  "endpoint_after_scheme scheme remainder =
    (case split_base_path remainder of (authority, base_path) \<Rightarrow>
       if authority = [] then invalid_upstream_url
       else rbind (parse_authority (\<lambda>suffix. parse_optional_port_with_default suffix (default_port scheme))
           (default_port scheme) authority) (\<lambda>(host, port, ipv6).
         Ok \<lparr>ue_scheme = scheme, ue_host = host, ue_port = port, ue_base_path = base_path,
            ue_ipv6 = ipv6\<rparr>))"

definition endpoint_parse :: "string \<Rightarrow> UpstreamEndpoint valid" where
  "endpoint_parse s =
    (if contains_control s \<or> contains_any ''?#@'' s then invalid_upstream_url
     else rbind (split_scheme s) (\<lambda>(scheme, remainder). endpoint_after_scheme scheme remainder))"

definition bracketed_host :: "bool \<Rightarrow> string \<Rightarrow> string" where
  "bracketed_host ipv6 host = (if ipv6 then ''['' @ host @ '']'' else host)"

definition http_authority :: "HttpUpstreamEndpoint \<Rightarrow> string" where
  "http_authority e =
    (let host = bracketed_host (hue_ipv6 e) (hue_host e)
     in if hue_port e = 80 then host else host @ '':'' @ decimal (hue_port e))"

definition http_connect_address :: "HttpUpstreamEndpoint \<Rightarrow> string" where
  "http_connect_address e =
    bracketed_host (hue_ipv6 e) (hue_host e) @ '':'' @ decimal (hue_port e)"

definition http_as_url :: "HttpUpstreamEndpoint \<Rightarrow> string" where
  "http_as_url e = ''http://'' @ http_authority e @ hue_base_path e"

definition authority :: "UpstreamEndpoint \<Rightarrow> string" where
  "authority e =
    (let host = bracketed_host (ue_ipv6 e) (ue_host e)
     in if ue_port e = default_port (ue_scheme e) then host else host @ '':'' @ decimal (ue_port e))"

definition connect_address :: "UpstreamEndpoint \<Rightarrow> string" where
  "connect_address e =
    bracketed_host (ue_ipv6 e) (ue_host e) @ '':'' @ decimal (ue_port e)"

definition as_url :: "UpstreamEndpoint \<Rightarrow> string" where
  "as_url e = scheme_as_str (ue_scheme e) @ ''://'' @ authority e @ ue_base_path e"

text \<open>The same body in both endpoint types.\<close>

definition join_base_path :: "string \<Rightarrow> string \<Rightarrow> string" where
  "join_base_path base request_path =
    (if base = [] \<or> base = ''/'' then request_path
     else trim_end_matches CHR ''/'' base @
       (if starts_with ''/'' request_path then request_path else ''/'' @ request_path))"

definition http_join_path :: "HttpUpstreamEndpoint \<Rightarrow> string \<Rightarrow> string" where
  "http_join_path e = join_base_path (hue_base_path e)"

definition join_path :: "UpstreamEndpoint \<Rightarrow> string \<Rightarrow> string" where
  "join_path e = join_base_path (ue_base_path e)"

section \<open>TLS and client authentication policies\<close>

definition trust_bundle_ref_parse :: "string \<Rightarrow> string valid" where
  "trust_bundle_ref_parse s =
    (if s = [] \<or> 64 < length s \<or> s = ''.'' \<or> s = ''..'' \<or>
        \<not> list_all (\<lambda>c. is_ascii_alphanumeric c \<or> c \<in> set ''-_'') s
     then validation_error ConfigTrustBundleRefInvalid ''trust bundle reference is invalid''
     else Ok s)"

definition tls_server_name_parse :: "string \<Rightarrow> string valid" where
  "tls_server_name_parse s =
    (let normalized = to_ascii_lowercase (trim_end_matches CHR ''.'' s) in
     if is_ipv4_literal normalized \<or> is_ipv6_literal normalized \<or> \<not> valid_dns_name normalized
     then validation_error ConfigTlsServerNameInvalid ''TLS server name must be a valid DNS name''
     else Ok normalized)"

definition upstream_http_host_parse :: "string \<Rightarrow> string valid" where
  "upstream_http_host_parse s =
    (if s = [] \<or> 255 < length s \<or> contains_control s \<or> contains_whitespace s \<or> contains_any ''@/?#'' s
     then invalid_upstream_http_host
     else rbind (case rsplit_once CHR '':'' s of
         Some (host, port) \<Rightarrow>
           if CHR '':'' \<notin> set host then Ok (host, Some port) else invalid_upstream_http_host
       | None \<Rightarrow> Ok (s, None))
       (\<lambda>(host, port).
         if \<not> valid_dns_name (to_ascii_lowercase host) \<or>
            (case port of None \<Rightarrow> False | Some p \<Rightarrow> \<not> is_ok (parse_port p))
         then invalid_upstream_http_host else Ok (to_ascii_lowercase s)))"

datatype UpstreamTlsPolicy =
    TlsDisabled
  | ServerAuthenticated (server_name: string) (http_host: string) (tls_trust_bundle_ref: string)

record NormalizedUpstreamPolicy =
  nup_endpoint :: UpstreamEndpoint
  nup_tls :: UpstreamTlsPolicy

definition normalize_upstream_tls_policy ::
  "nat \<Rightarrow> string \<Rightarrow> string option \<Rightarrow> string option \<Rightarrow> string option \<Rightarrow> NormalizedUpstreamPolicy valid" where
  "normalize_upstream_tls_policy schema_version url name host trust =
    rbind (endpoint_parse url) (\<lambda>endpoint.
      if schema_version = 1 \<and> ue_scheme endpoint = HttpsScheme then invalid_upstream_url
      else let fields_are_empty = (name = None \<and> host = None \<and> trust = None) in
        rbind
          (if (schema_version = 1 \<or> schema_version = 2) \<and> ue_scheme endpoint = HttpScheme \<and> fields_are_empty
           then Ok TlsDisabled
           else if schema_version = 2 \<and> ue_scheme endpoint = HttpsScheme \<and> \<not> fields_are_empty
           then
             rbind (case name of None \<Rightarrow> invalid_tls_policy | Some n \<Rightarrow> tls_server_name_parse n) (\<lambda>n.
             rbind (case host of None \<Rightarrow> invalid_tls_policy | Some h \<Rightarrow> upstream_http_host_parse h) (\<lambda>h.
             rbind (case trust of None \<Rightarrow> invalid_tls_policy | Some t \<Rightarrow> trust_bundle_ref_parse t) (\<lambda>t.
               Ok (ServerAuthenticated n h t))))
           else invalid_tls_policy)
          (\<lambda>tls. Ok \<lparr>nup_endpoint = endpoint, nup_tls = tls\<rparr>))"

datatype ListenerProtocol = HttpListener | HttpsListener

datatype ClientAuthPolicy = AuthDisabled | AuthRequired (auth_trust_bundle_ref: string)

definition normalize_client_auth_policy ::
  "nat \<Rightarrow> ListenerProtocol \<Rightarrow> string option \<Rightarrow> string option \<Rightarrow> ClientAuthPolicy valid" where
  "normalize_client_auth_policy schema_version protocol client_auth trust =
    (if schema_version = 1 \<and> client_auth = None \<and> trust = None \<or>
        schema_version = 2 \<and> protocol = HttpListener \<and> client_auth = None \<and> trust = None
     then Ok AuthDisabled
     else if schema_version = 2 \<and> protocol = HttpsListener \<and>
        (client_auth = None \<or> client_auth = Some ''disabled'') \<and> trust = None
     then Ok AuthDisabled
     else if schema_version = 2 \<and> protocol = HttpsListener \<and> client_auth = Some ''required'' \<and> trust \<noteq> None
     then rbind (trust_bundle_ref_parse (the trust)) (\<lambda>t. Ok (AuthRequired t))
     else invalid_client_auth_policy)"

definition validate_client_auth_trust :: "ClientAuthPolicy \<Rightarrow> string list \<Rightarrow> unit valid" where
  "validate_client_auth_trust policy known =
    (case policy of
       AuthRequired t \<Rightarrow>
         if t \<notin> set known
         then validation_error ConfigTrustBundleNotFound ''referenced trust bundle does not exist''
         else Ok ()
     | AuthDisabled \<Rightarrow> Ok ())"

section \<open>Printing and parsing\<close>

definition plain :: "string \<Rightarrow> bool" where
  "plain s \<longleftrightarrow> (\<forall>c \<in> set s. 32 \<le> byte c \<and> byte c < 127 \<and> c \<notin> set ''?#@/'')"

definition ip_char :: "char \<Rightarrow> bool" where
  "ip_char c \<longleftrightarrow> is_ascii_hexdigit c \<or> c \<in> set ''.:+''"

lemma ip_char_facts:
  assumes "ip_char c"
  shows "32 \<le> byte c \<and> byte c < 127 \<and> c \<notin> set ''?#@/[]''"
  using assms by (auto simp: ip_char_def is_ascii_hexdigit_def is_ascii_digit_def between_def)

lemma plain_ip: "\<forall>c \<in> set s. ip_char c \<Longrightarrow> plain s"
  unfolding plain_def using ip_char_facts by fastforce

lemma contains_control_plain: "plain a \<Longrightarrow> contains_control (a @ b) = contains_control b"
  by (induction a) (auto simp: plain_def)

lemma contains_control_suffix: "\<not> contains_control (a @ b) \<Longrightarrow> \<not> contains_control b"
  by (induction a) auto

lemma contains_any_append [simp]: "contains_any cs (a @ b) \<longleftrightarrow> contains_any cs a \<or> contains_any cs b"
  by (simp add: contains_any_def)

lemma contains_any_plain: "plain a \<Longrightarrow> \<not> contains_any ''?#@'' a"
  by (auto simp: plain_def contains_any_def list_ex_iff)

lemma split_char_parts: "\<forall>c \<in> set s. c = x \<or> (\<exists>p \<in> set (split_char x s). c \<in> set p)"
proof (induction s)
  case (Cons c s)
  obtain l ls where "split_char x s = l # ls" by (meson neq_Nil_conv split_char_nonempty)
  then show ?case using Cons by auto
qed simp

lemma parse_digits_chars: "parse_digits hi 10 v s = Some n \<Longrightarrow> \<forall>c \<in> set s. is_ascii_digit c"
  by (induction s arbitrary: v)
    (auto simp: digit_of_def is_ascii_digit_def is_ascii_lowercase_def is_ascii_uppercase_def
      between_def Let_def split: option.splits if_splits)

lemma parse_unsigned_chars:
  "parse_unsigned hi 10 s = Some n \<Longrightarrow> \<forall>c \<in> set s. is_ascii_digit c \<or> c = CHR ''+''"
  by (cases s) (auto simp: parse_unsigned_def simp del: parse_digits.simps
      split: if_splits dest!: parse_digits_chars)

lemma ipv4_chars: "is_ipv4_literal s \<Longrightarrow> \<forall>c \<in> set s. is_ascii_digit c \<or> c \<in> set ''.+''"
proof
  fix c assume "is_ipv4_literal s" "c \<in> set s"
  then obtain p n where "c = CHR ''.'' \<or> c \<in> set p \<and> parse_unsigned 255 10 p = Some n"
    using split_char_parts[of s "CHR ''.''"] by (fastforce simp: is_ipv4_literal_def Let_def list_all_iff)
  then show "is_ascii_digit c \<or> c \<in> set ''.+''" using parse_unsigned_chars[of 255 p n] by auto
qed

lemma split_colons_parts: "\<forall>c \<in> set s. c = CHR '':'' \<or> (\<exists>p \<in> set (split_colons s). c \<in> set p)"
proof (induction s rule: split_colons.induct)
  case (3 c d cs)
  have "split_colons (d # cs) \<noteq> []" by (cases cs) (auto split: list.splits)
  then obtain l ls where "split_colons (d # cs) = l # ls" by (meson neq_Nil_conv)
  then show ?case using 3 by auto
qed auto

lemma valid_groups_chars:
  "valid_groups p = Some n \<Longrightarrow> \<forall>c \<in> set p. is_ascii_hexdigit c \<or> c = CHR '':''"
proof
  fix c assume "valid_groups p = Some n" "c \<in> set p"
  then have "\<forall>g \<in> set (split_char CHR '':'' p). list_all is_ascii_hexdigit g"
    by (auto simp: valid_groups_def Let_def list_all_iff split: if_splits)
  then show "is_ascii_hexdigit c \<or> c = CHR '':''"
    using split_char_parts[of p "CHR '':''"] \<open>c \<in> set p\<close> by (auto simp: list_all_iff)
qed

lemma one_or_two: "xs \<noteq> [] \<Longrightarrow> length xs \<le> 2 \<Longrightarrow> (\<exists>a. xs = [a]) \<or> (\<exists>a b. xs = [a, b])"
  by (cases xs rule: remdups_adj.cases) auto

lemma ipv6_chars: "is_ipv6_literal s \<Longrightarrow> \<forall>c \<in> set s. is_ascii_hexdigit c \<or> c = CHR '':''"
proof
  fix c assume v6: "is_ipv6_literal s" and c: "c \<in> set s"
  have "\<forall>p \<in> set (split_colons s). \<exists>n. valid_groups p = Some n"
  proof -
    have "split_colons s \<noteq> []" by (cases s rule: split_colons.cases) (auto split: list.splits)
    moreover have "length (split_colons s) \<le> 2"
      using v6 unfolding is_ipv6_literal_def Let_def by blast
    ultimately consider a where "split_colons s = [a]" | a b where "split_colons s = [a, b]"
      using one_or_two by blast
    then show ?thesis
    proof cases
      case (1 a)
      then show ?thesis using v6 by (cases "valid_groups a") (simp_all add: is_ipv6_literal_def)
    next
      case (2 a b)
      then show ?thesis using v6
        by (cases "valid_groups a"; cases "valid_groups b") (simp_all add: is_ipv6_literal_def)
    qed
  qed
  then have groups: "\<exists>n. valid_groups p = Some n" if "p \<in> set (split_colons s)" for p
    using that by (rule bspec)
  from bspec[OF split_colons_parts c] show "is_ascii_hexdigit c \<or> c = CHR '':''"
  proof
    assume "\<exists>p \<in> set (split_colons s). c \<in> set p"
    then obtain p n where "c \<in> set p" "valid_groups p = Some n" using groups by metis
    then show ?thesis using valid_groups_chars by metis
  qed simp
qed

lemma decimal_digit:
  assumes "d < 10"
  shows "digit_of 10 (char_of (48 + d)) = Some d \<and> is_ascii_digit (char_of (48 + d))"
proof -
  have "list_all (\<lambda>d. digit_of 10 (char_of (48 + d)) = Some d \<and> is_ascii_digit (char_of (48 + d))) [0..<10]"
    by code_simp
  then show ?thesis using assms by (simp add: list_all_iff)
qed

lemma decimal_word: "decimal n \<noteq> [] \<and> (\<forall>c \<in> set (decimal n). is_ascii_digit c)"
proof (induction n rule: decimal.induct)
  case (1 n)
  then show ?case by (cases "n < 10") (auto simp: decimal.simps[of n] decimal_digit)
qed

lemma parse_digits_decimal: "n \<le> hi \<Longrightarrow> parse_digits hi 10 0 (decimal n) = Some n"
proof (induction n rule: decimal.induct)
  case (1 n)
  show ?case
  proof (cases "n < 10")
    case True
    then show ?thesis using 1(2) by (simp add: decimal.simps[of n] decimal_digit)
  next
    case False
    then have "parse_digits hi 10 0 (decimal (n div 10)) = Some (n div 10)"
      using 1 by (meson div_le_dividend le_trans)
    moreover have "n div 10 * 10 + n mod 10 = n" by presburger
    ultimately show ?thesis
      using 1(2) False by (simp add: decimal.simps[of n] parse_digits_append decimal_digit)
  qed
qed

lemma digit_not_plus: "is_ascii_digit c \<Longrightarrow> c \<noteq> CHR ''+'' \<and> c \<noteq> CHR '':'' \<and> ip_char c"
  by (auto simp: is_ascii_digit_def between_def ip_char_def is_ascii_hexdigit_def)

lemma parse_unsigned_decimal: "n \<le> hi \<Longrightarrow> parse_unsigned hi 10 (decimal n) = Some n"
  using parse_digits_decimal[of n hi] decimal_word[of n] digit_not_plus
  by (auto simp: parse_unsigned_def simp del: parse_digits.simps split: list.splits)

lemma ascii_lower_hexdigit: "is_ascii_hexdigit (ascii_lower c) = is_ascii_hexdigit c"
  by (auto simp: ascii_lower_def is_ascii_hexdigit_def is_ascii_digit_def is_ascii_uppercase_def between_def)

lemma ascii_lower_colon: "(ascii_lower c = CHR '':'') = (c = CHR '':'')"
    "(ascii_lower c = CHR ''.'') = (c = CHR ''.'')"
  by (auto simp: ascii_lower_def is_ascii_uppercase_def between_def dest: arg_cong[where f = byte])

lemma ascii_lower_idem: "ascii_lower (ascii_lower c) = ascii_lower c"
  by (auto simp: ascii_lower_def is_ascii_uppercase_def between_def)

lemma split_char_lower:
  "split_char CHR '':'' (map ascii_lower s) = map (map ascii_lower) (split_char CHR '':'' s)"
  by (induction s) (auto simp: ascii_lower_colon split: list.splits)

lemma split_colons_lower: "split_colons (map ascii_lower s) = map (map ascii_lower) (split_colons s)"
  by (induction s rule: split_colons.induct) (auto simp: ascii_lower_colon split: list.splits)

lemma valid_groups_lower: "valid_groups (map ascii_lower p) = valid_groups p"
  by (simp add: valid_groups_def Let_def split_char_lower list_all_iff ascii_lower_hexdigit)

lemma is_ipv6_literal_lower: "is_ipv6_literal (to_ascii_lowercase s) = is_ipv6_literal s"
proof -
  have "split_colons s \<noteq> []" by (cases s rule: split_colons.cases) (auto split: list.splits)
  then have zero: "valid_groups (map (map ascii_lower) (split_colons s) ! 0) = valid_groups (split_colons s ! 0)"
    by (simp add: valid_groups_lower)
  have one: "valid_groups (map (map ascii_lower) (split_colons s) ! 1) = valid_groups (split_colons s ! 1)"
    if "length (split_colons s) \<le> 2" "length (split_colons s) \<noteq> 1"
    using that \<open>split_colons s \<noteq> []\<close> one_or_two[of "split_colons s"] by (auto simp: valid_groups_lower)
  have dot: "(CHR ''.'' \<in> set (map ascii_lower s)) = (CHR ''.'' \<in> set s)"
    by (induction s) (simp_all add: ascii_lower_colon(2) eq_commute[of "CHR ''.''"])
  show ?thesis
    unfolding is_ipv6_literal_def to_ascii_lowercase_def split_colons_lower Let_def length_map zero dot
    using one
    by (cases "length (split_colons s) \<le> 2"; cases "length (split_colons s) = 1";
        cases "valid_groups (split_colons s ! 0)") simp_all
qed

definition host_ok :: "bool \<Rightarrow> string \<Rightarrow> bool" where
  "host_ok v6 h \<longleftrightarrow> (if v6 then is_ipv6_literal h \<and> to_ascii_lowercase h = h else is_ipv4_literal h)"

definition port_ok :: "nat \<Rightarrow> nat \<Rightarrow> bool" where
  "port_ok dp p \<longleftrightarrow> p = dp \<or> 1 \<le> p \<and> p \<le> 65535"

definition print_authority :: "bool \<Rightarrow> string \<Rightarrow> nat \<Rightarrow> nat \<Rightarrow> string" where
  "print_authority v6 h p dp = bracketed_host v6 h @ (if p = dp then [] else CHR '':'' # decimal p)"

abbreviation default_to :: "nat \<Rightarrow> string \<Rightarrow> nat valid" where
  "default_to dp suffix \<equiv> parse_optional_port_with_default suffix dp"

lemma parse_port_Ok: "parse_port s = Ok p \<Longrightarrow> port_ok dp p"
  by (auto simp: parse_port_def port_ok_def parse_unsigned_def simp del: parse_digits.simps
      split: option.splits if_splits list.splits dest: parse_digits_bound)

lemma default_to_Ok: "default_to dp s = Ok p \<Longrightarrow> port_ok dp p"
  using parse_port_Ok by (auto simp: parse_optional_port_with_default_def port_ok_def split: if_splits option.splits)

lemma parse_port_decimal: "port_ok dp p \<Longrightarrow> p \<noteq> dp \<Longrightarrow> parse_port (decimal p) = Ok p"
  by (auto simp: parse_port_def port_ok_def parse_unsigned_decimal)

lemma parse_authority_Ok:
  assumes "parse_authority (default_to dp) dp a = Ok (h, p, v6)"
  shows "host_ok v6 h \<and> port_ok dp p"
proof (cases "strip_prefix ''['' a")
  case (Some b)
  have low: "to_ascii_lowercase (to_ascii_lowercase x) = to_ascii_lowercase x" for x
    by (simp add: to_ascii_lowercase_def ascii_lower_idem)
  obtain k where "find_sub '']'' b = Some k" "is_ipv6_literal (take k b)"
      "h = to_ascii_lowercase (take k b)" "v6" "default_to dp (drop (k + 1) b) = Ok p"
    using assms Some by (auto simp: parse_authority_def Let_def rbind_Ok_iff split: option.splits if_splits)
  then show ?thesis using default_to_Ok low by (simp add: host_ok_def is_ipv6_literal_lower)
next
  case None
  then have "\<not> v6" "is_ipv4_literal h" and port: "p = dp \<or> (\<exists>s. parse_port s = Ok p)"
    using assms by (auto simp: parse_authority_def rbind_Ok_iff split: option.splits if_splits)
  then show ?thesis using parse_port_Ok[of _ p dp] by (auto simp: host_ok_def port_ok_def)
qed

lemma host_chars: "host_ok v6 h \<Longrightarrow> \<forall>c \<in> set h. ip_char c"
  using ipv6_chars[of h] ipv4_chars[of h]
  by (cases v6) (fastforce simp: host_ok_def ip_char_def is_ascii_hexdigit_def)+

lemma find_sub_char: "x \<notin> set a \<Longrightarrow> find_sub [x] (a @ x # b) = Some (length a)"
  by (induction a) auto

lemma rsplit_once_last: "x \<notin> set b \<Longrightarrow> rsplit_once x (a @ x # b) = Some (a, b)"
  by (simp add: rsplit_once_def split_once_append)

lemma rsplit_once_absent: "x \<notin> set a \<Longrightarrow> rsplit_once x a = None"
  using split_once_None[of x "rev a"] by (simp add: rsplit_once_def)

lemma default_to_print:
  "port_ok dp p \<Longrightarrow> default_to dp (if p = dp then [] else CHR '':'' # decimal p) = Ok p"
  using parse_port_decimal by (auto simp: parse_optional_port_with_default_def strip_prefix_def)

lemma parse_authority_print:
  assumes "host_ok v6 h" "port_ok dp p"
  shows "parse_authority (default_to dp) dp (print_authority v6 h p dp) = Ok (h, p, v6)"
proof (cases v6)
  case True
  let ?t = "if p = dp then [] else CHR '':'' # decimal p"
  have "CHR '']'' \<notin> set h" using host_chars[OF assms(1)] ip_char_facts by fastforce
  then have "find_sub '']'' (h @ CHR '']'' # ?t) = Some (length h)" by (rule find_sub_char)
  moreover have "strip_prefix ''['' (print_authority v6 h p dp) = Some (h @ CHR '']'' # ?t)"
    using True by (simp add: print_authority_def bracketed_host_def strip_prefix_def)
  ultimately show ?thesis
    using True assms default_to_print[OF assms(2)]
    by (simp add: parse_authority_def Let_def host_ok_def del: find_sub.simps)
next
  case False
  let ?a = "print_authority v6 h p dp"
  have v4: "is_ipv4_literal h" using False assms(1) by (simp add: host_ok_def)
  have h: "h \<noteq> []" using v4 by (auto simp: is_ipv4_literal_def)
  have colon: "CHR '':'' \<notin> set h" "CHR '':'' \<notin> set (decimal p)"
    using ipv4_chars[OF v4] decimal_word[of p] digit_not_plus by fastforce+
  have "hd h \<noteq> CHR ''[''" using host_chars[OF assms(1)] h ip_char_facts by (cases h) fastforce+
  then have "strip_prefix ''['' ?a = None"
    using h False by (cases h) (simp_all add: print_authority_def bracketed_host_def strip_prefix_def)
  moreover have "rsplit_once CHR '':'' ?a = (if p = dp then None else Some (h, decimal p))"
    using False colon by (simp add: print_authority_def bracketed_host_def rsplit_once_last rsplit_once_absent)
  moreover have "?a = h" if "p = dp" using that False by (simp add: print_authority_def bracketed_host_def)
  ultimately show ?thesis
    using v4 False colon parse_port_decimal[OF assms(2)] by (auto simp: parse_authority_def)
qed

lemma plain_append [simp]: "plain (a @ b) \<longleftrightarrow> plain a \<and> plain b"
  by (auto simp: plain_def)

lemma plain_Cons [simp]:
  "plain (c # s) \<longleftrightarrow> 32 \<le> byte c \<and> byte c < 127 \<and> c \<notin> set ''?#@/'' \<and> plain s"
  by (auto simp: plain_def)

lemma plain_Nil [simp]: "plain []"
  by (simp add: plain_def)

lemma print_authority_plain:
  assumes "host_ok v6 h"
  shows "plain (print_authority v6 h p dp)"
proof -
  have "plain h" by (rule plain_ip) (rule host_chars[OF assms])
  moreover have "plain (decimal p)" by (rule plain_ip) (metis decimal_word digit_not_plus)
  ultimately show ?thesis by (simp add: print_authority_def bracketed_host_def)
qed

lemma print_authority_nonempty: "host_ok v6 h \<Longrightarrow> print_authority v6 h p dp \<noteq> []"
  by (cases v6) (auto simp: print_authority_def bracketed_host_def host_ok_def is_ipv4_literal_def)

lemma split_base_path_print:
  assumes "plain a" "base = [] \<or> (\<exists>t. base = CHR ''/'' # t)"
  shows "split_base_path (a @ base) = (a, base)"
proof -
  have "CHR ''/'' \<notin> set a" using assms(1) by (auto simp: plain_def)
  then show ?thesis
    using assms(2) split_once_append[of "CHR ''/''" a] split_once_None[of "CHR ''/''" a]
    by (auto simp: split_base_path_def)
qed

lemma split_base_path_Ok:
  "split_base_path r = (a, base) \<Longrightarrow> r = a @ base \<and> (base = [] \<or> (\<exists>t. base = CHR ''/'' # t))"
  by (auto simp: split_base_path_def split: option.splits dest: split_once_SomeD)

definition endpoint_ok :: "UpstreamEndpoint \<Rightarrow> bool" where
  "endpoint_ok e \<longleftrightarrow>
    host_ok (ue_ipv6 e) (ue_host e) \<and> port_ok (default_port (ue_scheme e)) (ue_port e) \<and>
    (ue_base_path e = [] \<or> (\<exists>t. ue_base_path e = CHR ''/'' # t)) \<and>
    \<not> contains_control (ue_base_path e) \<and> \<not> contains_any ''?#@'' (ue_base_path e)"

lemma strip_prefix_Some: "strip_prefix p s = Some r \<longleftrightarrow> s = p @ r"
  by (auto simp: strip_prefix_def starts_with_iff)

lemma strip_prefix_append [simp]: "strip_prefix p (p @ r) = Some r"
  by (simp add: strip_prefix_Some)

lemma split_scheme_Ok: "split_scheme s = Ok (scheme, r) \<Longrightarrow> s = scheme_as_str scheme @ ''://'' @ r"
  by (auto simp: split_scheme_def strip_prefix_Some split: option.splits)

lemma split_scheme_print: "split_scheme (scheme_as_str scheme @ ''://'' @ r) = Ok (scheme, r)"
  by (cases scheme) (simp_all add: split_scheme_def strip_prefix_def)

lemma endpoint_parse_Ok:
  assumes "endpoint_parse s = Ok e"
  shows "endpoint_ok e"
proof -
  obtain scheme r where sch: "split_scheme s = Ok (scheme, r)"
    and clean: "\<not> contains_control s" "\<not> contains_any ''?#@'' s"
    and rest: "endpoint_after_scheme scheme r = Ok e"
    using assms by (auto simp: endpoint_parse_def rbind_Ok_iff split: if_splits)
  note pre = split_scheme_Ok[OF sch]
  obtain a base where ab: "split_base_path r = (a, base)" by (cases "split_base_path r")
  then obtain h p v6 where auth: "parse_authority (default_to (default_port scheme)) (default_port scheme) a = Ok (h, p, v6)"
    and e: "e = \<lparr>ue_scheme = scheme, ue_host = h, ue_port = p, ue_base_path = base, ue_ipv6 = v6\<rparr>"
    using rest by (auto simp: endpoint_after_scheme_def rbind_Ok_iff split: if_splits)
  have r: "r = a @ base" "base = [] \<or> (\<exists>t. base = CHR ''/'' # t)" using split_base_path_Ok[OF ab] by auto
  have "s = (scheme_as_str scheme @ ''://'' @ a) @ base" using pre r(1) by simp
  then have "\<not> contains_control base" "\<not> contains_any ''?#@'' base"
    using clean contains_control_suffix contains_any_append by metis+
  then show ?thesis using parse_authority_Ok[OF auth] r(2) by (simp add: endpoint_ok_def e)
qed

lemma authority_print: "authority e = print_authority (ue_ipv6 e) (ue_host e) (ue_port e) (default_port (ue_scheme e))"
  by (simp add: authority_def print_authority_def Let_def)

lemma endpoint_parse_print:
  assumes "endpoint_ok e"
  shows "endpoint_parse (as_url e) = Ok e"
proof -
  let ?a = "authority e"
  have host: "host_ok (ue_ipv6 e) (ue_host e)" "port_ok (default_port (ue_scheme e)) (ue_port e)"
    using assms by (simp_all add: endpoint_ok_def)
  have a: "plain ?a" "?a \<noteq> []"
    unfolding authority_print
    using print_authority_plain print_authority_nonempty host by blast+
  have base: "split_base_path (?a @ ue_base_path e) = (?a, ue_base_path e)"
    using split_base_path_print[OF a(1)] assms by (simp add: endpoint_ok_def)
  have pre: "contains_control (scheme_as_str s @ ''://'' @ t) = contains_control t"
      "\<not> contains_any ''?#@'' (scheme_as_str s)" "\<not> contains_any ''?#@'' ''://''" for s t
    by (cases s; simp add: contains_any_def)+
  have "\<not> contains_control (as_url e)" "\<not> contains_any ''?#@'' (as_url e)"
    using assms a(1) contains_any_plain[OF a(1)]
    by (simp_all only: as_url_def pre contains_control_plain endpoint_ok_def contains_any_append)
      blast+
  moreover have "split_scheme (as_url e) = Ok (ue_scheme e, ?a @ ue_base_path e)"
    by (simp only: as_url_def split_scheme_print)
  ultimately show ?thesis
    using base a(2) parse_authority_print[OF host]
    by (simp add: endpoint_parse_def endpoint_after_scheme_def authority_print)
qed

section \<open>Properties of endpoints and policies\<close>

text \<open>
  C22: Printing an upstream endpoint and parsing the result gives the endpoint back: for every
  endpoint the parser produces, \<open>as_url\<close> is a URL that parses to the same scheme, host, port,
  base path and address family, so a stored configuration reads back as it was written.
\<close>

theorem endpoint_url_round_trip:
  assumes "endpoint_parse url = Ok e"
  shows "endpoint_parse (as_url e) = Ok e"
  using endpoint_parse_print[OF endpoint_parse_Ok[OF assms]] .

theorem endpoint_url_round_trip_witness:
  "endpoint_parse ''https://[2001:DB8::1]:8443/api/'' =
     Ok \<lparr>ue_scheme = HttpsScheme, ue_host = ''2001:db8::1'', ue_port = 8443,
        ue_base_path = ''/api/'', ue_ipv6 = True\<rparr> \<and>
   endpoint_parse ''https://[2001:db8::1]:8443/api/'' =
     endpoint_parse ''https://[2001:DB8::1]:8443/api/''"
proof -
  let ?e = "\<lparr>ue_scheme = HttpsScheme, ue_host = ''2001:db8::1'', ue_port = 8443,
        ue_base_path = ''/api/'', ue_ipv6 = True\<rparr>"
  have p: "endpoint_parse ''https://[2001:DB8::1]:8443/api/'' = Ok ?e" by code_simp
  moreover have "as_url ?e = ''https://[2001:db8::1]:8443/api/''" by code_simp
  ultimately show ?thesis using endpoint_url_round_trip[OF p] by simp
qed

lemma valid_dns_chars: "valid_dns_name s \<Longrightarrow> \<forall>c \<in> set s. is_ascii_alphanumeric c \<or> c = CHR ''-'' \<or> c = CHR ''.''"
proof
  fix c assume v: "valid_dns_name s" and c: "c \<in> set s"
  from bspec[OF split_char_parts c, of "CHR ''.''"]
  show "is_ascii_alphanumeric c \<or> c = CHR ''-'' \<or> c = CHR ''.''"
  proof
    assume "\<exists>p \<in> set (split_char CHR ''.'' s). c \<in> set p"
    then obtain p where "c \<in> set p" "valid_dns_label p"
      using v by (auto simp: valid_dns_name_def list_all_iff)
    then show ?thesis by (auto simp: valid_dns_label_def list_all_iff)
  qed simp
qed

definition header_safe :: "string \<Rightarrow> bool" where
  "header_safe s \<longleftrightarrow> s \<noteq> [] \<and> (\<forall>c \<in> set s. 32 < byte c \<and> byte c < 127)"

definition host_char :: "char \<Rightarrow> bool" where
  "host_char c \<longleftrightarrow> is_ascii_alphanumeric c \<or> c \<in> set ''-.+:''"

lemma host_char_facts: "host_char c \<Longrightarrow> 32 < byte c \<and> byte c < 127"
  by (auto simp: host_char_def is_ascii_alphanumeric_def is_ascii_digit_def is_ascii_uppercase_def
      is_ascii_lowercase_def between_def)

lemma host_char_port: "is_ascii_digit c \<or> c = CHR ''+'' \<or> c = CHR '':'' \<Longrightarrow> host_char (ascii_lower c)"
  by (auto simp: host_char_def ascii_lower_def is_ascii_alphanumeric_def is_ascii_uppercase_def
      is_ascii_digit_def between_def)

lemma rsplit_once_SomeD: "rsplit_once x s = Some (a, b) \<Longrightarrow> s = a @ x # b"
  by (auto simp: rsplit_once_def split: option.splits dest!: split_once_SomeD)
    (metis append.assoc append_Cons append_Nil rev.simps(2) rev_append rev_rev_ident)

lemma http_host_parts:
  assumes "upstream_http_host_parse s = Ok h"
  obtains host where "h = to_ascii_lowercase s" "s \<noteq> []" "valid_dns_name (to_ascii_lowercase host)"
    "s = host \<or> (\<exists>port. s = host @ CHR '':'' # port \<and> is_ok (parse_port port))"
proof -
  have h: "h = to_ascii_lowercase s" "s \<noteq> []"
    using assms by (auto simp: upstream_http_host_parse_def rbind_Ok_iff split: if_splits option.splits)
  show thesis
  proof (cases "rsplit_once CHR '':'' s")
    case None
    then show thesis using assms h that[of s]
      by (simp add: upstream_http_host_parse_def split: if_splits)
  next
    case (Some hp)
    obtain host port where hp: "hp = (host, port)" by (cases hp)
    then have "valid_dns_name (to_ascii_lowercase host) \<and> is_ok (parse_port port)"
      using assms Some by (simp add: upstream_http_host_parse_def split: if_splits)
    then show thesis using h that[of host] rsplit_once_SomeD Some hp by metis
  qed
qed

lemma http_host_safe:
  assumes "upstream_http_host_parse s = Ok h"
  shows "header_safe h"
proof -
  obtain host where hp: "h = to_ascii_lowercase s" "s \<noteq> []" "valid_dns_name (to_ascii_lowercase host)"
    "s = host \<or> (\<exists>port. s = host @ CHR '':'' # port \<and> is_ok (parse_port port))"
    using http_host_parts[OF assms] .
  have host: "\<forall>c \<in> set (to_ascii_lowercase host). host_char c"
    using valid_dns_chars[OF hp(3)] by (auto simp: host_char_def)
  have port: "\<forall>c \<in> set (to_ascii_lowercase port). host_char c" if ok: "is_ok (parse_port port)" for port
  proof -
    obtain n where "parse_unsigned 65535 10 port = Some n"
      using ok by (cases "parse_unsigned 65535 10 port") (simp_all add: parse_port_def)
    then have "host_char (ascii_lower c)" if "c \<in> set port" for c
      using bspec[OF parse_unsigned_chars that] host_char_port by metis
    then show ?thesis by (simp add: to_ascii_lowercase_def)
  qed
  from hp(4) have "\<forall>c \<in> set h. host_char c"
  proof (elim disjE exE conjE)
    fix port assume "s = host @ CHR '':'' # port" "is_ok (parse_port port)"
    moreover have "to_ascii_lowercase (host @ CHR '':'' # port) =
        to_ascii_lowercase host @ ascii_lower CHR '':'' # to_ascii_lowercase port"
      by (simp add: to_ascii_lowercase_def)
    ultimately show ?thesis using hp(1) host port[of port] host_char_port by (simp add: ball_Un)
  qed (use host hp(1) in simp)
  then show ?thesis using host_char_facts hp(1,2) by (simp add: header_safe_def to_ascii_lowercase_def)
qed

text \<open>
  C24: A configuration never reaches a TLS upstream without authenticating it, nor applies TLS to a
  plain one. Every accepted upstream policy authenticates the server exactly when its scheme is
  HTTPS, which needs schema version two; the server name is then a DNS name and not an address, the
  Host it sends is free of white space and control bytes, and the trust bundle reference is a plain
  name without a separator.
\<close>

theorem tls_policy_matches_scheme:
  assumes "normalize_upstream_tls_policy version url name host trust = Ok p"
  shows "(case nup_tls p of
      TlsDisabled \<Rightarrow> ue_scheme (nup_endpoint p) = HttpScheme \<and> version \<in> {1, 2}
    | ServerAuthenticated n h t \<Rightarrow> ue_scheme (nup_endpoint p) = HttpsScheme \<and> version = 2 \<and>
        valid_dns_name n \<and> \<not> is_ipv4_literal n \<and> \<not> is_ipv6_literal n \<and> header_safe h \<and>
        t \<noteq> [] \<and> (\<forall>c \<in> set t. is_ascii_alphanumeric c \<or> c \<in> set ''-_''))"
proof -
  obtain e tls where p: "p = \<lparr>nup_endpoint = e, nup_tls = tls\<rparr>" by (cases p) simp
  show ?thesis
  proof (cases tls)
    case TlsDisabled
    then show ?thesis
      using assms by (auto simp: p normalize_upstream_tls_policy_def rbind_Ok_iff Let_def split: if_splits)
  next
    case (ServerAuthenticated n h t)
    then have "ue_scheme e = HttpsScheme \<and> version = 2" "\<exists>s. tls_server_name_parse s = Ok n"
        "\<exists>s. upstream_http_host_parse s = Ok h" "\<exists>s. trust_bundle_ref_parse s = Ok t"
      using assms
      by (auto simp: p normalize_upstream_tls_policy_def rbind_Ok_iff Let_def split: if_splits option.splits)
    moreover have "valid_dns_name n \<and> \<not> is_ipv4_literal n \<and> \<not> is_ipv6_literal n"
      if "tls_server_name_parse s = Ok n" for s
      using that by (auto simp: tls_server_name_parse_def Let_def split: if_splits)
    moreover have "t \<noteq> [] \<and> (\<forall>c \<in> set t. is_ascii_alphanumeric c \<or> c \<in> set ''-_'')"
      if "trust_bundle_ref_parse s = Ok t" for s
      using that by (simp add: trust_bundle_ref_parse_def list_all_iff split: if_splits)
    ultimately show ?thesis using ServerAuthenticated p http_host_safe by simp metis
  qed
qed

theorem tls_policy_matches_scheme_witness:
  "\<exists>p. normalize_upstream_tls_policy 2 ''https://10.0.0.7'' (Some ''api.example.com'')
      (Some ''api.example.com:8443'') (Some ''corp_ca'') = Ok p \<and>
    ue_scheme (nup_endpoint p) = HttpsScheme \<and> header_safe (http_host (nup_tls p))"
proof -
  let ?p = "\<lparr>nup_endpoint = \<lparr>ue_scheme = HttpsScheme, ue_host = ''10.0.0.7'', ue_port = 443,
      ue_base_path = [], ue_ipv6 = False\<rparr>,
    nup_tls = ServerAuthenticated ''api.example.com'' ''api.example.com:8443'' ''corp_ca''\<rparr>"
  have p: "normalize_upstream_tls_policy 2 ''https://10.0.0.7'' (Some ''api.example.com'')
      (Some ''api.example.com:8443'') (Some ''corp_ca'') = Ok ?p" by code_simp
  from tls_policy_matches_scheme[OF p] p show ?thesis by (intro exI[of _ ?p]) simp
qed

end
