(* ===== verification/WireText.thy ===== *)
theory WireText
  imports RustStr
begin

text \<open>
  Facts about the text of messages that the printers and parsers of headers share: UTF-8 validity of
  parts and concatenations, white space at the start of a value, and lines separated by CRLF.
\<close>

section \<open>UTF-8\<close>

text \<open>The bytes of one character; a valid string is a sequence of such.\<close>

fun utf8_char :: "string \<Rightarrow> bool" where
  "utf8_char [a] \<longleftrightarrow> byte a < 128"
| "utf8_char [a, b] \<longleftrightarrow> between 0xC2 0xDF a \<and> is_cont b"
| "utf8_char [a, b, c] \<longleftrightarrow> between 0xE0 0xEF a \<and>
    (if byte a = 0xE0 then between 0xA0 0xBF b
     else if byte a = 0xED then between 0x80 0x9F b else is_cont b) \<and> is_cont c"
| "utf8_char [a, b, c, d] \<longleftrightarrow> between 0xF0 0xF4 a \<and>
    (if byte a = 0xF0 then between 0x90 0xBF b
     else if byte a = 0xF4 then between 0x80 0x8F b else is_cont b) \<and> is_cont c \<and> is_cont d"
| "utf8_char _ \<longleftrightarrow> False"

lemma utf8_valid_char: "utf8_char x \<Longrightarrow> utf8_valid (x @ s) = utf8_valid s"
  by (cases x rule: utf8_char.cases) (auto simp: between_def split: if_splits)

lemma utf8_valid_Cons: "utf8_valid (a # s) \<Longrightarrow> \<exists>x t. a # s = x @ t \<and> utf8_char x \<and> utf8_valid t"
proof -
  assume v: "utf8_valid (a # s)"
  consider "byte a < 128" | "\<not> byte a < 128" "between 0xC2 0xDF a"
    | "\<not> byte a < 128" "\<not> between 0xC2 0xDF a" "between 0xE0 0xEF a"
    | "\<not> byte a < 128" "\<not> between 0xC2 0xDF a" "\<not> between 0xE0 0xEF a" "between 0xF0 0xF4 a"
    using v by (auto split: if_splits)
  then show ?thesis
  proof cases
    case 1
    then show ?thesis using v by - (rule exI[of _ "[a]"], rule exI[of _ s], simp)
  next
    case 2
    then obtain b t where s: "s = b # t" using v by (cases s) auto
    then show ?thesis using v 2 by - (rule exI[of _ "[a, b]"], rule exI[of _ t], simp)
  next
    case 3
    then obtain b c t where s: "s = b # c # t" using v by (cases s; cases "tl s") auto
    then show ?thesis using v 3 by - (rule exI[of _ "[a, b, c]"], rule exI[of _ t], simp)
  next
    case 4
    then obtain b c d t where s: "s = b # c # d # t"
      using v by (cases s; cases "tl s"; cases "tl (tl s)") auto
    then show ?thesis using v 4 by - (rule exI[of _ "[a, b, c, d]"], rule exI[of _ t], simp)
  qed
qed

lemma utf8_char_shape: "utf8_char x \<Longrightarrow> \<exists>a t. x = a # t \<and> (\<forall>b \<in> set t. is_cont b)"
  by (cases x rule: utf8_char.cases) (auto simp: is_cont_def between_def split: if_splits)

lemma utf8_valid_append: "utf8_valid a \<Longrightarrow> utf8_valid (a @ b) = utf8_valid b"
proof (induction a rule: length_induct)
  case (1 a)
  show ?case
  proof (cases a)
    case (Cons h t)
    then obtain x r where x: "a = x @ r" "utf8_char x" "utf8_valid r" using utf8_valid_Cons 1(2) by blast
    then have "length r < length a" using utf8_char_shape by fastforce
    then show ?thesis using 1(1) x utf8_valid_char by simp
  qed simp
qed

lemma utf8_valid_split:
  "utf8_valid (a @ c # b) \<Longrightarrow> \<not> is_cont c \<Longrightarrow> utf8_valid a \<and> utf8_valid (c # b)"
proof (induction a rule: length_induct)
  case (1 a)
  show ?case
  proof (cases a)
    case (Cons h t)
    then obtain x r where x: "a @ c # b = x @ r" "utf8_char x" "utf8_valid r"
      using utf8_valid_Cons[of h "t @ c # b"] 1(2) by auto
    obtain y ys where y: "x = y # ys" "\<forall>z \<in> set ys. is_cont z" using utf8_char_shape[OF x(2)] by blast
    have "length x \<le> length a"
    proof (rule ccontr)
      assume "\<not> length x \<le> length a"
      then obtain us where "x = a @ c # us" using x(1) by (auto simp: append_eq_append_conv2 Cons_eq_append_conv)
      then show False using y Cons 1(3) by auto
    qed
    then obtain a' where a': "a = x @ a'" "r = a' @ c # b" using x(1) by (auto simp: append_eq_append_conv2)
    then have "length a' < length a" using y by simp
    then have "utf8_valid a' \<and> utf8_valid (c # b)" using 1(1,3) x(3) a'(2) by blast
    then show ?thesis using utf8_valid_char[OF x(2), of a'] a'(1) by blast
  qed (use 1(2) in simp)
qed

lemma utf8_valid_ascii_split:
  "utf8_valid (a @ c # b) \<Longrightarrow> byte c < 128 \<Longrightarrow> utf8_valid a \<and> utf8_valid b"
  using utf8_valid_split[of a c b] by (simp add: is_cont_def)

section \<open>White space\<close>

lemma starts_with_either: "starts_with w (w' @ x) \<Longrightarrow> starts_with w w' \<or> starts_with w' w"
  by (auto simp: starts_with_iff append_eq_append_conv2)

lemma ws_prefix_free: "w \<in> set ws_chars \<Longrightarrow> w' \<in> set ws_chars \<Longrightarrow> starts_with w (w' @ x) \<Longrightarrow> w = w'"
proof -
  have "list_all (\<lambda>w. list_all (\<lambda>w'. starts_with w w' \<longrightarrow> w = w') ws_chars) ws_chars" by code_simp
  then show "w \<in> set ws_chars \<Longrightarrow> w' \<in> set ws_chars \<Longrightarrow> starts_with w (w' @ x) \<Longrightarrow> w = w'"
    using starts_with_either[of w w' x] by (auto simp: list_all_iff)
qed

lemma ws_len_ws: "w \<in> set ws_chars \<Longrightarrow> ws_len (w @ x) = length w"
proof -
  assume w: "w \<in> set ws_chars"
  have "starts_with w (w @ x)" by (simp add: starts_with_iff)
  then have "find (\<lambda>w'. starts_with w' (w @ x)) ws_chars \<noteq> None" using w by (auto simp: find_None_iff)
  then obtain w' where f: "find (\<lambda>w'. starts_with w' (w @ x)) ws_chars = Some w'" by blast
  then have "w' \<in> set ws_chars" "starts_with w' (w @ x)" by (auto simp: find_Some_iff)
  then have "w' = w" using ws_prefix_free[OF _ w] by blast
  then show ?thesis using f by (simp add: ws_len_def)
qed

lemma trim_start_ws: "w \<in> set ws_chars \<Longrightarrow> trim_start (w @ x) = trim_start x"
  using ws_len_ws[of w x] ws_chars_nonempty[of w] by (subst trim_start.simps) simp

lemma trim_ws: "w \<in> set ws_chars \<Longrightarrow> trim (w @ x) = trim x"
  by (simp add: trim_def trim_start_ws)

lemma space_ws: "[CHR '' ''] \<in> set ws_chars"
  by (simp add: ws_chars_def)

lemma trim_space: "trim_start (CHR '' '' # x) = trim_start x" "trim (CHR '' '' # x) = trim x"
  using trim_start_ws[OF space_ws, of x] trim_ws[OF space_ws, of x] by simp_all

lemma trim_trim_start [simp]: "trim (trim_start s) = trim s" "trim_start (trim_start s) = trim_start s"
  by (simp_all add: trim_def trim_start_fix[OF trim_start_no_ws])

text \<open>Removing white space at the start proceeds by whole white space characters.\<close>

lemma trim_start_induct [case_names keep step]:
  assumes "\<And>s. trim_start s = s \<Longrightarrow> P s"
    and "\<And>w s. w \<in> set ws_chars \<Longrightarrow> P s \<Longrightarrow> P (w @ s)"
  shows "P s"
proof (induction s rule: trim_start.induct)
  case (1 s)
  show ?case
  proof (cases "ws_len s = 0")
    case True
    then show ?thesis by (rule assms(1)[OF trim_start_fix])
  next
    case False
    then obtain w where "find (\<lambda>w. starts_with w s) ws_chars = Some w" "ws_len s = length w"
      by (auto simp: ws_len_def split: option.splits)
    then have "w \<in> set ws_chars" "s = w @ drop (ws_len s) s"
      by (auto simp: find_Some_iff starts_with_iff)
    then show ?thesis using assms(2) 1[OF False] by metis
  qed
qed

lemma utf8_valid_trim_start: "utf8_valid (trim_start s) = utf8_valid s"
proof (induction s rule: trim_start_induct)
  case (step w s)
  have "list_all utf8_valid ws_chars" by code_simp
  then have "utf8_valid w" using step(1) by (simp add: list_all_iff)
  then show ?case using step utf8_valid_append by (simp add: trim_start_ws)
qed simp

lemma split_char_append_absent:
  "x \<notin> set w \<Longrightarrow> split_char x (w @ s) = (case split_char x s of l # ls \<Rightarrow> (w @ l) # ls | [] \<Rightarrow> [w])"
  by (induction w) (auto split: list.splits dest: split_char_nonempty[THEN notE])

lemma trim_parts_trim_start: "map trim (split_char CHR '','' (trim_start s)) = map trim (split_char CHR '','' s)"
proof (induction s rule: trim_start_induct)
  case (step w s)
  have "list_all (\<lambda>w. CHR '','' \<notin> set w) ws_chars" by code_simp
  then have "CHR '','' \<notin> set w" using step(1) by (simp add: list_all_iff)
  moreover obtain l ls where "split_char CHR '','' s = l # ls"
    by (meson neq_Nil_conv split_char_nonempty)
  ultimately show ?case using step by (simp add: trim_start_ws split_char_append_absent trim_ws)
qed simp

section \<open>Lines\<close>

lemma split_crlf_nonempty: "split_crlf s \<noteq> []"
  by (cases s rule: split_crlf.cases) (auto split: list.splits)

lemma split_crlf_append: "split_crlf (a @ crlf @ b) = split_crlf a @ split_crlf b"
proof (induction a rule: split_crlf.induct)
  case (3 c d cs)
  then show ?case using split_crlf_nonempty[of "d # cs"] by (auto split: list.splits)
qed auto

lemma split_crlf_line: "CR \<notin> set l \<Longrightarrow> split_crlf l = [l]"
  by (induction l rule: split_crlf.induct) auto

lemma split_crlf_piece: "l \<in> set (split_crlf s) \<Longrightarrow> split_crlf l = [l]"
proof (induction s arbitrary: l rule: split_crlf.induct)
  case (3 c d cs)
  show ?case
  proof (cases "c = CR \<and> d = LF")
    case True
    then show ?thesis using 3 by auto
  next
    case False
    obtain m ms where m: "split_crlf (d # cs) = m # ms" by (meson neq_Nil_conv split_crlf_nonempty)
    have piece: "split_crlf m = [m]" using 3(2)[OF False] m by simp
    have "split_crlf (c # m) = [c # m]"
    proof (cases m)
      case (Cons e es)
      have "e = d" using m Cons False by (cases cs) (auto split: list.splits if_splits)
      then show ?thesis using piece Cons False by auto
    qed simp
    then show ?thesis using 3(2)[OF False] 3(3) False m by auto
  qed
qed auto

lemma split_crlf_lines:
  "\<forall>l \<in> set ls. CR \<notin> set l \<Longrightarrow> split_crlf (s @ concat (map (\<lambda>l. crlf @ l) ls)) = split_crlf s @ ls"
proof (induction ls arbitrary: s)
  case (Cons l ls)
  let ?rest = "l @ concat (map (\<lambda>l. crlf @ l) ls)"
  have "split_crlf ?rest = split_crlf l @ ls" using Cons by simp
  moreover have "split_crlf l = [l]" using Cons.prems by (simp add: split_crlf_line)
  ultimately show ?case using split_crlf_append[of s ?rest] by simp
qed simp

lemma concat_crlf: "crlf @ concat (map (\<lambda>l. l @ crlf) ls) = concat (map (\<lambda>l. crlf @ l) ls) @ crlf"
  by (induction ls) auto

lemma strip_suffix_append [simp]: "strip_suffix p (s @ p) = Some s"
  by (simp add: strip_suffix_def ends_with_iff)

lemma strip_suffix_Some: "strip_suffix p s = Some t \<longleftrightarrow> s = t @ p"
  by (auto simp: strip_suffix_def ends_with_iff)

end
