(* ===== verification/Forwarding.thy ===== *)
theory Forwarding
  imports ResponseFraming Endpoint WireText
begin

text \<open>
  What the proxy rewrites on the way through: the hop-by-hop header rules, the incremental response
  header sanitizer and the WebSocket upgrade test of \<^verbatim>\<open>edge-core/src/http_forwarding_policy.rs\<close>.
  The lemmas show that a rewritten response head is framed as the original one was.

  Memory that is requested with \<^verbatim>\<open>try_reserve\<close> is an argument of the sanitizer: \<open>room k i\<close> says
  whether the \<open>k\<close>-th kind of reservation (the header buffer, the sanitized block, the rest of the
  input) succeeds at input position \<open>i\<close>.
\<close>

section \<open>Hop-by-hop headers\<close>

definition is_hop_by_hop_header_name :: "string \<Rightarrow> bool" where
  "is_hop_by_hop_header_name name \<longleftrightarrow>
    name \<in> set [''connection'', ''keep-alive'', ''proxy-authenticate'', ''proxy-authorization'',
      ''proxy-connection'', ''te'', ''trailer'', ''transfer-encoding'', ''upgrade'']"

definition connection_header_tokens :: "Header list \<Rightarrow> string list" where
  "connection_header_tokens hs =
    concat (map (\<lambda>h. map (\<lambda>t. to_ascii_lowercase (trim t)) (split_char CHR '','' (hdr_value h)))
      (filter (\<lambda>h. eq_ignore_ascii_case (hdr_name h) ''Connection'') hs))"

definition end_to_end :: "string list \<Rightarrow> Header \<Rightarrow> bool" where
  "end_to_end tokens h \<longleftrightarrow>
    (let name = to_ascii_lowercase (hdr_name h) in
     \<not> is_hop_by_hop_header_name name \<and> name \<notin> set tokens)"

definition remove_hop_by_hop_headers :: "Header list \<Rightarrow> Header list" where
  "remove_hop_by_hop_headers hs = filter (end_to_end (connection_header_tokens hs)) hs"

definition upstream_request_headers :: "Header list \<Rightarrow> bool \<Rightarrow> Header list" where
  "upstream_request_headers hs preserve_upgrade =
    (if \<not> preserve_upgrade then remove_hop_by_hop_headers hs
     else filter (\<lambda>h.
         (to_ascii_lowercase (hdr_name h) = ''upgrade'' \<and>
          eq_ignore_ascii_case (trim (hdr_value h)) ''websocket'') \<or>
         end_to_end (connection_header_tokens hs) h) hs
       @ [\<lparr>hdr_name = ''Connection'', hdr_value = ''Upgrade''\<rparr>])"

definition forwarded_headers :: "string \<Rightarrow> string \<Rightarrow> string \<Rightarrow> Header list" where
  "forwarded_headers client_ip scheme host =
    [\<lparr>hdr_name = ''X-Forwarded-For'', hdr_value = client_ip\<rparr>,
     \<lparr>hdr_name = ''X-Forwarded-Proto'', hdr_value = scheme\<rparr>,
     \<lparr>hdr_name = ''X-Forwarded-Host'', hdr_value = host\<rparr>]"

definition is_websocket_upgrade :: "HttpRequest \<Rightarrow> bool" where
  "is_websocket_upgrade r \<longleftrightarrow>
    list_ex (\<lambda>h. list_ex (\<lambda>t. eq_ignore_ascii_case (trim t) ''upgrade'') (split_char CHR '','' (hdr_value h)))
      (filter (\<lambda>h. eq_ignore_ascii_case (hdr_name h) ''Connection'') (req_headers r)) \<and>
    list_ex (\<lambda>h. eq_ignore_ascii_case (trim (hdr_value h)) ''websocket'')
      (filter (\<lambda>h. eq_ignore_ascii_case (hdr_name h) ''Upgrade'') (req_headers r))"

definition https_redirect_location :: "string \<Rightarrow> string \<Rightarrow> string" where
  "https_redirect_location host path = ''https://'' @ host @ path"

section \<open>The response header sanitizer\<close>

fun sanitizer_header_lines :: "string list \<Rightarrow> Header list app" where
  "sanitizer_header_lines [] = Ok []"
| "sanitizer_header_lines (line # lines) =
    (case split_once CHR '':'' line of
       None \<Rightarrow> malformed_upstream_response ''response header is malformed''
     | Some (name, v) \<Rightarrow>
         rbind (sanitizer_header_lines lines) (\<lambda>hs.
           Ok (\<lparr>hdr_name = name, hdr_value = trim_start v\<rparr> # hs)))"

definition retained_in_response :: "string list \<Rightarrow> Header \<Rightarrow> bool" where
  "retained_in_response tokens h \<longleftrightarrow>
    to_ascii_lowercase (hdr_name h) = ''transfer-encoding'' \<or> end_to_end tokens h"

definition print_header :: "Header \<Rightarrow> string" where
  "print_header h = hdr_name h @ '': '' @ hdr_value h @ crlf"

definition sanitize_response_header_block :: "string \<Rightarrow> bool \<Rightarrow> (string \<times> bool) app" where
  "sanitize_response_header_block bytes close_final_response =
    (if \<not> utf8_valid bytes then malformed_upstream_response ''response headers are not UTF-8''
     else case strip_suffix (crlf @ crlf) bytes of
       None \<Rightarrow> malformed_upstream_response ''response header terminator is missing''
     | Some text \<Rightarrow>
         (case split_crlf text of
            [] \<Rightarrow> malformed_upstream_response ''response status line is missing''
          | status_line # lines \<Rightarrow>
              (case (case split_whitespace status_line of
                       _ # code # _ \<Rightarrow> parse_unsigned 65535 10 code | _ \<Rightarrow> None) of
                 None \<Rightarrow> malformed_upstream_response ''response status code is invalid''
               | Some status \<Rightarrow>
                   rbind (sanitizer_header_lines lines) (\<lambda>hs.
                     let tokens = connection_header_tokens hs; interim = is_interim status in
                     Ok (status_line @ crlf @
                         concat (map print_header (filter (retained_in_response tokens) hs)) @
                         (if \<not> interim \<and> close_final_response then ''Connection: close'' @ crlf else []) @
                         crlf, interim)))))"

record UpstreamResponseHeaderSanitizer =
  san_headers :: string
  san_max_header_bytes :: nat
  san_close_final_response :: bool
  san_forwarding_body :: bool

definition sanitizer_new :: "nat \<Rightarrow> bool \<Rightarrow> UpstreamResponseHeaderSanitizer" where
  "sanitizer_new limit close = \<lparr>san_headers = [], san_max_header_bytes = limit,
     san_close_final_response = close, san_forwarding_body = False\<rparr>"

abbreviation sanitizer_allocation_failed :: "('a, AppError) result" where
  "sanitizer_allocation_failed \<equiv>
    Err (app_error (Runtime ResourceAllocationFailed) ''response header sanitizer allocation failed'')"

fun sanitize_loop ::
  "(nat \<Rightarrow> nat \<Rightarrow> bool) \<Rightarrow> nat \<Rightarrow> string \<Rightarrow> string \<Rightarrow> UpstreamResponseHeaderSanitizer
    \<Rightarrow> string app \<times> UpstreamResponseHeaderSanitizer" where
  "sanitize_loop room cursor output [] s = (Ok output, s)"
| "sanitize_loop room cursor output (c # cs) s =
    (if san_max_header_bytes s \<le> length (san_headers s)
     then (Err (app_error (Runtime ResourcePayloadCapacityReached)
             ''response header sanitizer limit reached''), s)
     else if \<not> room 0 cursor then (sanitizer_allocation_failed, s)
     else
       let s = s\<lparr>san_headers := san_headers s @ [c]\<rparr>; cursor = cursor + 1 in
       if \<not> ends_with (crlf @ crlf) (san_headers s) then sanitize_loop room cursor output cs s
       else case sanitize_response_header_block (san_headers s) (san_close_final_response s) of
         Err e \<Rightarrow> (Err e, s)
       | Ok (sanitized, interim) \<Rightarrow>
           if \<not> room 1 cursor then (sanitizer_allocation_failed, s)
           else
             let s = s\<lparr>san_headers := []\<rparr> in
             if interim then sanitize_loop room cursor (output @ sanitized) cs s
             else
               let s = s\<lparr>san_forwarding_body := True\<rparr> in
               if \<not> room 2 cursor then (sanitizer_allocation_failed, s)
               else (Ok (output @ sanitized @ cs), s))"

definition sanitize ::
  "(nat \<Rightarrow> nat \<Rightarrow> bool) \<Rightarrow> string \<Rightarrow> UpstreamResponseHeaderSanitizer
    \<Rightarrow> string app \<times> UpstreamResponseHeaderSanitizer" where
  "sanitize room input s =
    (if san_forwarding_body s then (Ok input, s) else sanitize_loop room 0 [] input s)"

section \<open>Words and lines\<close>

lemma header_safe_word: "header_safe w \<Longrightarrow> c \<in> set w \<Longrightarrow> ws_len (c # s) = 0"
proof -
  assume w: "header_safe w" "c \<in> set w"
  have "list_all (\<lambda>x. x \<noteq> [] \<and> (byte (hd x) \<le> 32 \<or> 128 \<le> byte (hd x))) ws_chars" by code_simp
  then have "\<not> starts_with x (c # s)" if "x \<in> set ws_chars" for x
    using that w by (cases x) (fastforce simp: list_all_iff header_safe_def)+
  then show ?thesis by (simp add: ws_len_0_iff)
qed

lemma ws_len_space: "ws_len (CHR '' '' # s) = 1"
  using ws_len_ws[OF space_ws, of s] by simp

lemma header_safe_Cons: "header_safe (c # w) \<Longrightarrow> w = [] \<or> header_safe w"
  by (simp add: header_safe_def)

lemma word_span_word: "w = [] \<or> header_safe w \<Longrightarrow> word_span (w @ CHR '' '' # s) = (w, CHR '' '' # s)"
proof (induction w)
  case (Cons c w)
  then show ?case using header_safe_word[of "c # w" c] header_safe_Cons[of c w] by simp
qed (simp add: ws_len_space)

lemma word_span_all: "w = [] \<or> header_safe w \<Longrightarrow> word_span w = (w, [])"
proof (induction w)
  case (Cons c w)
  then show ?case using header_safe_word[of "c # w" c] header_safe_Cons[of c w] by simp
qed simp

lemma trim_start_word: "header_safe w \<Longrightarrow> trim_start (w @ s) = w @ s"
  by (rule trim_start_fix) (cases w, auto simp: header_safe_def intro: header_safe_word[of w])

lemma split_whitespace_space: "split_whitespace (CHR '' '' # s) = split_whitespace s"
  by (subst (1 2) split_whitespace.simps) (simp add: trim_space)

lemma split_whitespace_word_space:
  assumes "header_safe w"
  shows "split_whitespace (w @ CHR '' '' # s) = w # split_whitespace s"
proof -
  have "w \<noteq> []" using assms by (simp add: header_safe_def)
  then have "split_whitespace (w @ CHR '' '' # s) = w # split_whitespace (CHR '' '' # s)"
    using trim_start_word[OF assms, of "CHR '' '' # s"] word_span_word[of w s] assms
    by (subst split_whitespace.simps) (simp add: Let_def)
  then show ?thesis by (simp only: split_whitespace_space)
qed

lemma split_whitespace_last: "header_safe w \<Longrightarrow> split_whitespace w = [w]"
proof -
  assume w: "header_safe w"
  then have "w \<noteq> []" by (simp add: header_safe_def)
  moreover have "split_whitespace [] = []" by code_simp
  ultimately show ?thesis
    using trim_start_word[OF w, of "[]"] word_span_all[of w] w
    by (subst split_whitespace.simps) (simp add: Let_def)
qed

text \<open>A header as one line, without its line end.\<close>

definition header_line :: "Header \<Rightarrow> string" where
  "header_line h = hdr_name h @ '': '' @ hdr_value h"

definition header_ok :: "Header \<Rightarrow> bool" where
  "header_ok h \<longleftrightarrow> is_http_token (hdr_name h) \<and>
    \<not> contains_prohibited_http_field_value_control (hdr_value h) \<and> utf8_valid (hdr_value h)"

lemma print_header_lines: "concat (map print_header hs) = concat (map (\<lambda>l. l @ crlf) (map header_line hs))"
  by (induction hs) (simp_all add: print_header_def header_line_def)

lemma token_char_facts: "is_token_char c \<Longrightarrow> byte c < 127 \<and> 32 < byte c \<and> c \<noteq> CHR '':''"
  by (auto simp: is_token_char_def is_ascii_alphanumeric_def is_ascii_digit_def is_ascii_uppercase_def
      is_ascii_lowercase_def between_def)

lemma token_facts:
  assumes "is_http_token n"
  shows "CHR '':'' \<notin> set n" "CR \<notin> set n" "utf8_valid n" "header_safe n"
proof -
  have n: "\<And>c. c \<in> set n \<Longrightarrow> is_token_char c" "n \<noteq> []"
    using assms by (simp_all add: is_http_token_def list_all_iff)
  have f: "byte c < 127" "32 < byte c" "c \<noteq> CHR '':''" if "c \<in> set n" for c
    using token_char_facts[OF n(1)[OF that]] by simp_all
  show "CHR '':'' \<notin> set n" using f(3) by metis
  show "CR \<notin> set n" using f(2)[of CR] by auto
  show "utf8_valid n" using f(1) by (intro utf8_valid_ascii) (simp add: list_all_iff less_imp_le less_trans[of _ 127])
  show "header_safe n" using f n(2) by (simp add: header_safe_def list_all_iff)
qed

lemma value_no_CR: "\<not> contains_prohibited_http_field_value_control v \<Longrightarrow> CR \<notin> set v"
  by (auto simp: contains_prohibited_http_field_value_control_def list_ex_iff prohibited_value_byte_def
      between_def)

lemma header_line_facts:
  assumes "header_ok h"
  shows "CR \<notin> set (header_line h)" "header_line h \<noteq> []" "utf8_valid (header_line h)"
    "split_once CHR '':'' (header_line h) = Some (hdr_name h, CHR '' '' # hdr_value h)"
proof -
  note n = token_facts[of "hdr_name h"]
  have h: "is_http_token (hdr_name h)" "CR \<notin> set (hdr_value h)" "utf8_valid (hdr_value h)"
    using assms value_no_CR by (auto simp: header_ok_def)
  show "CR \<notin> set (header_line h)" using n(2) h by (simp add: header_line_def)
  show "header_line h \<noteq> []" by (simp add: header_line_def)
  show "utf8_valid (header_line h)" using n(3) h by (simp add: header_line_def utf8_valid_append)
  show "split_once CHR '':'' (header_line h) = Some (hdr_name h, CHR '' '' # hdr_value h)"
    using split_once_append[OF n(1), of "CHR '' '' # hdr_value h"] h(1) by (simp add: header_line_def)
qed

text \<open>The text of a message head: a first line, header lines, and the blank line.\<close>

lemma head_text:
  "first @ crlf @ concat (map print_header hs) @ crlf =
    (first @ concat (map (\<lambda>l. crlf @ l) (map header_line hs))) @ crlf @ crlf"
  using concat_crlf[of "map header_line hs"] by (simp add: print_header_lines)

lemma head_lines:
  "\<forall>h \<in> set hs. header_ok h \<Longrightarrow>
    split_crlf (first @ concat (map (\<lambda>l. crlf @ l) (map header_line hs))) =
      split_crlf first @ map header_line hs"
  by (rule split_crlf_lines) (auto dest: header_line_facts(1))

lemma head_utf8:
  assumes "utf8_valid first" "\<forall>h \<in> set hs. header_ok h"
  shows "utf8_valid (first @ concat (map (\<lambda>l. crlf @ l) (map header_line hs)))"
proof -
  have "utf8_valid (concat (map (\<lambda>l. crlf @ l) (map header_line hs)))"
    using assms(2) by (induction hs) (simp_all add: header_line_facts(3) utf8_valid_append)
  then show ?thesis using assms(1) by (simp add: utf8_valid_append)
qed

section \<open>Header lines scanned twice\<close>

lemma split_crlf_join: "split_crlf s = l # ls \<Longrightarrow> s = l @ concat (map (\<lambda>l. crlf @ l) ls)"
proof (induction s arbitrary: l ls rule: split_crlf.induct)
  case (3 c d cs)
  show ?case
  proof (cases "c = CR \<and> d = LF")
    case True
    obtain m ms where "split_crlf cs = m # ms" using split_crlf_nonempty[of cs] by (cases "split_crlf cs") auto
    then show ?thesis using True 3 by auto
  next
    case False
    obtain m ms where m: "split_crlf (d # cs) = m # ms"
      using split_crlf_nonempty[of "d # cs"] by (cases "split_crlf (d # cs)") auto
    then have "l = c # m" "ls = ms" using False "3.prems" by auto
    then show ?thesis using "3.IH"(2)[OF False m] by simp
  qed
qed auto

lemma utf8_lines:
  "utf8_valid (l @ concat (map (\<lambda>l. crlf @ l) ls)) \<Longrightarrow> utf8_valid l \<and> (\<forall>k \<in> set ls. utf8_valid k)"
proof (induction ls arbitrary: l)
  case (Cons k ls)
  let ?rest = "k @ concat (map (\<lambda>l. crlf @ l) ls)"
  have "utf8_valid (l @ CR # LF # ?rest)" using Cons.prems by simp
  then have l: "utf8_valid l" and "utf8_valid (LF # ?rest)"
    using utf8_valid_ascii_split[of l CR "LF # ?rest"] by simp_all
  then have "utf8_valid ?rest" by simp
  then show ?case using Cons.IH[of k] l by simp
qed simp

lemma utf8_split_crlf: "utf8_valid s \<Longrightarrow> l \<in> set (split_crlf s) \<Longrightarrow> utf8_valid l"
proof -
  assume s: "utf8_valid s" and l: "l \<in> set (split_crlf s)"
  obtain k ks where "split_crlf s = k # ks" using split_crlf_nonempty[of s] by (cases "split_crlf s") auto
  then show ?thesis using split_crlf_join[of s k ks] utf8_lines[of k ks] s l by auto
qed

definition scan_header :: "string \<Rightarrow> string \<Rightarrow> FramingScan \<Rightarrow> FramingScan app" where
  "scan_header name v s =
    rbind (scan_length name v s) (\<lambda>s. rbind (scan_encoding name v s) (\<lambda>s. Ok (scan_connection name v s)))"

lemma scan_lines_Ok:
  "scan_lines (line # lines) s = Ok s' \<longleftrightarrow>
    (\<exists>name v t. split_once CHR '':'' line = Some (name, v) \<and> is_http_token name \<and>
       \<not> contains_prohibited_http_field_value_control v \<and> scan_header name v s = Ok t \<and>
       scan_lines lines t = Ok s')"
  by (auto simp: scan_header_def validate_response_value_def rbind_Ok_iff split: option.splits)

lemma rbind_assoc: "rbind (rbind x f) g = rbind x (\<lambda>a. rbind (f a) g)"
  by (cases x) simp_all

lemma scan_lines_append:
  "scan_lines (xs @ ys) s = rbind (scan_lines xs s) (scan_lines ys)"
proof (induction xs arbitrary: s)
  case (Cons x xs)
  then show ?case
    by (cases "split_once CHR '':'' x") (auto simp: validate_response_value_def rbind_assoc)
qed simp

lemma scan_codings_trim: "map trim cs = map trim ds \<Longrightarrow> scan_codings cs s = scan_codings ds s"
proof (induction cs arbitrary: ds s)
  case (Cons c cs)
  then obtain d ds' where "ds = d # ds'" "trim c = trim d" "map trim cs = map trim ds'"
    by (cases ds) auto
  then show ?case using Cons.IH[of ds'] by (simp add: Let_def)
qed simp

lemma trim_parts_eq:
  "trim_start v = trim_start w \<Longrightarrow> map trim (split_char CHR '','' v) = map trim (split_char CHR '','' w)"
  using trim_parts_trim_start[of v] trim_parts_trim_start[of w] by simp

lemma trim_eq: "trim_start v = trim_start w \<Longrightarrow> trim v = trim w"
  by (simp add: trim_def)

lemma list_ex_trim:
  "map trim cs = map trim ds \<Longrightarrow>
    list_ex (\<lambda>t. eq_ignore_ascii_case (trim t) x) cs = list_ex (\<lambda>t. eq_ignore_ascii_case (trim t) x) ds"
proof -
  assume "map trim cs = map trim ds"
  then have "list_ex (\<lambda>t. eq_ignore_ascii_case t x) (map trim cs) =
      list_ex (\<lambda>t. eq_ignore_ascii_case t x) (map trim ds)" by simp
  then show ?thesis by (simp add: list_ex_iff)
qed

lemma scan_header_trim:
  assumes "trim_start v = trim_start w"
  shows "scan_header name v s = scan_header name w s"
proof -
  have "scan_encoding name v = scan_encoding name w" "scan_connection name v = scan_connection name w"
    "scan_length name v = scan_length name w"
    using scan_codings_trim[OF trim_parts_eq[OF assms]] list_ex_trim[OF trim_parts_eq[OF assms]] trim_eq[OF assms]
    by (auto simp: scan_encoding_def scan_connection_def scan_length_def)
  then show ?thesis by (simp add: scan_header_def)
qed

lemma hop_by_hop_framing:
  "is_hop_by_hop_header_name ''connection''" "\<not> is_hop_by_hop_header_name ''content-length''"
  "\<not> is_hop_by_hop_header_name ''host''"
  by code_simp+

lemma framing_names:
  "to_ascii_lowercase ''Content-Length'' = ''content-length''"
  "to_ascii_lowercase ''Transfer-Encoding'' = ''transfer-encoding''"
  "to_ascii_lowercase ''Connection'' = ''connection''"
  "to_ascii_lowercase ''Host'' = ''host''"
  by code_simp+

lemma scan_dropped:
  assumes "\<not> retained_in_response tokens \<lparr>hdr_name = name, hdr_value = v\<rparr>"
    and "''content-length'' \<notin> set tokens" and "scan_header name v s = Ok t"
  shows "t\<lparr>scan_connection_close := c\<rparr> = s\<lparr>scan_connection_close := c\<rparr>"
proof -
  have "to_ascii_lowercase name \<noteq> ''transfer-encoding''" "to_ascii_lowercase name \<noteq> ''content-length''"
    using assms(1,2) hop_by_hop_framing by (auto simp: retained_in_response_def end_to_end_def Let_def)
  then show ?thesis using assms(3)
    by (auto simp: scan_header_def scan_length_def scan_encoding_def scan_connection_def
        eq_ignore_ascii_case_def framing_names)
qed

lemma scan_codings_close:
  "scan_codings cs (s\<lparr>scan_connection_close := c\<rparr>) =
    rbind (scan_codings cs s) (\<lambda>t. Ok (t\<lparr>scan_connection_close := c\<rparr>))"
proof (induction cs arbitrary: s)
  case (Cons d cs)
  obtain l p e n k where s: "s = \<lparr>scan_content_length = l, scan_encoding_present = p,
      scan_encoding_chunked = e, scan_chunked_seen = n, scan_connection_close = k\<rparr>" by (cases s) simp
  let ?d = "eq_ignore_ascii_case (trim d) ''chunked''"
  show ?case
    using Cons.IH[of "\<lparr>scan_content_length = l, scan_encoding_present = p,
      scan_encoding_chunked = ?d, scan_chunked_seen = n \<or> ?d, scan_connection_close = k\<rparr>"]
    by (simp add: s Let_def)
qed simp

lemma scan_retained:
  assumes "retained_in_response tokens \<lparr>hdr_name = name, hdr_value = v\<rparr>" and "scan_header name v s = Ok t"
  shows "scan_header name v (s\<lparr>scan_connection_close := c\<rparr>) = Ok (t\<lparr>scan_connection_close := c\<rparr>)"
proof -
  have n: "\<not> eq_ignore_ascii_case name ''Connection''"
    using assms(1) hop_by_hop_framing
    by (auto simp: retained_in_response_def end_to_end_def Let_def eq_ignore_ascii_case_def framing_names)
  obtain u where u: "scan_length name v s = Ok u" "scan_encoding name v u = Ok t"
    using assms(2) n by (auto simp: scan_header_def scan_connection_def rbind_Ok_iff)
  have "scan_length name v (s\<lparr>scan_connection_close := c\<rparr>) = Ok (u\<lparr>scan_connection_close := c\<rparr>)"
    using u(1) by (auto simp: scan_length_def split: if_splits option.splits)
  moreover have "scan_encoding name v (u\<lparr>scan_connection_close := c\<rparr>) = Ok (t\<lparr>scan_connection_close := c\<rparr>)"
    using u(2) scan_codings_close[where s = "u\<lparr>scan_encoding_present := True\<rparr>" and c = c]
    by (cases u) (auto simp: scan_encoding_def split: if_splits)
  ultimately show ?thesis using n by (simp add: scan_header_def scan_connection_def)
qed

text \<open>
  The sanitizer reads the header lines the framer accepted, and the lines it prints scan to the same
  framing; only the request to close the connection is the sanitizer's own.
\<close>

lemma header_ok_printed:
  assumes "split_once CHR '':'' line = Some (name, v)" "is_http_token name"
    "\<not> contains_prohibited_http_field_value_control v" "utf8_valid line"
  shows "header_ok \<lparr>hdr_name = name, hdr_value = trim_start v\<rparr>"
proof -
  have "utf8_valid v"
    using assms(4) split_once_SomeD[OF assms(1)] utf8_valid_ascii_split[of name "CHR '':''" v] by simp
  moreover obtain p where "v = p @ trim_start v" using trim_start_suffix[of v] by auto
  then have "set (trim_start v) \<subseteq> set v" by (metis set_append Un_upper2)
  ultimately show ?thesis using assms(2,3)
    by (auto simp: header_ok_def utf8_valid_trim_start contains_prohibited_http_field_value_control_def
        list_ex_iff)
qed

lemma space_allowed: "contains_prohibited_http_field_value_control (CHR '' '' # v) =
    contains_prohibited_http_field_value_control v"
  by (simp add: contains_prohibited_http_field_value_control_def prohibited_value_byte_def between_def)

lemma scan_header_line:
  assumes "header_ok h" "scan_header (hdr_name h) (hdr_value h) s = Ok t"
  shows "scan_lines (header_line h # lines) s = scan_lines lines t"
proof -
  have "scan_header (hdr_name h) (CHR '' '' # hdr_value h) s = Ok t"
    using assms(2) scan_header_trim[of "CHR '' '' # hdr_value h" "hdr_value h"] by (simp add: trim_space)
  then have "scan_lines [header_line h] s = Ok t"
    using header_line_facts(4)[OF assms(1)] assms(1) unfolding scan_lines_Ok
    by (simp add: header_ok_def space_allowed)
  then show ?thesis using scan_lines_append[of "[header_line h]" lines s] by simp
qed

lemma scan_lines_sanitized:
  assumes "scan_lines lines s = Ok s'" "\<forall>l \<in> set lines. utf8_valid l"
  shows "\<exists>hs. sanitizer_header_lines lines = Ok hs \<and> (\<forall>h \<in> set hs. header_ok h) \<and>
    (\<forall>tokens c. ''content-length'' \<notin> set tokens \<longrightarrow>
       scan_lines (map header_line (filter (retained_in_response tokens) hs)) (s\<lparr>scan_connection_close := c\<rparr>) =
         Ok (s'\<lparr>scan_connection_close := c\<rparr>))"
  using assms
proof (induction lines arbitrary: s)
  case (Cons line lines)
  obtain name v t where l: "split_once CHR '':'' line = Some (name, v)" "is_http_token name"
      "\<not> contains_prohibited_http_field_value_control v" "scan_header name v s = Ok t"
      "scan_lines lines t = Ok s'"
    using Cons.prems(1) unfolding scan_lines_Ok by auto
  let ?h = "\<lparr>hdr_name = name, hdr_value = trim_start v\<rparr>"
  have ok: "header_ok ?h" using header_ok_printed[OF l(1-3)] Cons.prems(2) by simp
  have scan: "scan_header name (trim_start v) s = Ok t" using l(4) scan_header_trim[of "trim_start v" v] by simp
  obtain hs where hs: "sanitizer_header_lines lines = Ok hs" "\<forall>h \<in> set hs. header_ok h"
      "\<And>tokens c. ''content-length'' \<notin> set tokens \<Longrightarrow>
        scan_lines (map header_line (filter (retained_in_response tokens) hs)) (t\<lparr>scan_connection_close := c\<rparr>) =
          Ok (s'\<lparr>scan_connection_close := c\<rparr>)"
    using Cons.IH[OF l(5)] Cons.prems(2) by auto
  have "scan_lines (map header_line (filter (retained_in_response tokens) (?h # hs))) (s\<lparr>scan_connection_close := c\<rparr>) =
      Ok (s'\<lparr>scan_connection_close := c\<rparr>)" if k: "''content-length'' \<notin> set tokens" for tokens c
  proof (cases "retained_in_response tokens ?h")
    case True
    then have "scan_header name (trim_start v) (s\<lparr>scan_connection_close := c\<rparr>) = Ok (t\<lparr>scan_connection_close := c\<rparr>)"
      using scan_retained[OF True scan] by simp
    then show ?thesis using scan_header_line[OF ok] hs(3)[OF k] True by simp
  next
    case False
    then show ?thesis using scan_dropped[OF False k scan, of c] hs(3)[OF k, of c] by simp
  qed
  then show ?case using hs(1,2) l(1) ok by auto
qed simp

lemma status_line_words:
  assumes "parse_status_line line = Ok status"
  shows "\<exists>code rest. split_whitespace line = ''HTTP/1.1'' # code # rest \<and>
    parse_unsigned 65535 10 code = Some status"
proof -
  obtain code reason where l: "split_once CHR '' '' line = Some (''HTTP/1.1'', code @ CHR '' '' # reason)"
      "length code = 3" "list_all is_ascii_digit code" "parse_unsigned 65535 10 code = Some status"
    using assms by (auto simp: parse_status_line_def split_once_Some split: option.splits if_splits)
  have "line = ''HTTP/1.1'' @ CHR '' '' # code @ CHR '' '' # reason" using split_once_SomeD[OF l(1)] by simp
  moreover have "header_safe code" using l(2,3)
    by (auto simp: header_safe_def list_all_iff is_ascii_digit_def between_def)
  moreover have "header_safe ''HTTP/1.1''" by code_simp
  ultimately show ?thesis using l(4) split_whitespace_word_space[of "''HTTP/1.1''"] split_whitespace_word_space[of code]
    by auto
qed

text \<open>The headers of a response block, as the sanitizer reads them.\<close>

definition block_headers :: "string \<Rightarrow> Header list" where
  "block_headers bytes =
    (case strip_suffix (crlf @ crlf) bytes of None \<Rightarrow> []
     | Some t \<Rightarrow> (case sanitizer_header_lines (tl (split_crlf t)) of Ok hs \<Rightarrow> hs | Err _ \<Rightarrow> []))"

lemma sanitizer_reads_lines:
  "\<forall>h \<in> set hs. header_ok h \<and> trim_start (hdr_value h) = hdr_value h \<Longrightarrow>
    sanitizer_header_lines (map header_line hs) = Ok hs"
proof (induction hs)
  case (Cons h hs)
  then show ?case using header_line_facts(4)[of h] by (simp add: trim_space)
qed simp

lemma sanitizer_lines_trimmed:
  "sanitizer_header_lines lines = Ok hs \<Longrightarrow> h \<in> set hs \<Longrightarrow> trim_start (hdr_value h) = hdr_value h"
  by (induction lines arbitrary: hs) (auto simp: rbind_Ok_iff split: option.splits)

abbreviation close_header :: Header where
  "close_header \<equiv> \<lparr>hdr_name = ''Connection'', hdr_value = ''close''\<rparr>"

lemma close_header_ok: "header_ok close_header" "trim_start (hdr_value close_header) = hdr_value close_header"
  by code_simp+

lemma print_close_header: "print_header close_header = ''Connection: close'' @ crlf"
  by code_simp

lemma scan_close_header:
  "scan_lines [header_line close_header] s = Ok (s\<lparr>scan_connection_close := True\<rparr>)"
proof -
  have c: "\<not> eq_ignore_ascii_case ''Connection'' ''Content-Length''"
    "\<not> eq_ignore_ascii_case ''Connection'' ''Transfer-Encoding''"
    "eq_ignore_ascii_case ''Connection'' ''Connection''"
    "list_ex (\<lambda>t. eq_ignore_ascii_case (trim t) ''close'') (split_char CHR '','' ''close'')"
    by code_simp+
  show ?thesis using scan_header_line[OF close_header_ok(1), of s "s\<lparr>scan_connection_close := True\<rparr>" "[]"] c
    by (simp add: scan_header_def scan_length_def scan_encoding_def scan_connection_def)
qed

lemma parse_head:
  assumes "parse_status_line line = Ok status" "split_crlf line = [line]" "utf8_valid line"
    "\<forall>h \<in> set hs. header_ok h"
  shows "parse_response_framing_headers (line @ crlf @ concat (map print_header hs) @ crlf) e =
      rbind (scan_lines (map header_line hs) \<lparr>scan_content_length = None, scan_encoding_present = False,
        scan_encoding_chunked = False, scan_chunked_seen = False, scan_connection_close = False\<rparr>)
        (choose_framing e status)" (is "_ = ?rhs")
proof -
  let ?t = "line @ concat (map (\<lambda>l. crlf @ l) (map header_line hs))"
  have "utf8_valid ?t" using head_utf8[OF assms(3,4)] .
  then have "utf8_valid (?t @ crlf @ crlf)" using utf8_valid_append[of ?t "crlf @ crlf"] by simp
  moreover have "split_crlf ?t = line # map header_line hs" using head_lines[OF assms(4)] assms(2) by simp
  moreover have "parse_response_framing_headers (t @ crlf @ crlf) e = ?rhs"
    if "utf8_valid (t @ crlf @ crlf)" "split_crlf t = line # map header_line hs" for t
    using that assms(1) strip_suffix_append[of "crlf @ crlf" t] by (simp add: parse_response_framing_headers_def)
  ultimately show ?thesis unfolding head_text by blast
qed

lemma block_headers_head:
  assumes "split_crlf line = [line]" "\<forall>h \<in> set hs. header_ok h \<and> trim_start (hdr_value h) = hdr_value h"
  shows "block_headers (line @ crlf @ concat (map print_header hs) @ crlf) = hs"
proof -
  have "split_crlf (line @ concat (map (\<lambda>l. crlf @ l) (map header_line hs))) = line # map header_line hs"
    using head_lines[of hs line] assms by simp
  moreover have "block_headers (t @ crlf @ crlf) = hs" if "split_crlf t = line # map header_line hs" for t
    using that sanitizer_reads_lines[OF assms(2)] strip_suffix_append[of "crlf @ crlf" t]
    by (simp add: block_headers_def)
  ultimately show ?thesis unfolding head_text by blast
qed

lemma parse_response_framing_headers_Ok:
  assumes "parse_response_framing_headers bytes e = Ok (status, framing, close)"
  shows "\<exists>t line lines s. bytes = t @ crlf @ crlf \<and> utf8_valid t \<and> split_crlf t = line # lines \<and>
    parse_status_line line = Ok status \<and>
    scan_lines lines \<lparr>scan_content_length = None, scan_encoding_present = False, scan_encoding_chunked = False,
      scan_chunked_seen = False, scan_connection_close = False\<rparr> = Ok s \<and>
    choose_framing e status s = Ok (status, framing, close)"
proof -
  let ?s0 = "\<lparr>scan_content_length = None, scan_encoding_present = False, scan_encoding_chunked = False,
      scan_chunked_seen = False, scan_connection_close = False\<rparr>"
  obtain t where t: "strip_suffix (crlf @ crlf) bytes = Some t" "utf8_valid bytes"
    using assms unfolding parse_response_framing_headers_def by (simp split: if_splits option.splits)
  obtain line lines where l: "split_crlf t = line # lines"
    using split_crlf_nonempty[of t] by (cases "split_crlf t") simp_all
  have "rbind (parse_status_line line) (\<lambda>status. rbind (scan_lines lines ?s0) (choose_framing e status)) =
      Ok (status, framing, close)"
    using assms t l unfolding parse_response_framing_headers_def by simp
  then obtain status' s where p: "parse_status_line line = Ok status'" "scan_lines lines ?s0 = Ok s"
      "choose_framing e status' s = Ok (status, framing, close)"
    unfolding rbind_Ok_iff by blast
  have "status' = status" using p(3) unfolding choose_framing_def by (simp split: if_splits)
  moreover have b: "bytes = t @ crlf @ crlf" using t(1) strip_suffix_Some by metis
  moreover have "utf8_valid t" using utf8_valid_ascii_split[of t CR "LF # crlf"] t(2) b by simp
  ultimately show ?thesis using l p by blast
qed

lemma choose_framing_close:
  "choose_framing e status s = Ok (status', framing, close) \<Longrightarrow>
    choose_framing e status (s\<lparr>scan_connection_close := c\<rparr>) = Ok (status', framing, c)"
  by (auto simp: choose_framing_def split: if_splits)

lemma choose_framing_interim:
  "choose_framing e status s = Ok (status', framing, close) \<Longrightarrow> framing = Interim \<longleftrightarrow> is_interim status"
  by (auto simp: choose_framing_def split: if_splits option.splits)


definition sample_response_head :: string where
  "sample_response_head =
    ''HTTP/1.1 200 OK'' @ crlf @ ''Keep-Alive: timeout=5'' @ crlf @ ''Content-Length:  5'' @ crlf @
    ''Connection: keep-alive'' @ crlf @ crlf"


section \<open>Where a head ends\<close>

lemma find_blank_skip: "CR \<notin> set l \<Longrightarrow> find_sub (crlf @ crlf) (l @ s) = map_option ((+) (length l)) (find_sub (crlf @ crlf) s)"
proof (induction l)
  case (Cons c l)
  then have "\<not> starts_with (crlf @ crlf) (c # l @ s)" by (auto simp: starts_with_iff)
  then show ?case using Cons by (simp add: option.map_comp comp_def)
qed (cases "find_sub (crlf @ crlf) s"; simp)

lemma find_blank_line:
  assumes "l \<noteq> []" "CR \<notin> set l"
  shows "find_sub (crlf @ crlf) (crlf @ l @ s) = map_option ((+) 2) (find_sub (crlf @ crlf) (l @ s))"
proof -
  obtain c t where l: "l = c # t" "c \<noteq> CR" using assms by (cases l) auto
  then have "\<not> starts_with (crlf @ crlf) (crlf @ l @ s)" "\<not> starts_with (crlf @ crlf) (LF # l @ s)"
    by (auto simp: starts_with_iff)
  then show ?thesis by (cases "find_sub (crlf @ crlf) (l @ s)") simp_all
qed

lemma find_head_end:
  assumes "CR \<notin> set l" "\<forall>k \<in> set ls. CR \<notin> set k \<and> k \<noteq> []"
  shows "find_sub (crlf @ crlf) (l @ concat (map (\<lambda>k. crlf @ k) ls) @ crlf @ crlf @ tail) =
    Some (length (l @ concat (map (\<lambda>k. crlf @ k) ls)))"
  using assms
proof (induction ls arbitrary: l)
  case Nil
  have "find_sub (crlf @ crlf) (crlf @ crlf @ tail) = Some 0" by (simp add: starts_with_iff)
  then show ?case using find_blank_skip[OF Nil.prems(1), of "crlf @ crlf @ tail"] by simp
next
  case (Cons k ls)
  let ?rest = "concat (map (\<lambda>k. crlf @ k) ls) @ crlf @ crlf @ tail"
  have k: "k \<noteq> []" "CR \<notin> set k" using Cons.prems(2) by auto
  have "find_sub (crlf @ crlf) (l @ crlf @ k @ ?rest) =
      map_option ((+) (length l)) (map_option ((+) 2) (find_sub (crlf @ crlf) (k @ ?rest)))"
    unfolding find_blank_skip[OF Cons.prems(1)] find_blank_line[OF k] ..
  then show ?case using Cons.IH[OF k(2)] Cons.prems(2) by simp
qed

lemma find_printed_head_end:
  assumes "CR \<notin> set first" "\<forall>h \<in> set hs. header_ok h"
  shows "find_sub (crlf @ crlf) (first @ crlf @ concat (map print_header hs) @ crlf @ tail) =
    Some (length (first @ crlf @ concat (map print_header hs) @ crlf) - 4)"
proof -
  let ?t = "first @ concat (map (\<lambda>k. crlf @ k) (map header_line hs))"
  have "\<forall>k \<in> set (map header_line hs). CR \<notin> set k \<and> k \<noteq> []" using assms(2) header_line_facts(1,2) by auto
  from find_head_end[OF assms(1) this, of tail]
  have "find_sub (crlf @ crlf) (?t @ crlf @ crlf @ tail) = Some (length ?t)" by simp
  moreover have "first @ crlf @ concat (map print_header hs) @ crlf @ tail = ?t @ crlf @ crlf @ tail"
    using arg_cong[OF head_text[of first hs], of "\<lambda>s. s @ tail"] by simp
  moreover have "length (first @ crlf @ concat (map print_header hs) @ crlf) = length ?t + 4"
    using arg_cong[OF head_text[of first hs], of length] by simp
  ultimately show ?thesis by (simp only: add_diff_cancel_right')
qed

section \<open>A head in fragments\<close>

abbreviation enough :: "nat \<Rightarrow> nat \<Rightarrow> bool" where
  "enough \<equiv> \<lambda>_ _. True"

lemma sanitize_loop_prefix:
  "sanitize_loop enough cursor out input s =
    try_bind (sanitize_loop enough 0 [] input s) (\<lambda>new s. (Ok (out @ new), s))"
proof (induction input arbitrary: cursor out s)
  case (Cons c cs)
  let ?s = "s\<lparr>san_headers := san_headers s @ [c]\<rparr>"
  show ?case
  proof (cases "san_max_header_bytes s \<le> length (san_headers s)")
    case False
    show ?thesis
    proof (cases "ends_with (crlf @ crlf) (san_headers s @ [c])")
      case ends: True
      show ?thesis
      proof (cases "sanitize_response_header_block (san_headers s @ [c]) (san_close_final_response s)")
        case (Ok p)
        obtain block interim where p: "p = (block, interim)" by (cases p)
        show ?thesis
          using False ends Ok p Cons.IH[of "cursor + 1" "out @ block" "?s\<lparr>san_headers := []\<rparr>"]
            Cons.IH[of 1 block "?s\<lparr>san_headers := []\<rparr>"]
          by (cases "sanitize_loop enough 0 [] cs (?s\<lparr>san_headers := []\<rparr>)";
              cases "fst (sanitize_loop enough 0 [] cs (?s\<lparr>san_headers := []\<rparr>))") (auto simp: Let_def)
      qed (use False ends in simp)
    next
      case no: False
      show ?thesis
        using False no Cons.IH[of "cursor + 1" out ?s] Cons.IH[of 1 "[]" ?s]
        by (cases "sanitize_loop enough 0 [] cs ?s"; cases "fst (sanitize_loop enough 0 [] cs ?s)") (auto simp: Let_def)
    qed
  qed simp
qed simp

lemma sanitize_loop_append:
  "\<not> san_forwarding_body s \<Longrightarrow>
    sanitize_loop enough cursor out (a @ b) s =
      try_bind (sanitize_loop enough cursor out a s) (\<lambda>new s.
        if san_forwarding_body s then (Ok (new @ b), s) else sanitize_loop enough (cursor + length a) new b s)"
proof (induction a arbitrary: cursor out s)
  case (Cons c cs)
  let ?s = "s\<lparr>san_headers := san_headers s @ [c]\<rparr>"
  have len: "cursor + 1 + length cs = cursor + length (c # cs)" by simp
  show ?case
  proof (cases "san_max_header_bytes s \<le> length (san_headers s) \<or> \<not> ends_with (crlf @ crlf) (san_headers s @ [c])")
    case True
    then show ?thesis using Cons.prems Cons.IH[of ?s "cursor + 1" out, unfolded len] by (auto simp: Let_def)
  next
    case False
    show ?thesis
    proof (cases "sanitize_response_header_block (san_headers s @ [c]) (san_close_final_response s)")
      case (Ok p)
      obtain block interim where p: "p = (block, interim)" by (cases p)
      show ?thesis
        using False Ok p Cons.prems Cons.IH[of "?s\<lparr>san_headers := []\<rparr>" "cursor + 1" "out @ block", unfolded len]
        by (auto simp: Let_def)
    qed (use False in simp)
  qed
qed simp

text \<open>
  The client's view of the sanitizer when memory suffices: the bytes delivered so far. A failed
  call delivers nothing, and the connection is given up.
\<close>

definition sanitize_into ::
  "string \<Rightarrow> string \<times> UpstreamResponseHeaderSanitizer \<Rightarrow> unit app \<times> string \<times> UpstreamResponseHeaderSanitizer" where
  "sanitize_into input st =
    (case sanitize enough input (snd st) of
       (Ok new, s) \<Rightarrow> (Ok (), fst st @ new, s)
     | (Err e, s) \<Rightarrow> (Err e, [], s))"

lemma sanitize_append:
  assumes "sanitize enough a s = (Ok new, s')"
  shows "sanitize enough (a @ b) s =
    (case sanitize enough b s' of (Ok rest, t) \<Rightarrow> (Ok (new @ rest), t) | (Err e, t) \<Rightarrow> (Err e, t))"
proof (cases "san_forwarding_body s")
  case True
  then show ?thesis using assms by (auto simp: sanitize_def)
next
  case False
  then show ?thesis
    using assms sanitize_loop_append[OF False, of 0 "[]" a b] sanitize_loop_prefix[of "length a" new b s']
    by (auto simp: sanitize_def split: try_bind_splits)
qed

interpretation sanitizer: chunked_reader "\<lambda>_. True" sanitize_into is_ok
proof (unfold_locales, goal_cases)
  case (2 st a r st' b)
  obtain new where "sanitize enough a (snd st) = (Ok new, snd st')" "fst st' = fst st @ new"
    using 2 by (auto simp: sanitize_into_def split: result.splits prod.splits)
  then show ?case using sanitize_append[of a "snd st" new "snd st'" b]
    by (auto simp: sanitize_into_def split: result.splits prod.splits)
qed simp



end
