(* ===== verification/ProxyMessages.thy ===== *)
theory ProxyMessages
  imports Forwarding
begin

text \<open>
  The messages the proxy writes itself, from \<^verbatim>\<open>edge-core/src/lib.rs\<close>: the request it sends to the selected
  upstream, with the length planner that charges it, and the responses it answers without an
  upstream. The lemmas show that the planned length is the written one, that its own responses end
  where the client expects, and where a forwarded request is framed differently from the original.

  Memory that is requested with \<^verbatim>\<open>try_reserve\<close> is the argument \<open>mem\<close> of the request builder.
\<close>

section \<open>Building upstream requests\<close>

datatype IoErrorKind = OutOfMemory | InvalidData

type_synonym 'a io = "('a, IoErrorKind \<times> string) result"

definition resource_allocation_io_error :: "string \<Rightarrow> 'a io" where
  "resource_allocation_io_error m =
    Err (OutOfMemory, as_str (Runtime ResourceAllocationFailed) @ '': '' @ m)"

definition checked_wire_length :: "nat list \<Rightarrow> nat io" where
  "checked_wire_length parts =
    foldl (\<lambda>total part. rbind total (\<lambda>total.
      case checked_add total part of
        None \<Rightarrow> resource_allocation_io_error ''upstream wire length overflowed''
      | Some n \<Rightarrow> Ok n)) (Ok 0) parts"

definition close_line :: string where
  "close_line = ''Connection: close'' @ crlf"

definition planned_upstream_request_len_with_connection_close ::
  "HttpRequest \<Rightarrow> string \<Rightarrow> Header list \<Rightarrow> bool \<Rightarrow> nat io" where
  "planned_upstream_request_len_with_connection_close r path hs force_close =
    rbind (checked_wire_length [length (req_method r), 1, length path, 1, length (req_version r), 2]) (\<lambda>total.
    rbind (foldl (\<lambda>total h. rbind total (\<lambda>total.
        checked_wire_length [total, length (hdr_name h), 2, length (hdr_value h), 2])) (Ok total) hs) (\<lambda>total.
    rbind (if force_close then checked_wire_length [total, length close_line] else Ok total) (\<lambda>total.
      checked_wire_length [total, 2, length (req_body r)])))"

fun set_first_host :: "string \<Rightarrow> Header list \<Rightarrow> Header list" where
  "set_first_host host [] = []"
| "set_first_host host (h # hs) =
    (if eq_ignore_ascii_case (hdr_name h) ''Host'' then h\<lparr>hdr_value := host\<rparr> # hs
     else h # set_first_host host hs)"

definition is_forwarded_name :: "string \<Rightarrow> bool" where
  "is_forwarded_name name \<longleftrightarrow>
    name \<in> set [''x-forwarded-for'', ''x-forwarded-proto'', ''x-forwarded-host'']"

text \<open>The header list both the builder and the planner compute.\<close>

definition projected_headers ::
  "HttpRequest \<Rightarrow> string \<Rightarrow> string \<Rightarrow> string \<Rightarrow> bool \<Rightarrow> string option \<Rightarrow> Header list" where
  "projected_headers r client_ip scheme original_host preserve host_override =
    (let hs = upstream_request_headers (req_headers r) preserve;
         hs = filter (\<lambda>h. \<not> is_forwarded_name (to_ascii_lowercase (hdr_name h))) hs;
         hs = hs @ forwarded_headers client_ip scheme original_host
     in case host_override of None \<Rightarrow> hs | Some host \<Rightarrow> set_first_host host hs)"

definition request_wire :: "HttpRequest \<Rightarrow> string \<Rightarrow> Header list \<Rightarrow> bool \<Rightarrow> string" where
  "request_wire r path hs force_close =
    req_method r @ '' '' @ path @ '' '' @ req_version r @ crlf @
    concat (map print_header hs) @ (if force_close then close_line else []) @ crlf @ req_body r"

definition build_upstream_request_with_host_override_and_connection_close ::
  "bool \<Rightarrow> HttpRequest \<Rightarrow> (string \<Rightarrow> string) \<Rightarrow> string \<Rightarrow> string \<Rightarrow> string \<Rightarrow> bool \<Rightarrow> string option \<Rightarrow> bool
    \<Rightarrow> string io" where
  "build_upstream_request_with_host_override_and_connection_close mem r join_request_path client_ip scheme
      original_host preserve host_override force_close =
    (let hs = projected_headers r client_ip scheme original_host preserve host_override;
         path = join_request_path (req_path r) in
     rbind (planned_upstream_request_len_with_connection_close r path hs force_close) (\<lambda>planned.
       if \<not> mem then resource_allocation_io_error ''upstream wire reserve failed''
       else
         let wire = request_wire r path hs force_close in
         if length wire \<noteq> planned
         then Err (InvalidData, ''RESOURCE_ACCOUNTING_INVARIANT_FAILED: upstream wire length mismatch'')
         else Ok wire))"

definition tls_host_override :: "UpstreamTlsPolicy \<Rightarrow> string option" where
  "tls_host_override p = (case p of TlsDisabled \<Rightarrow> None | ServerAuthenticated _ h _ \<Rightarrow> Some h)"

definition planned_selected_upstream_request_len_with_keep_alive ::
  "HttpRequest \<Rightarrow> UpstreamEndpoint \<Rightarrow> UpstreamTlsPolicy \<Rightarrow> string \<Rightarrow> string \<Rightarrow> string \<Rightarrow> bool \<Rightarrow> bool \<Rightarrow> nat io" where
  "planned_selected_upstream_request_len_with_keep_alive r e tls client_ip scheme original_host preserve keep_alive =
    planned_upstream_request_len_with_connection_close r (join_path e (req_path r))
      (projected_headers r client_ip scheme original_host preserve (tls_host_override tls))
      (\<not> preserve \<and> \<not> keep_alive)"

definition planned_selected_upstream_request_len ::
  "HttpRequest \<Rightarrow> UpstreamEndpoint \<Rightarrow> UpstreamTlsPolicy \<Rightarrow> string \<Rightarrow> string \<Rightarrow> string \<Rightarrow> bool \<Rightarrow> nat io" where
  "planned_selected_upstream_request_len r e tls client_ip scheme original_host preserve =
    planned_selected_upstream_request_len_with_keep_alive r e tls client_ip scheme original_host preserve False"

definition build_selected_upstream_request_with_keep_alive ::
  "bool \<Rightarrow> HttpRequest \<Rightarrow> UpstreamEndpoint \<Rightarrow> UpstreamTlsPolicy \<Rightarrow> string \<Rightarrow> string \<Rightarrow> string \<Rightarrow> bool \<Rightarrow> bool
    \<Rightarrow> string io" where
  "build_selected_upstream_request_with_keep_alive mem r e tls client_ip scheme original_host preserve keep_alive =
    rbind (planned_selected_upstream_request_len_with_keep_alive r e tls client_ip scheme original_host
        preserve keep_alive) (\<lambda>planned.
    rbind (build_upstream_request_with_host_override_and_connection_close mem r (join_path e) client_ip scheme
        original_host preserve (tls_host_override tls) (\<not> preserve \<and> \<not> keep_alive)) (\<lambda>output.
      if length output \<noteq> planned
      then Err (InvalidData, ''RESOURCE_ACCOUNTING_INVARIANT_FAILED: selected wire length mismatch'')
      else Ok output))"

definition build_selected_upstream_request ::
  "bool \<Rightarrow> HttpRequest \<Rightarrow> UpstreamEndpoint \<Rightarrow> UpstreamTlsPolicy \<Rightarrow> string \<Rightarrow> string \<Rightarrow> string \<Rightarrow> bool \<Rightarrow> string io" where
  "build_selected_upstream_request mem r e tls client_ip scheme original_host preserve =
    build_selected_upstream_request_with_keep_alive mem r e tls client_ip scheme original_host preserve False"

section \<open>Responses of the proxy itself\<close>

definition plain_response :: "nat \<Rightarrow> string \<Rightarrow> string \<Rightarrow> string" where
  "plain_response status reason body =
    ''HTTP/1.1 '' @ decimal status @ '' '' @ reason @ crlf @ ''Content-Length: '' @ decimal (length body) @ crlf @
    ''Connection: close'' @ crlf @ crlf @ body"

definition http_error_response :: "nat \<Rightarrow> string \<Rightarrow> string" where
  "http_error_response status reason =
    (let body = decimal status @ '' '' @ reason @ [LF] in
     ''HTTP/1.1 '' @ decimal status @ '' '' @ reason @ crlf @ ''Content-Length: '' @ decimal (length body) @ crlf @
     ''Connection: close'' @ crlf @ crlf @ body)"

definition error_response_spec :: "ErrorCode \<Rightarrow> nat \<times> string" where
  "error_response_spec code =
    (if code = Http HttpRequestBodyTooLarge then (413, ''Payload Too Large'')
     else if code = Http HttpRequestLineTooLarge then (414, ''URI Too Long'')
     else if code = Http HttpHeaderTooLarge then (431, ''Request Header Fields Too Large'')
     else if code = Http HttpConnectMethodRejected then (405, ''Method Not Allowed'')
     else if code = Http HttpMalformedRequest \<or> code = Http HttpTransferEncodingContentLengthConflict
     then (400, ''Bad Request'')
     else if code = Runtime ResourcePayloadCapacityReached \<or> code = Runtime ResourceAllocationFailed
     then (503, ''Service Unavailable'')
     else (500, ''Internal Server Error''))"

definition error_response_for_code :: "ErrorCode \<Rightarrow> string" where
  "error_response_for_code code =
    (case error_response_spec code of (status, reason) \<Rightarrow> http_error_response status reason)"

definition redirect_response :: "nat \<Rightarrow> string \<Rightarrow> string \<Rightarrow> string" where
  "redirect_response status host path =
    (let reason = (if status = 301 then ''Moved Permanently''
                   else if status = 308 then ''Permanent Redirect'' else ''Redirect'');
         location = ''https://'' @ host @ path;
         body = decimal status @ '' '' @ reason @ [LF]
     in ''HTTP/1.1 '' @ decimal status @ '' '' @ reason @ crlf @ ''Location: '' @ location @ crlf @
        ''Content-Length: '' @ decimal (length body) @ crlf @ ''Connection: close'' @ crlf @ crlf @ body)"

definition response_with_connection_close :: "string \<Rightarrow> string" where
  "response_with_connection_close response =
    (case find_sub (crlf @ crlf) response of
       None \<Rightarrow> response
     | Some header_end \<Rightarrow>
         take header_end response @ crlf @ ''Connection: close'' @ crlf @ drop header_end response)"

definition response_declares_connection_close :: "string \<Rightarrow> bool" where
  "response_declares_connection_close response \<longleftrightarrow>
    utf8_valid response \<and>
    list_ex (\<lambda>v. eq_ignore_ascii_case (trim v) ''close'')
      (concat (map (\<lambda>(_, v). split_char CHR '','' v)
        (filter (\<lambda>(name, _). eq_ignore_ascii_case name ''Connection'')
          (List.map_filter (split_once CHR '':'')
            (takeWhile (\<lambda>l. l \<noteq> []) (drop 1 (split_crlf response)))))))"

definition runtime_error_log_for_status :: "nat \<Rightarrow> (ErrorCode \<times> string) option" where
  "runtime_error_log_for_status status =
    (if status = 502 then Some (Runtime RuntimeUpstreamBadGateway, ''upstream returned bad gateway'')
     else if status = 504 then Some (Runtime RuntimeUpstreamTimeout, ''upstream timed out'')
     else None)"

definition smuggling_request :: string where
  "smuggling_request =
    ''POST / HTTP/1.1'' @ crlf @ ''Host: a.example'' @ crlf @ ''Content-Length: 19'' @ crlf @
    ''Connection: content-length'' @ crlf @ crlf @ ''GET /x HTTP/1.1'' @ crlf @ crlf"

definition sample_plain_endpoint :: UpstreamEndpoint where
  "sample_plain_endpoint = \<lparr>ue_scheme = HttpScheme, ue_host = ''10.0.0.1'', ue_port = 8080, ue_base_path = [],
     ue_ipv6 = False\<rparr>"

definition forwarded_frame :: "string \<Rightarrow> (string \<times> string \<times> nat) option" where
  "forwarded_frame input =
    (case parse_http_request input default_http_limits of Err _ \<Rightarrow> None
     | Ok r \<Rightarrow>
         (case build_selected_upstream_request True r sample_plain_endpoint TlsDisabled ''10.0.0.9'' ''http''
                 ''a.example'' False of Err _ \<Rightarrow> None
          | Ok wire \<Rightarrow>
              (case find_sub (crlf @ crlf) wire of None \<Rightarrow> None
               | Some k \<Rightarrow>
                   (case expected_request_body_len_from_header_bytes (take k wire) of Err _ \<Rightarrow> None
                    | Ok n \<Rightarrow> Some (req_body r, drop (k + 4) wire, n)))))"


section \<open>The proxy's own responses\<close>

lemma header_safe_facts:
  assumes "header_safe w"
  shows "CR \<notin> set w" "utf8_valid w" "\<not> contains_prohibited_request_target_control w"
    "\<not> contains_prohibited_http_field_value_control w"
proof -
  have f: "32 < byte c" "byte c < 127" if "c \<in> set w" for c using assms that by (simp_all add: header_safe_def)
  show "CR \<notin> set w" using f(1)[of CR] by auto
  show "utf8_valid w" using f(2) by (intro utf8_valid_ascii) fastforce
  have t: "\<not> (byte c \<le> 31 \<or> byte c = 127)" "\<not> prohibited_value_byte c" if "c \<in> set w" for c
    using f[OF that] by (simp_all add: prohibited_value_byte_def between_def)
  show "\<not> contains_prohibited_request_target_control w"
    using t(1) by (simp add: contains_prohibited_request_target_control_def list_ex_iff)
  show "\<not> contains_prohibited_http_field_value_control w"
    using t(2) by (simp add: contains_prohibited_http_field_value_control_def list_ex_iff)
qed

abbreviation length_header :: "nat \<Rightarrow> Header" where
  "length_header n \<equiv> \<lparr>hdr_name = ''Content-Length'', hdr_value = decimal n\<rparr>"

lemma digit_facts: "is_ascii_digit c \<Longrightarrow> is_ascii_alphanumeric c \<and> 32 < byte c \<and> byte c < 127"
  by (simp add: is_ascii_digit_def is_ascii_alphanumeric_def between_def)

lemma decimal_facts:
  "CR \<notin> set (decimal n)" "CHR '' '' \<notin> set (decimal n)" "utf8_valid (decimal n)" "trim (decimal n) = decimal n"
  "\<not> contains_prohibited_http_field_value_control (decimal n)"
proof -
  have d: "\<And>c. c \<in> set (decimal n) \<Longrightarrow> is_ascii_digit c" "decimal n \<noteq> []" using decimal_word by blast+
  show "CR \<notin> set (decimal n)" using d(1) digit_facts alphanumeric_facts by blast
  show "CHR '' '' \<notin> set (decimal n)" using d(1) digit_facts alphanumeric_facts by blast
  show "utf8_valid (decimal n)" using d(1) digit_facts alphanumeric_facts by (intro utf8_valid_ascii) blast
  show "trim (decimal n) = decimal n" using d digit_facts by (intro trim_word) simp
  show "\<not> contains_prohibited_http_field_value_control (decimal n)"
  proof
    assume "contains_prohibited_http_field_value_control (decimal n)"
    then obtain c where c: "c \<in> set (decimal n)" "prohibited_value_byte c"
      by (auto simp: contains_prohibited_http_field_value_control_def list_ex_iff)
    show False using digit_facts[OF d(1)[OF c(1)]] c(2) by (simp add: prohibited_value_byte_def between_def)
  qed
qed

lemma length_header_ok: "header_ok (length_header n)"
proof -
  have "is_http_token ''Content-Length''" by code_simp
  then show ?thesis by (simp add: header_ok_def decimal_facts)
qed

lemma scan_length_header:
  assumes "n \<le> usize_max" "scan_content_length s = None"
  shows "scan_header ''Content-Length'' (decimal n) s = Ok (s\<lparr>scan_content_length := Some n\<rparr>)"
proof -
  have c: "\<not> eq_ignore_ascii_case ''Content-Length'' ''Connection''"
    "\<not> eq_ignore_ascii_case ''Content-Length'' ''Transfer-Encoding''"
    "eq_ignore_ascii_case ''Content-Length'' ''Content-Length''" by code_simp+
  have "parse_usize (decimal n) = Some n" using parse_unsigned_decimal[OF assms(1)] by (simp add: parse_usize_def)
  then show ?thesis using c assms(2) decimal_facts(4)
    by (simp add: scan_header_def scan_length_def scan_encoding_def scan_connection_def)
qed

lemma parse_own_status_line:
  assumes "100 \<le> status" "status \<le> 999"
  shows "parse_status_line (''HTTP/1.1 '' @ decimal status @ '' '' @ reason) = Ok status"
proof -
  let ?rest = "decimal status @ CHR '' '' # reason"
  have "CHR '' '' \<notin> set ''HTTP/1.1''" by code_simp
  from split_once_append[OF this, of ?rest]
  have "split_once CHR '' '' (''HTTP/1.1 '' @ decimal status @ '' '' @ reason) = Some (''HTTP/1.1'', ?rest)" by simp
  moreover have "split_once CHR '' '' ?rest = Some (decimal status, reason)"
    using split_once_append[OF decimal_facts(2)] by simp
  moreover have "list_all is_ascii_digit (decimal status)" using decimal_word by (simp add: list_all_iff)
  moreover have "length (decimal status) = 3"
  proof -
    have "status div 10 div 10 < 10" "\<not> status div 10 < 10" "\<not> status < 10" using assms by linarith+
    then show ?thesis
      by (simp add: decimal.simps[of status] decimal.simps[of "status div 10"] decimal.simps[of "status div 10 div 10"])
  qed
  moreover have "parse_unsigned 65535 10 (decimal status) = Some status"
    using parse_unsigned_decimal[of status 65535] assms by simp
  ultimately show ?thesis using assms by (simp add: parse_status_line_def)
qed

text \<open>A head with further headers that say nothing about the body, a length and a close.\<close>

lemma own_response_consumed:
  assumes "200 \<le> status" "status \<le> 999" "status \<notin> {204, 304}" "CR \<notin> set reason" "utf8_valid reason"
    "length body \<le> usize_max"
    "\<forall>h \<in> set hs. header_ok h \<and> (\<forall>s. scan_header (hdr_name h) (hdr_value h) s = Ok s)"
    "response = (''HTTP/1.1 '' @ decimal status @ '' '' @ reason) @ crlf @
      concat (map print_header (hs @ [length_header (length body), close_header])) @ crlf @ body"
    "length response \<le> max_header + length body" "18 \<le> max_line"
  shows "\<exists>f. framing_push (\<lambda>_. True) response (with_body_expectation max_header max_line Normal) =
      (Ok \<lparr>fp_consumed = length response, fp_input_len = length response,
         fp_phase = ResponseFramingPhase.Complete, fp_status_code = Some status\<rparr>, f) \<and>
    \<not> is_keep_alive_reusable f"
proof -
  let ?line = "''HTTP/1.1 '' @ decimal status @ '' '' @ reason"
  let ?hs = "hs @ [length_header (length body), close_header]"
  let ?head = "?line @ crlf @ concat (map print_header ?hs) @ crlf"
  let ?s0 = "\<lparr>scan_content_length = None, scan_encoding_present = False, scan_encoding_chunked = False,
      scan_chunked_seen = False, scan_connection_close = False\<rparr>"
  have cr: "CR \<notin> set ?line" using assms(4) decimal_facts(1)[of status] by simp
  have u: "utf8_valid ?line"
    using assms(5) utf8_valid_append[OF decimal_facts(3), of status "CHR '' '' # reason"] by simp
  have ok: "\<forall>h \<in> set ?hs. header_ok h" using assms(7) length_header_ok close_header_ok by simp
  have "scan_lines (map header_line hs @ ls) ?s0 = scan_lines ls ?s0" for ls
    using assms(7) by (induction hs) (simp_all add: scan_header_line del: scan_lines.simps(2))
  then have "scan_lines (map header_line ?hs) ?s0 =
      Ok (?s0\<lparr>scan_content_length := Some (length body), scan_connection_close := True\<rparr>)"
    using scan_header_line[OF length_header_ok, of "length body" ?s0] scan_length_header[OF assms(6), of ?s0]
      scan_close_header by simp
  then have p: "parse_response_framing_headers ?head Normal =
      Ok (status, ResponseBodyFraming.ContentLength (length body), True)"
    using parse_head[OF parse_own_status_line split_crlf_line[OF cr] u ok, of Normal] assms(1-3)
    by (simp add: choose_framing_def is_interim_def)
  have e: "find_sub (crlf @ crlf) ?head = Some (length ?head - 4)"
    using find_printed_head_end[OF cr ok, of "[]"] by simp
  have r: "response = ?head @ body @ []" "length ?head \<le> max_header" using assms(8,9) by simp_all
  obtain f where f: "framing_ref (\<lambda>_. True) 0 response (with_body_expectation max_header max_line Normal) =
      (Ok (length ?head + length body), f)" "fr_state f = Complete" "fr_status_code f = Some status"
      "is_keep_alive_reusable f = (\<not> True)"
    using response_consumed[OF p _ e r(2) assms(10), of "[]" body "[]"] unfolding r(1)[symmetric] by auto
  have "length ?head + length body = length response" using r(1) by simp
  then show ?thesis using framing_push_complete[OF f(1,2)] f(3,4) by (intro exI[of _ f]) simp
qed

abbreviation location_header :: "string \<Rightarrow> string \<Rightarrow> Header" where
  "location_header host path \<equiv> \<lparr>hdr_name = ''Location'', hdr_value = ''https://'' @ host @ path\<rparr>"

lemma location_header_ok:
  assumes "header_safe (host @ path)"
  shows "header_ok (location_header host path)"
    "scan_header ''Location'' v s = Ok s"
proof -
  have "header_safe ''https://''" by code_simp
  then have "header_safe (''https://'' @ host @ path)" using assms by (auto simp: header_safe_def)
  note f = header_safe_facts[OF this]
  have t: "is_http_token ''Location''" by code_simp
  show "header_ok (location_header host path)" using t f(2,4) by (simp only: header_ok_def Header.simps simp_thms)
  have "\<not> eq_ignore_ascii_case ''Location'' ''Content-Length''" "\<not> eq_ignore_ascii_case ''Location'' ''Transfer-Encoding''"
    "\<not> eq_ignore_ascii_case ''Location'' ''Connection''" by code_simp+
  then show "scan_header ''Location'' v s = Ok s"
    by (simp add: scan_header_def scan_length_def scan_encoding_def scan_connection_def)
qed




section \<open>The planned length\<close>

lemma checked_wire_length_sum:
  "checked_wire_length parts =
    (if sum_list parts \<le> usize_max then Ok (sum_list parts)
     else resource_allocation_io_error ''upstream wire length overflowed'')"
proof -
  let ?add = "\<lambda>total part. rbind total (\<lambda>total. case checked_add total part of
      None \<Rightarrow> resource_allocation_io_error ''upstream wire length overflowed'' | Some n \<Rightarrow> Ok n)"
  let ?err = "resource_allocation_io_error ''upstream wire length overflowed''"
  have err: "foldl ?add ?err ps = ?err" for ps
    by (induction ps) (simp_all add: resource_allocation_io_error_def)
  have "foldl ?add (Ok acc) ps = (if acc + sum_list ps \<le> usize_max then Ok (acc + sum_list ps) else ?err)"
    if "acc \<le> usize_max" for acc ps
    using that
  proof (induction ps arbitrary: acc)
    case (Cons p ps)
    then show ?case
    proof (cases "acc + p \<le> usize_max")
      case True
      then show ?thesis using Cons.IH[OF True] by (simp add: checked_add_def add.assoc)
    next
      case False
      then show ?thesis using err by (simp add: checked_add_def)
    qed
  qed simp
  from this[of 0 parts] show ?thesis by (simp add: checked_wire_length_def)
qed

lemma planned_headers_sum:
  assumes "acc \<le> usize_max"
  shows "foldl (\<lambda>total h. rbind total (\<lambda>total.
      checked_wire_length [total, length (hdr_name h), 2, length (hdr_value h), 2])) (Ok acc) hs =
    (if acc + length (concat (map print_header hs)) \<le> usize_max
     then Ok (acc + length (concat (map print_header hs)))
     else resource_allocation_io_error ''upstream wire length overflowed'')"
proof -
  let ?add = "\<lambda>total h. rbind total (\<lambda>total.
      checked_wire_length [total, length (hdr_name h), 2, length (hdr_value h), 2])"
  let ?err = "resource_allocation_io_error ''upstream wire length overflowed''"
  have err: "foldl ?add ?err hs = ?err" for hs
    by (induction hs) (simp_all add: resource_allocation_io_error_def)
  show ?thesis using assms
  proof (induction hs arbitrary: acc)
    case (Cons h hs)
    have len: "length (print_header h) = length (hdr_name h) + 2 + length (hdr_value h) + 2"
      by (simp add: print_header_def)
    show ?case
    proof (cases "acc + length (print_header h) \<le> usize_max")
      case True
      then show ?thesis using Cons.IH[OF True] len by (simp add: checked_wire_length_sum add.assoc)
    next
      case False
      then show ?thesis using err len by (simp add: checked_wire_length_sum)
    qed
  qed simp
qed

lemma planned_length:
  "planned_upstream_request_len_with_connection_close r path hs force_close =
    (if length (request_wire r path hs force_close) \<le> usize_max
     then Ok (length (request_wire r path hs force_close))
     else resource_allocation_io_error ''upstream wire length overflowed'')"
proof -
  let ?line = "length (req_method r) + (1 + (length path + (1 + (length (req_version r) + 2))))"
  have err: "rbind (resource_allocation_io_error m) g = resource_allocation_io_error m" for m g
    by (simp add: resource_allocation_io_error_def)
  have "length (request_wire r path hs force_close) =
      ?line + length (concat (map print_header hs)) + (if force_close then length close_line else 0) + 2 +
      length (req_body r)" by (simp add: request_wire_def)
  then show ?thesis
    using planned_headers_sum[of ?line hs]
    by (auto simp: planned_upstream_request_len_with_connection_close_def checked_wire_length_sum err)
qed

lemma build_selected_eq:
  "build_selected_upstream_request_with_keep_alive mem r e tls client_ip scheme original_host preserve keep_alive =
    (let wire = request_wire r (join_path e (req_path r))
        (projected_headers r client_ip scheme original_host preserve (tls_host_override tls))
        (\<not> preserve \<and> \<not> keep_alive)
     in if usize_max < length wire then resource_allocation_io_error ''upstream wire length overflowed''
        else if mem then Ok wire else resource_allocation_io_error ''upstream wire reserve failed'')"
  by (simp add: Let_def planned_selected_upstream_request_len_with_keep_alive_def planned_length
      build_selected_upstream_request_with_keep_alive_def resource_allocation_io_error_def
      build_upstream_request_with_host_override_and_connection_close_def)

text \<open>
  C36: The length the proxy plans and charges for an upstream request is the length of the bytes it
  writes. For every request, endpoint and policy the planner returns the length of the wire text or
  refuses it as too long for the address space, and the builder then gives exactly that text when
  the reservation succeeds; the two checks that would report an accounting failure never fire.
\<close>

theorem planned_length_is_exact:
  "let wire = request_wire r (join_path e (req_path r))
        (projected_headers r client_ip scheme original_host preserve (tls_host_override tls))
        (\<not> preserve \<and> \<not> keep_alive);
       overflow = ''upstream wire length overflowed''
   in planned_selected_upstream_request_len_with_keep_alive r e tls client_ip scheme original_host preserve keep_alive =
        (if length wire \<le> usize_max then Ok (length wire) else resource_allocation_io_error overflow) \<and>
      build_selected_upstream_request_with_keep_alive mem r e tls client_ip scheme original_host preserve keep_alive =
        (if usize_max < length wire then resource_allocation_io_error overflow
         else if mem then Ok wire else resource_allocation_io_error ''upstream wire reserve failed'')"
  by (simp add: Let_def planned_selected_upstream_request_len_with_keep_alive_def planned_length build_selected_eq)

section \<open>Printing and parsing requests\<close>

lemma utf8_valid_trim_end: "utf8_valid s \<Longrightarrow> utf8_valid (trim_end s)"
proof -
  have "utf8_valid (rev r) \<Longrightarrow> utf8_valid (rev (trim_end_rev r))" for r
  proof (induction r rule: trim_end_rev.induct)
    case (1 r)
    show ?case
    proof (cases "ws_len_rev r = 0")
      case True
      then show ?thesis using 1(2) by (simp add: trim_end_rev_fix)
    next
      case False
      then obtain w where w: "find (\<lambda>w. starts_with (rev w) r) ws_chars = Some w" "ws_len_rev r = length w"
        by (auto simp: ws_len_rev_def split: option.splits)
      then have ws: "w \<in> set ws_chars" "r = rev w @ drop (ws_len_rev r) r"
        by (auto simp: find_Some_iff starts_with_iff)
      have "list_all (\<lambda>w. w \<noteq> [] \<and> \<not> is_cont (hd w)) ws_chars" by code_simp
      then obtain c t where c: "w = c # t" "\<not> is_cont c" using ws(1) by (cases w) (auto simp: list_all_iff)
      have "rev r = rev (drop (ws_len_rev r) r) @ c # t" using arg_cong[OF ws(2), of rev] c(1) by simp
      then have "utf8_valid (rev (drop (ws_len_rev r) r))" using utf8_valid_split[OF _ c(2)] 1(2) by metis
      moreover have "trim_end_rev r = trim_end_rev (drop (ws_len_rev r) r)"
        using False by (subst trim_end_rev.simps) simp
      ultimately show ?thesis using 1(1)[OF False] by simp
    qed
  qed
  from this[of "rev s"] show "utf8_valid s \<Longrightarrow> utf8_valid (trim_end s)" by (simp add: trim_end_def)
qed

lemma utf8_valid_trim: "utf8_valid s \<Longrightarrow> utf8_valid (trim s)"
  by (simp add: trim_def utf8_valid_trim_end utf8_valid_trim_start)

lemma header_safe_trim: "header_safe w \<Longrightarrow> trim w = w"
proof -
  assume w: "header_safe w"
  have l: "list_all (\<lambda>x. \<not> (32 < byte (hd x) \<and> byte (hd x) < 127) \<and> \<not> (32 < byte (last x) \<and> byte (last x) < 127)) ws_chars"
    by code_simp
  have "hd x \<notin> set w \<and> last x \<notin> set w" if "x \<in> set ws_chars" for x
    using l w that by (auto simp: list_all_iff header_safe_def)
  then show ?thesis by (rule trim_clean)
qed

text \<open>A header the request parser reads back unchanged.\<close>

definition header_stable :: "Header \<Rightarrow> bool" where
  "header_stable h \<longleftrightarrow> header_ok h \<and> trim (hdr_value h) = hdr_value h"

lemma parse_printed_lines:
  "\<forall>h \<in> set hs. header_stable h \<Longrightarrow> length acc + length hs \<le> limit \<Longrightarrow>
    parse_header_lines limit acc (map header_line hs) = Ok (acc @ hs)"
proof (induction hs arbitrary: acc)
  case (Cons h hs)
  have h: "header_ok h" "trim (hdr_value h) = hdr_value h" "is_http_token (hdr_name h)"
    using Cons.prems(1) by (simp_all add: header_stable_def header_ok_def)
  then have "validate_header_value (CHR '' '' # hdr_value h) = Ok ()"
    by (simp add: validate_header_value_def space_allowed header_ok_def)
  then show ?case using Cons.IH[of "acc @ [h]"] Cons.prems header_line_facts(4)[OF h(1)] h
    by (cases h) (simp add: trim_space)
qed simp

lemma parse_printed_request:
  assumes "is_http_token m" "\<not> eq_ignore_ascii_case m ''CONNECT''" "header_safe path"
    "\<forall>h \<in> set hs. header_stable h" "host_values hs = [host]" "host \<noteq> []"
    "expected_request_body_len_from_headers hs = Ok (length body)"
    "wire = (m @ CHR '' '' # path @ CHR '' '' # ''HTTP/1.1'') @ crlf @ concat (map print_header hs) @ crlf @ body"
    "length wire \<le> max_request_line_bytes limits" "length wire \<le> max_header_bytes limits"
    "length hs \<le> max_header_count limits" "length body \<le> max_body_bytes limits"
  shows "parse_http_request wire limits =
    Ok \<lparr>req_method = m, req_path = path, req_version = ''HTTP/1.1'', req_headers = hs, req_body = body\<rparr>"
    (is "_ = ?result")
proof -
  let ?line = "m @ CHR '' '' # path @ CHR '' '' # ''HTTP/1.1''"
  let ?t = "?line @ concat (map (\<lambda>k. crlf @ k) (map header_line hs))"
  note tok = token_facts[OF assms(1)]
  have v: "header_safe ''HTTP/1.1''" by code_simp
  note safe = header_safe_facts[OF assms(3)]
  have "utf8_valid (CHR '' '' # ''HTTP/1.1'')" by code_simp
  then have line: "CR \<notin> set ?line" "utf8_valid ?line"
    using tok safe header_safe_facts[OF v] by (simp_all add: utf8_valid_append)
  have words: "split_whitespace ?line = [m, path, ''HTTP/1.1'']"
    using split_whitespace_word_space[OF tok(4)] split_whitespace_word_space[OF assms(3)]
      split_whitespace_last[OF v] by simp
  have ok: "\<forall>h \<in> set hs. header_ok h" using assms(4) by (simp add: header_stable_def)
  have t: "wire = ?t @ crlf @ crlf @ body"
    using arg_cong[OF head_text[of ?line hs], of "\<lambda>s. s @ body"] assms(8) by simp
  have "\<forall>k \<in> set (map header_line hs). CR \<notin> set k \<and> k \<noteq> []" using header_line_facts(1,2) ok by auto
  from find_head_end[OF line(1) this, of body]
  have e: "find_sub (crlf @ crlf) (?t @ crlf @ crlf @ body) = Some (length ?t)" by (simp only: append_assoc)
  have s: "split_crlf ?t = ?line # map header_line hs"
    using head_lines[OF ok, of ?line] split_crlf_line[OF line(1)] by simp
  have v': "validate_request_line ?line = Ok (m, path, ''HTTP/1.1'')"
    using words assms(1,2) safe(3) by (simp add: validate_request_line_def)
  have h: "parse_header_lines (max_header_count limits) [] (map header_line hs) = Ok hs"
    "validate_http11_host_authority hs = Ok ()"
    using parse_printed_lines[OF assms(4), of "[]"] assms(5,6,11) by (simp_all add: validate_http11_host_authority_def)
  have "parse_http_request (T @ crlf @ crlf @ body) limits = ?result"
    if "find_sub (crlf @ crlf) (T @ crlf @ crlf @ body) = Some (length T)" "split_crlf T = L # map header_line hs"
      "validate_request_line L = Ok (m, path, ''HTTP/1.1'')" "utf8_valid T"
      "length T \<le> max_header_bytes limits" "length L \<le> max_request_line_bytes limits" for T L
    using that h assms(7,12) by (simp add: parse_http_request_def)
  from this[OF e s v' head_utf8[OF line(2) ok]] show ?thesis
    using assms(9,10) t arg_cong[OF t, of length] by simp
qed

section \<open>A forwarded request\<close>

lemma build_selected_Ok:
  "build_selected_upstream_request_with_keep_alive mem r e tls client_ip scheme original_host preserve keep_alive = Ok wire \<Longrightarrow>
    wire = request_wire r (join_path e (req_path r))
      (projected_headers r client_ip scheme original_host preserve (tls_host_override tls)) (\<not> preserve \<and> \<not> keep_alive)"
  unfolding build_selected_eq Let_def by (simp add: resource_allocation_io_error_def split: if_splits)

lemma parse_header_lines_step:
  "parse_header_lines limit acc (line # lines) = Ok hs \<Longrightarrow>
    \<exists>name val. split_once CHR '':'' line = Some (name, val) \<and>
      parse_header_lines limit (acc @ [\<lparr>hdr_name = trim name, hdr_value = trim val\<rparr>]) lines = Ok hs"
  by (cases "split_once CHR '':'' line") (simp_all add: validate_header_value_def split: if_splits prod.splits)

lemma parsed_headers_utf8:
  "parse_header_lines limit acc lines = Ok hs \<Longrightarrow> \<forall>l \<in> set lines. utf8_valid l \<Longrightarrow>
    \<forall>h \<in> set acc. utf8_valid (hdr_value h) \<Longrightarrow> \<forall>h \<in> set hs. utf8_valid (hdr_value h)"
proof (induction lines arbitrary: acc)
  case (Cons line lines)
  obtain name val where nv: "split_once CHR '':'' line = Some (name, val)"
      "parse_header_lines limit (acc @ [\<lparr>hdr_name = trim name, hdr_value = trim val\<rparr>]) lines = Ok hs"
    using parse_header_lines_step[OF Cons.prems(1)] by blast
  have "utf8_valid line" using Cons.prems(2) by simp
  then have "utf8_valid (name @ CHR '':'' # val)" using split_once_SomeD[OF nv(1)] by metis
  then have "utf8_valid (trim val)" using utf8_valid_ascii_split[of name "CHR '':''" val] utf8_valid_trim by simp
  then show ?case using Cons.IH[OF nv(2)] Cons.prems(2,3) by simp
qed simp

lemma parsed_request:
  assumes "parse_http_request input limits = Ok r"
  shows "is_http_token (req_method r)" "\<not> eq_ignore_ascii_case (req_method r) ''CONNECT''"
    "req_version r = ''HTTP/1.1''" "\<forall>h \<in> set (req_headers r). header_stable h"
    "\<exists>host. host_values (req_headers r) = [host] \<and> host \<noteq> []"
    "expected_request_body_len_from_headers (req_headers r) = Ok (length (req_body r))"
proof -
  obtain k where k: "find_sub (crlf @ crlf) input = Some k"
    using assms by (auto simp: parse_http_request_def split: option.splits)
  obtain line lines where ls: "split_crlf (take k input) = line # lines"
    using split_crlf_nonempty[of "take k input"] by (cases "split_crlf (take k input)") auto
  obtain m p v hs n where step: "utf8_valid (take k input)" "validate_request_line line = Ok (m, p, v)"
      "parse_header_lines (max_header_count limits) [] lines = Ok hs"
      "validate_http11_host_authority hs = Ok ()" "expected_request_body_len_from_headers hs = Ok n"
      "length (drop (k + 4) input) = n"
    and r: "r = \<lparr>req_method = m, req_path = p, req_version = v, req_headers = hs, req_body = drop (k + 4) input\<rparr>"
    using assms k ls by (auto simp: parse_http_request_def Let_def rbind_Ok_iff split: if_splits)
  note q = validate_request_line_Ok[OF step(2)]
  show "is_http_token (req_method r)" "\<not> eq_ignore_ascii_case (req_method r) ''CONNECT''"
    "req_version r = ''HTTP/1.1''" using q by (simp_all add: r)
  have "\<forall>l \<in> set lines. utf8_valid l" using utf8_split_crlf[OF step(1)] ls by simp
  then have "\<forall>h \<in> set hs. utf8_valid (hdr_value h)" using parsed_headers_utf8[OF step(3)] by simp
  then show "\<forall>h \<in> set (req_headers r). header_stable h"
    using parse_header_lines_Ok[OF step(3)] by (auto simp: r list_all_iff header_stable_def header_ok_def)
  show "\<exists>host. host_values (req_headers r) = [host] \<and> host \<noteq> []"
    using step(4) by (auto simp: r validate_http11_host_authority_def split: list.splits if_splits)
  show "expected_request_body_len_from_headers (req_headers r) = Ok (length (req_body r))"
    using step(5,6) by (simp add: r)
qed

text \<open>Which headers matter for the host and for the body length.\<close>

abbreviation named :: "string \<Rightarrow> Header \<Rightarrow> bool" where
  "named n h \<equiv> to_ascii_lowercase (hdr_name h) = n"

lemma body_len_loop_filter:
  "\<not> has_transfer_encoding hs \<Longrightarrow> body_len_loop cl False hs = body_len_loop cl False (filter (named ''content-length'') hs)"
proof (induction hs arbitrary: cl)
  case (Cons h hs)
  then have te: "\<not> has_transfer_encoding hs"
      "(eq_ignore_ascii_case (hdr_name h) ''Transfer-Encoding'' \<and> trim (hdr_value h) \<noteq> []) = False"
    by (auto simp: has_transfer_encoding_def)
  have cl: "eq_ignore_ascii_case (hdr_name h) ''Content-Length'' = named ''content-length'' h"
    by (simp only: eq_ignore_ascii_case_def framing_names)
  show ?case
    using Cons.IH[OF te(1)] by (cases "named ''content-length'' h"; simp only: body_len_loop.simps te(2) cl Let_def
        if_True if_False filter.simps simp_thms)
qed simp

lemma expected_len_filter:
  assumes "\<not> has_transfer_encoding hs" "\<not> has_transfer_encoding hs'"
    "filter (named ''content-length'') hs' = filter (named ''content-length'') hs"
  shows "expected_request_body_len_from_headers hs' = expected_request_body_len_from_headers hs"
  using body_len_loop_filter[OF assms(1)] body_len_loop_filter[OF assms(2)] assms(3)
  by (simp add: expected_request_body_len_from_headers_def)

lemma host_values_filter: "host_values hs = map (\<lambda>h. trim (hdr_value h)) (filter (named ''host'') hs)"
  by (simp add: host_values_def eq_ignore_ascii_case_def framing_names)

lemma set_first_host_other:
  "n \<noteq> ''host'' \<Longrightarrow> filter (named n) (set_first_host x hs) = filter (named n) hs"
  by (induction hs) (simp_all add: eq_ignore_ascii_case_def framing_names)

lemma set_first_host_host:
  "filter (named ''host'') hs = [h] \<Longrightarrow> filter (named ''host'') (set_first_host x hs) = [h\<lparr>hdr_value := x\<rparr>]"
  by (induction hs) (auto simp: eq_ignore_ascii_case_def framing_names split: if_splits)

lemma set_first_host_in:
  "h \<in> set (set_first_host x hs) \<Longrightarrow> \<exists>g \<in> set hs. h = g \<or> h = g\<lparr>hdr_value := x\<rparr>"
  by (induction hs) (auto split: if_splits)

lemma set_first_host_length [simp]: "length (set_first_host x hs) = length hs"
  by (induction hs) simp_all

lemma stable_value: "header_stable g \<Longrightarrow> header_safe x \<Longrightarrow> header_stable (g\<lparr>hdr_value := x\<rparr>)"
  using header_safe_facts[of x] header_safe_trim[of x] by (simp add: header_stable_def header_ok_def)

lemma forwarded_headers_stable:
  assumes "header_safe client_ip" "header_safe scheme" "header_safe original_host"
  shows "\<forall>h \<in> set (forwarded_headers client_ip scheme original_host). header_stable h"
proof -
  have "is_http_token ''X-Forwarded-For''" "is_http_token ''X-Forwarded-Proto''" "is_http_token ''X-Forwarded-Host''"
    by code_simp+
  then show ?thesis using assms header_safe_facts header_safe_trim
    by (simp add: forwarded_headers_def header_stable_def header_ok_def)
qed

lemma forwarded_headers_other:
  assumes "n \<in> {''content-length'', ''host'', ''transfer-encoding''}"
  shows "filter (named n) (forwarded_headers client_ip scheme original_host) = []"
    "\<not> named n close_header"
proof -
  have l: "list_all (\<lambda>n. to_ascii_lowercase ''X-Forwarded-For'' \<noteq> n \<and> to_ascii_lowercase ''X-Forwarded-Proto'' \<noteq> n \<and>
      to_ascii_lowercase ''X-Forwarded-Host'' \<noteq> n \<and> to_ascii_lowercase ''Connection'' \<noteq> n)
      [''content-length'', ''host'', ''transfer-encoding'']" by code_simp
  have "n \<in> set [''content-length'', ''host'', ''transfer-encoding'']" using assms by (simp only: list.set)
  note n = bspec[OF l[unfolded list_all_iff] this]
  show "filter (named n) (forwarded_headers client_ip scheme original_host) = []" "\<not> named n close_header"
    using n by (simp_all only: forwarded_headers_def filter.simps if_False Header.simps simp_thms)
qed

lemma retained_filter:
  assumes "n \<in> {''content-length'', ''host''}" "n \<notin> set tokens"
  shows "filter (named n) (filter (\<lambda>h. \<not> is_forwarded_name (to_ascii_lowercase (hdr_name h)))
      (filter (end_to_end tokens) hs)) = filter (named n) hs"
proof -
  have l: "list_all (\<lambda>n. \<not> is_hop_by_hop_header_name n \<and> \<not> is_forwarded_name n) [''content-length'', ''host'']"
    by code_simp
  have "n \<in> set [''content-length'', ''host'']" using assms(1) by (simp only: list.set)
  note n = bspec[OF l[unfolded list_all_iff] this]
  then show ?thesis using assms(2) by (induction hs) (auto simp: end_to_end_def Let_def)
qed

lemma forwarded_message:
  fixes close :: bool
  assumes "parse_http_request input limits = Ok r"
    "''content-length'' \<notin> set (connection_header_tokens (req_headers r))"
    "''host'' \<notin> set (connection_header_tokens (req_headers r))"
    "header_safe client_ip" "header_safe scheme" "header_safe original_host"
    "\<forall>x \<in> set_option override. header_safe x"
  defines "hs \<equiv> projected_headers r client_ip scheme original_host False override @
      (if close then [close_header] else [])"
  shows "\<forall>h \<in> set hs. header_stable h" "expected_request_body_len_from_headers hs = Ok (length (req_body r))"
    "\<exists>host. host_values hs = [host] \<and> host \<noteq> [] \<and>
      (case override of None \<Rightarrow> host_values (req_headers r) = [host] | Some x \<Rightarrow> host = x)"
    "length hs \<le> length (req_headers r) + 4"
proof -
  let ?tok = "connection_header_tokens (req_headers r)"
  let ?kept = "filter (\<lambda>h. \<not> is_forwarded_name (to_ascii_lowercase (hdr_name h)))
      (filter (end_to_end ?tok) (req_headers r))"
  define base where "base = ?kept @ forwarded_headers client_ip scheme original_host"
  have hs: "hs = (case override of None \<Rightarrow> base | Some x \<Rightarrow> set_first_host x base) @ (if close then [close_header] else [])"
    by (simp add: hs_def projected_headers_def upstream_request_headers_def remove_hop_by_hop_headers_def base_def
        Let_def split: option.splits)
  note r = parsed_request[OF assms(1)]
  have "\<forall>h \<in> set base. header_stable h"
    using r(4) forwarded_headers_stable[OF assms(4-6)] by (auto simp: base_def)
  moreover have "header_stable close_header" using close_header_ok(1) by (simp add: header_stable_def) code_simp
  ultimately show "\<forall>h \<in> set hs. header_stable h"
    using stable_value set_first_host_in assms(7) by (auto simp: hs split: option.splits) blast+
  have base: "filter (named n) base = filter (named n) (req_headers r)"
    if "n \<in> {''content-length'', ''host''}" for n
    using retained_filter[OF that, of ?tok "req_headers r"] forwarded_headers_other(1)[of n client_ip scheme original_host]
      assms(2,3) that by (auto simp: base_def)
  have "length ?kept \<le> length (req_headers r)"
    by (rule order_trans[OF length_filter_le length_filter_le])
  then have "length base \<le> length (req_headers r) + 3" by (simp add: base_def forwarded_headers_def)
  then show "length hs \<le> length (req_headers r) + 4" by (auto simp: hs split: option.splits)
  have te: "\<not> has_transfer_encoding hs"
  proof -
    have "is_hop_by_hop_header_name ''transfer-encoding''" by code_simp
    then have "filter (named ''transfer-encoding'') base = []"
      using forwarded_headers_other(1)[of "''transfer-encoding''" client_ip scheme original_host]
      by (auto simp: base_def filter_empty_conv end_to_end_def Let_def)
    then have "filter (named ''transfer-encoding'') hs = []"
      using set_first_host_other[of "''transfer-encoding''" _ base] forwarded_headers_other(2)[of "''transfer-encoding''"]
      by (auto simp: hs split: option.splits)
    then show ?thesis
      by (auto simp: has_transfer_encoding_def list_ex_iff filter_empty_conv eq_ignore_ascii_case_def framing_names)
  qed
  have "filter (named ''content-length'') hs = filter (named ''content-length'') (req_headers r)"
    using set_first_host_other[of "''content-length''" _ base] forwarded_headers_other(2)[of "''content-length''"]
      base[of "''content-length''"] by (auto simp: hs split: option.splits)
  from expected_len_filter[OF _ te this] show "expected_request_body_len_from_headers hs = Ok (length (req_body r))"
    using expected_body_len_Ok[OF r(6)] r(6) by simp
  obtain h where h: "filter (named ''host'') (req_headers r) = [h]" "trim (hdr_value h) \<noteq> []"
    using r(5) by (auto simp: host_values_filter)
  have c: "\<not> named ''host'' close_header" using forwarded_headers_other(2)[of "''host''"] by simp
  have b: "filter (named ''host'') base = [h]" using base[of "''host''"] h(1) by simp
  show "\<exists>host. host_values hs = [host] \<and> host \<noteq> [] \<and>
      (case override of None \<Rightarrow> host_values (req_headers r) = [host] | Some x \<Rightarrow> host = x)"
  proof (cases override)
    case None
    then show ?thesis using b c h by (simp add: hs host_values_filter)
  next
    case (Some x)
    then have "trim x = x" "x \<noteq> []" using assms(7) header_safe_trim by (auto simp: header_safe_def)
    then show ?thesis using set_first_host_host[OF b, of x] c Some by (simp add: hs host_values_filter)
  qed
qed


definition sample_parsed_request :: HttpRequest where
  "sample_parsed_request =
    \<lparr>req_method = ''POST'', req_path = ''/a'', req_version = ''HTTP/1.1'',
     req_headers = [\<lparr>hdr_name = ''Host'', hdr_value = ''x''\<rparr>,
       \<lparr>hdr_name = ''Content-Length'', hdr_value = ''2''\<rparr>], req_body = ''hi''\<rparr>"

definition sample_wire :: string where
  "sample_wire = request_wire sample_parsed_request ''/a''
    (projected_headers sample_parsed_request ''10.0.0.9'' ''http'' ''x'' False None) True"


end
