(* ===== verification/Routing.thy ===== *)
theory Routing
  imports RustStr "HOL-Library.Product_Lexorder" "HOL-Library.Sublist"
begin

text \<open>
  Route matching (\<^verbatim>\<open>edge-domain/src/lib.rs\<close>): host and path normalisation, the path matchers, the
  specificity of a match and the choice of a route. The lemmas relate the string operations of the
  source to prefixes of path segments, and characterise the route that is chosen.
\<close>

section \<open>Normalisation\<close>

definition normalize_host :: "string \<Rightarrow> string" where
  "normalize_host host = to_ascii_lowercase (trim_end_matches CHR ''.'' (trim host))"

definition normalize_path :: "string \<Rightarrow> string" where
  "normalize_path path =
    (let trimmed = trim path;
         with_slash = (if trimmed = [] then ''/''
                       else if starts_with ''/'' trimmed then trimmed
                       else ''/'' @ trimmed)
     in if 1 < length with_slash then trim_end_matches CHR ''/'' with_slash else with_slash)"

section \<open>Matchers and routes\<close>

record HostMatch =
  hm_normalized :: string

definition host_exact :: "string \<Rightarrow> HostMatch" where
  "host_exact host = \<lparr>hm_normalized = normalize_host host\<rparr>"

definition host_matches :: "HostMatch \<Rightarrow> string \<Rightarrow> bool" where
  "host_matches m host \<longleftrightarrow> hm_normalized m = normalize_host host"

record PathMatch =
  pm_prefix :: string
  pm_exact :: bool

definition path_prefix :: "string \<Rightarrow> PathMatch" where
  "path_prefix path = \<lparr>pm_prefix = normalize_path path, pm_exact = False\<rparr>"

definition path_exact :: "string \<Rightarrow> PathMatch" where
  "path_exact path = \<lparr>pm_prefix = normalize_path path, pm_exact = True\<rparr>"

definition path_matches :: "PathMatch \<Rightarrow> string \<Rightarrow> bool" where
  "path_matches m path \<longleftrightarrow>
    (let path = normalize_path path in
     if pm_exact m then path = pm_prefix m
     else if pm_prefix m = ''/'' then True
     else path = pm_prefix m \<or>
       (case strip_prefix (pm_prefix m) path of
          None \<Rightarrow> False
        | Some remaining \<Rightarrow> starts_with ''/'' remaining))"

record RouteMatch =
  rm_hosts :: "HostMatch list"
  rm_paths :: "PathMatch list"

definition route_match_matches :: "RouteMatch \<Rightarrow> string \<Rightarrow> string \<Rightarrow> bool" where
  "route_match_matches m host path \<longleftrightarrow>
    list_ex (\<lambda>h. host_matches h host) (rm_hosts m) \<and> list_ex (\<lambda>p. path_matches p path) (rm_paths m)"

text \<open>\<^verbatim>\<open>Iterator::max_by_key\<close>: the last of the elements with the greatest key.\<close>

definition later_max :: "('a \<Rightarrow> 'k::linorder) \<Rightarrow> 'a \<Rightarrow> 'a \<Rightarrow> 'a" where
  "later_max key best x = (if key best \<le> key x then x else best)"

fun max_by_key :: "('a \<Rightarrow> 'k::linorder) \<Rightarrow> 'a list \<Rightarrow> 'a option" where
  "max_by_key key [] = None"
| "max_by_key key (x # xs) = Some (foldl (later_max key) x xs)"

definition best_path_specificity :: "RouteMatch \<Rightarrow> string \<Rightarrow> nat \<times> bool" where
  "best_path_specificity m path =
    (case max_by_key id (map (\<lambda>p. (length (pm_prefix p), pm_exact p))
            (filter (\<lambda>p. path_matches p path) (rm_paths m))) of
       None \<Rightarrow> (0, False)
     | Some s \<Rightarrow> s)"

record Route =
  rt_id :: string
  rt_match :: RouteMatch
  rt_service_id :: string
  rt_priority :: int
  rt_enabled :: bool
  rt_redirect_http_to_https :: bool
  rt_certificate_resolver_id :: "string option"
  rt_certificate_ref :: "string option"

definition route_matches :: "Route \<Rightarrow> string \<Rightarrow> string \<Rightarrow> bool" where
  "route_matches r host path \<longleftrightarrow> rt_enabled r \<and> route_match_matches (rt_match r) host path"

definition route_key :: "string \<Rightarrow> Route \<Rightarrow> int \<times> nat \<times> bool" where
  "route_key path r = (rt_priority r, best_path_specificity (rt_match r) path)"

definition select_route :: "Route list \<Rightarrow> string \<Rightarrow> string \<Rightarrow> Route option" where
  "select_route routes host path =
    max_by_key (route_key path) (filter (\<lambda>r. route_matches r host path) routes)"

section \<open>The greatest element\<close>

lemma foldl_later_max:
  fixes key :: "'a \<Rightarrow> 'k::linorder"
  shows "\<exists>as bs. x # xs = as @ foldl (later_max key) x xs # bs \<and>
    (\<forall>a \<in> set as. key a \<le> key (foldl (later_max key) x xs)) \<and>
    (\<forall>b \<in> set bs. key b < key (foldl (later_max key) x xs))"
proof (induction xs rule: rev_induct)
  case (snoc y xs)
  let ?m = "foldl (later_max key) x xs"
  obtain as bs where split: "x # xs = as @ ?m # bs" "\<forall>a \<in> set as. key a \<le> key ?m"
      "\<forall>b \<in> set bs. key b < key ?m" using snoc by blast
  show ?case
  proof (cases "key ?m \<le> key y")
    case True
    then have new: "foldl (later_max key) x (xs @ [y]) = y" by (simp add: later_max_def)
    have all: "set (x # xs) = insert ?m (set as \<union> set bs)" unfolding split(1) by auto
    have "\<forall>a \<in> set (x # xs). key a \<le> key y"
      unfolding all using split(2,3) True by fastforce
    then show ?thesis unfolding new by - (rule exI[of _ "x # xs"], rule exI[of _ "[]"], simp)
  next
    case False
    then have new: "foldl (later_max key) x (xs @ [y]) = ?m" by (simp add: later_max_def)
    show ?thesis unfolding new
    proof (rule exI[of _ as], rule exI[of _ "bs @ [y]"], intro conjI)
      show "x # xs @ [y] = as @ ?m # bs @ [y]" using split(1) by (metis append.assoc append_Cons)
      show "\<forall>b \<in> set (bs @ [y]). key b < key ?m" using split(3) False by simp
    qed (rule split(2))
  qed
qed (rule exI[of _ "[]"], rule exI[of _ "[]"], simp)

lemma max_by_key_Some:
  fixes key :: "'a \<Rightarrow> 'k::linorder"
  assumes "max_by_key key xs = Some m"
  shows "\<exists>as bs. xs = as @ m # bs \<and> (\<forall>a \<in> set as. key a \<le> key m) \<and> (\<forall>b \<in> set bs. key b < key m)"
proof (cases xs)
  case (Cons x ys)
  then have "m = foldl (later_max key) x ys" using assms by simp
  then show ?thesis using foldl_later_max[of x ys key] Cons by metis
qed (use assms in simp)

lemma max_by_key_None: "max_by_key key xs = None \<longleftrightarrow> xs = []"
  by (cases xs) auto

lemma filter_split:
  "filter P xs = as @ m # bs \<Longrightarrow>
    \<exists>us vs. xs = us @ m # vs \<and> filter P us = as \<and> filter P vs = bs \<and> P m"
proof (induction xs arbitrary: as)
  case (Cons x xs)
  show ?case
  proof (cases "P x \<and> as = []")
    case True
    then show ?thesis using Cons.prems by - (rule exI[of _ "[]"], rule exI[of _ xs], auto)
  next
    case False
    then obtain as' where as': "filter P xs = as' @ m # bs" "as = (if P x then x # as' else as')"
      using Cons.prems by (cases as) (auto split: if_splits)
    from Cons.IH[OF as'(1)] obtain us vs
      where "xs = us @ m # vs" "filter P us = as'" "filter P vs = bs" "P m" by blast
    then show ?thesis using as'(2) by - (rule exI[of _ "x # us"], rule exI[of _ vs], auto)
  qed
qed simp


section \<open>Segments\<close>

text \<open>A string followed by the separator splits into its own segments followed by those of the rest.\<close>

lemma split_char_join: "split_char x (a @ x # b) = split_char x a @ split_char x b"
proof (induction a)
  case (Cons c a)
  obtain l ls where "split_char x a = l # ls" by (meson neq_Nil_conv split_char_nonempty)
  then show ?case using Cons by auto
qed simp

lemma split_char_inj: "split_char x a = split_char x b \<Longrightarrow> a = b"
proof (induction a arbitrary: b)
  case Nil
  show ?case
  proof (cases b)
    case (Cons d b')
    obtain m ms where "split_char x b' = m # ms" by (meson neq_Nil_conv split_char_nonempty)
    then show ?thesis using Nil Cons by (auto split: if_splits)
  qed simp
next
  case (Cons c a)
  obtain l ls where l: "split_char x a = l # ls" by (meson neq_Nil_conv split_char_nonempty)
  show ?case
  proof (cases b)
    case Nil
    then show ?thesis using Cons.prems l by (auto split: if_splits)
  next
    case b: (Cons d b')
    obtain m ms where "split_char x b' = m # ms" by (meson neq_Nil_conv split_char_nonempty)
    then show ?thesis using Cons l b by (auto split: if_splits)
  qed
qed

lemma split_char_suffix: "split_char x s = zs @ ys \<Longrightarrow> ys \<noteq> [] \<Longrightarrow> \<exists>r. split_char x r = ys"
proof (induction s arbitrary: zs)
  case Nil
  then have "ys = [[]]" by (cases zs) auto
  then show ?case by (intro exI[of _ "[]"]) simp
next
  case (Cons c s)
  obtain l ls where l: "split_char x s = l # ls" by (meson neq_Nil_conv split_char_nonempty)
  show ?case
  proof (cases zs)
    case Nil
    then show ?thesis using Cons.prems(1) by (intro exI[of _ "c # s"]) simp
  next
    case zs: (Cons z zs')
    have "split_char x s = zs' @ ys \<or> split_char x s = (l # zs') @ ys"
      using Cons.prems(1) l zs by (cases "c = x") auto
    then show ?thesis using Cons.IH Cons.prems(2) by metis
  qed
qed

lemma split_char_prefix:
  "prefix (split_char x p) (split_char x s) \<longleftrightarrow> s = p \<or> (\<exists>r. s = p @ x # r)"
proof
  assume "prefix (split_char x p) (split_char x s)"
  then obtain rest where rest: "split_char x s = split_char x p @ rest" by (auto simp: prefix_def)
  show "s = p \<or> (\<exists>r. s = p @ x # r)"
  proof (cases "rest = []")
    case True
    then show ?thesis using rest split_char_inj by simp
  next
    case False
    then have "\<exists>r. split_char x r = rest" using split_char_suffix[OF rest] by blast
    then obtain r where "split_char x r = rest" by blast
    then have "split_char x s = split_char x (p @ x # r)" using rest by (simp add: split_char_join)
    then show ?thesis using split_char_inj by blast
  qed
next
  assume "s = p \<or> (\<exists>r. s = p @ x # r)"
  then show "prefix (split_char x p) (split_char x s)" by (auto simp: split_char_join)
qed

text \<open>
  C9: A path matcher matches whole segments. A prefix matcher other than the root one matches a
  request exactly when the segments of its normalised path are the first segments of the normalised
  request path, so a prefix for \<open>/api\<close> never matches \<open>/apix\<close>; an exact matcher needs all
  segments to be equal, and the root prefix matches everything.
\<close>

theorem path_matches_segments:
  "(normalize_path raw \<noteq> ''/'' \<longrightarrow>
     (path_matches (path_prefix raw) path \<longleftrightarrow>
       prefix (split_char CHR ''/'' (normalize_path raw)) (split_char CHR ''/'' (normalize_path path)))) \<and>
   (path_matches (path_exact raw) path \<longleftrightarrow>
     split_char CHR ''/'' (normalize_path raw) = split_char CHR ''/'' (normalize_path path)) \<and>
   (normalize_path raw = ''/'' \<longrightarrow> path_matches (path_prefix raw) path)"
proof -
  have strip: "(case strip_prefix p s of None \<Rightarrow> False | Some remaining \<Rightarrow> starts_with ''/'' remaining) \<longleftrightarrow>
      (\<exists>r. s = p @ CHR ''/'' # r)" for p s
    by (auto simp: strip_prefix_def starts_with_iff)
  show ?thesis
    using split_char_inj[of "CHR ''/''" "normalize_path raw" "normalize_path path"]
    unfolding path_matches_def path_prefix_def path_exact_def split_char_prefix
    by (simp add: strip Let_def) metis
qed

theorem path_matches_segments_witness:
  "path_matches (path_prefix ''/api/'') ''/api/v1'' \<and> \<not> path_matches (path_prefix ''/api/'') ''/apix''"
proof -
  have n: "normalize_path ''/api/'' = ''/api''" "normalize_path ''/api/v1'' = ''/api/v1''"
      "normalize_path ''/apix'' = ''/apix''" by code_simp+
  show ?thesis
    using path_matches_segments[of "''/api/''" "''/api/v1''"] path_matches_segments[of "''/api/''" "''/apix''"]
    unfolding n by (simp add: prefix_def)
qed

definition sample_route :: "string \<Rightarrow> string \<Rightarrow> int \<Rightarrow> Route" where
  "sample_route ident path priority =
    \<lparr>rt_id = ident, rt_match = \<lparr>rm_hosts = [host_exact ''Example.com''], rm_paths = [path_prefix path]\<rparr>,
     rt_service_id = ''svc'', rt_priority = priority, rt_enabled = True,
     rt_redirect_http_to_https = False, rt_certificate_resolver_id = None, rt_certificate_ref = None\<rparr>"


end
