(* ===== verification/Upstreams.thy ===== *)
theory Upstreams
  imports Endpoint Routing
begin

text \<open>
  Services and their upstreams (\<^verbatim>\<open>edge-domain/src/lib.rs\<close>): the policies of a service, the active
  and the passive health machine of an upstream, effective eligibility, round-robin selection, the
  retry decision, and the configuration snapshot that holds them. The lemmas show after which
  observations an upstream changes its availability, how long an ejection lasts, and that selection
  is fair.
\<close>

section \<open>Policies\<close>

record HttpHealthCheckPolicy =
  hp_path :: string
  hp_interval_ms :: nat
  hp_timeout_ms :: nat
  hp_healthy_threshold :: nat
  hp_unhealthy_threshold :: nat
  hp_status_min :: nat
  hp_status_max :: nat

definition http_health_check_new ::
  "string \<Rightarrow> nat \<Rightarrow> nat \<Rightarrow> nat \<Rightarrow> nat \<Rightarrow> nat \<Rightarrow> nat \<Rightarrow> HttpHealthCheckPolicy valid" where
  "http_health_check_new path interval timeout healthy unhealthy smin smax =
    (if path = [] \<or> 2048 < length path \<or> \<not> starts_with ''/'' path \<or> contains_any ''?#'' path \<or>
        contains_control path
     then validation_error ConfigHealthCheckInvalidPath
       ''health-check path must be a bounded absolute path without query or fragment''
     else if \<not> (1000 \<le> interval \<and> interval \<le> 86400000) \<or> \<not> (100 \<le> timeout \<and> timeout \<le> 30000) \<or>
        interval \<le> timeout
     then validation_error ConfigHealthCheckInvalidInterval
       ''health-check timeout and interval are outside the supported bounds''
     else if \<not> (1 \<le> healthy \<and> healthy \<le> 10) \<or> \<not> (1 \<le> unhealthy \<and> unhealthy \<le> 10)
     then validation_error ConfigHealthCheckInvalidThreshold
       ''health-check thresholds must be between 1 and 10''
     else if \<not> (100 \<le> smin \<and> smin \<le> 599) \<or> \<not> (100 \<le> smax \<and> smax \<le> 599) \<or> smax < smin
     then validation_error ConfigHealthCheckInvalidStatusRange
       ''health-check status range must be ordered within 100 through 599''
     else Ok \<lparr>hp_path = path, hp_interval_ms = interval, hp_timeout_ms = timeout,
       hp_healthy_threshold = healthy, hp_unhealthy_threshold = unhealthy,
       hp_status_min = smin, hp_status_max = smax\<rparr>)"

datatype HealthCheckPolicy = HealthCheckDisabled | HttpCheck HttpHealthCheckPolicy

datatype LoadBalancingPolicy = RoundRobin

record RetryPolicy =
  retry_enabled :: bool
  max_retries :: nat
  max_replay_bytes :: nat

definition retry_policy_new :: "bool \<Rightarrow> nat \<Rightarrow> nat \<Rightarrow> RetryPolicy valid" where
  "retry_policy_new enabled retries replay =
    (if 1 < retries \<or> (enabled \<and> retries \<noteq> 1) \<or> \<not> (1024 \<le> replay \<and> replay \<le> 65536)
     then validation_error ConfigRetryPolicyInvalid ''retry policy is outside supported bounds''
     else Ok \<lparr>retry_enabled = enabled, max_retries = retries, max_replay_bytes = replay\<rparr>)"

record PassiveHealthPolicy =
  failure_threshold :: nat
  ejection_ms :: nat

definition passive_health_policy_new :: "nat \<Rightarrow> nat \<Rightarrow> PassiveHealthPolicy valid" where
  "passive_health_policy_new threshold ejection =
    (if \<not> (1 \<le> threshold \<and> threshold \<le> 10) \<or> \<not> (1000 \<le> ejection \<and> ejection \<le> 86400000)
     then validation_error ConfigPassiveHealthPolicyInvalid ''passive health policy is outside supported bounds''
     else Ok \<lparr>failure_threshold = threshold, ejection_ms = ejection\<rparr>)"

datatype PassiveHealthMode = PassiveDisabled | PassiveEnabled PassiveHealthPolicy

record ServicePolicy =
  sp_load_balancing :: LoadBalancingPolicy
  sp_health_check :: HealthCheckPolicy
  sp_retry :: RetryPolicy
  sp_passive_health :: PassiveHealthMode

definition default_service_policy :: ServicePolicy where
  "default_service_policy = \<lparr>sp_load_balancing = RoundRobin, sp_health_check = HealthCheckDisabled,
     sp_retry = \<lparr>retry_enabled = False, max_retries = 1, max_replay_bytes = 32768\<rparr>,
     sp_passive_health = PassiveDisabled\<rparr>"

section \<open>Services and the configuration snapshot\<close>

datatype UpstreamAdministrativeState = Active | Draining

record Upstream =
  up_id :: string
  up_url :: string
  up_administrative_state :: UpstreamAdministrativeState
  up_tls :: UpstreamTlsPolicy

record Service =
  svc_id :: string
  svc_upstreams :: "Upstream list"
  svc_policy :: ServicePolicy

record Listener =
  ls_id :: string
  ls_bind :: string
  ls_protocol :: ListenerProtocol
  ls_client_auth :: ClientAuthPolicy

datatype AcmeChallenge = Http01 | Dns01

record CertificateResolver =
  cr_id :: string
  cr_email :: string
  cr_challenge :: AcmeChallenge
  cr_production_enabled :: bool

datatype LogMode = Product | FieldDebug | Dev

record AdminConfig =
  ac_bind :: string
  ac_auth_required :: bool

record MetricsConfig =
  mc_enabled :: bool
  mc_bind :: string

record RuntimeOptions =
  ro_max_connections :: nat
  ro_max_inflight_payload_bytes :: nat
  ro_max_request_header_bytes :: nat
  ro_max_request_body_bytes :: nat
  ro_upstream_read_timeout_ms :: nat
  ro_metrics :: MetricsConfig

record ConfigSnapshot =
  cs_schema_version :: nat
  cs_revision_id :: string
  cs_admin :: AdminConfig
  cs_listeners :: "Listener list"
  cs_routes :: "Route list"
  cs_services :: "Service list"
  cs_certificate_resolvers :: "CertificateResolver list"
  cs_log_mode :: LogMode
  cs_runtime :: RuntimeOptions

definition snapshot_select_route :: "ConfigSnapshot \<Rightarrow> string \<Rightarrow> string \<Rightarrow> Route option" where
  "snapshot_select_route s host path = select_route (cs_routes s) host path"

definition find_service :: "ConfigSnapshot \<Rightarrow> string \<Rightarrow> Service option" where
  "find_service s ident = find (\<lambda>svc. svc_id svc = ident) (cs_services s)"

definition primary_upstream :: "Service \<Rightarrow> Upstream option" where
  "primary_upstream svc = (case svc_upstreams svc of [] \<Rightarrow> None | u # _ \<Rightarrow> Some u)"

definition primary_upstream_for_service :: "ConfigSnapshot \<Rightarrow> string \<Rightarrow> Upstream option" where
  "primary_upstream_for_service s ident = Option.bind (find_service s ident) primary_upstream"

text \<open>The key of an upstream across services, \<^verbatim>\<open>UpstreamHealthKey\<close>: service id and upstream id.\<close>

type_synonym UpstreamHealthKey = "string \<times> string"

section \<open>Active health\<close>

datatype UpstreamAvailability = AvailDisabled | AvailUnknown | AvailHealthy | AvailUnhealthy

definition is_eligible :: "UpstreamAvailability \<Rightarrow> bool" where
  "is_eligible a \<longleftrightarrow> a \<noteq> AvailUnhealthy"

datatype UpstreamHealthState =
    HealthDisabled
  | Unknown (unknown_successes: nat) (unknown_failures: nat)
  | Healthy (healthy_failures: nat)
  | Unhealthy (unhealthy_successes: nat)

definition for_policy :: "HealthCheckPolicy \<Rightarrow> UpstreamHealthState" where
  "for_policy p = (case p of HealthCheckDisabled \<Rightarrow> HealthDisabled | HttpCheck _ \<Rightarrow> Unknown 0 0)"

definition availability_of :: "UpstreamHealthState \<Rightarrow> UpstreamAvailability" where
  "availability_of s =
    (case s of
       HealthDisabled \<Rightarrow> AvailDisabled
     | Unknown _ _ \<Rightarrow> AvailUnknown
     | Healthy _ \<Rightarrow> AvailHealthy
     | Unhealthy _ \<Rightarrow> AvailUnhealthy)"

datatype HealthObservation = ObsSucceeded | ObsFailed

record HealthStateChange =
  change_from :: UpstreamAvailability
  change_to :: UpstreamAvailability

record HealthTransitionResult =
  tr_state :: UpstreamHealthState
  tr_change :: "HealthStateChange option"

text \<open>\<^verbatim>\<open>saturating_add(1)\<close> of an unsigned type with largest value \<open>hi\<close>.\<close>

definition sat_inc :: "nat \<Rightarrow> nat \<Rightarrow> nat" where
  "sat_inc hi n = min (n + 1) hi"

abbreviation u32_max :: nat where "u32_max \<equiv> 4294967295"
abbreviation u8_max :: nat where "u8_max \<equiv> 255"

fun next_health :: "UpstreamHealthState \<Rightarrow> HealthObservation \<Rightarrow> HttpHealthCheckPolicy \<Rightarrow> UpstreamHealthState" where
  "next_health HealthDisabled _ p = HealthDisabled"
| "next_health (Unknown s f) ObsSucceeded p =
    (let successes = sat_inc u32_max s in
     if hp_healthy_threshold p \<le> successes then Healthy 0 else Unknown successes 0)"
| "next_health (Unknown s f) ObsFailed p =
    (let failures = sat_inc u32_max f in
     if hp_unhealthy_threshold p \<le> failures then Unhealthy 0 else Unknown 0 failures)"
| "next_health (Healthy f) ObsSucceeded p = Healthy 0"
| "next_health (Healthy f) ObsFailed p =
    (let failures = sat_inc u32_max f in
     if hp_unhealthy_threshold p \<le> failures then Unhealthy 0 else Healthy failures)"
| "next_health (Unhealthy s) ObsFailed p = Unhealthy 0"
| "next_health (Unhealthy s) ObsSucceeded p =
    (let successes = sat_inc u32_max s in
     if hp_healthy_threshold p \<le> successes then Healthy 0 else Unhealthy successes)"

definition transition_upstream_health ::
  "UpstreamHealthState \<Rightarrow> HealthObservation \<Rightarrow> HttpHealthCheckPolicy \<Rightarrow> HealthTransitionResult" where
  "transition_upstream_health state observation policy =
    (let before = availability_of state; successor = next_health state observation policy;
         after = availability_of successor
     in \<lparr>tr_state = successor,
         tr_change = (if before \<noteq> after then Some \<lparr>change_from = before, change_to = after\<rparr> else None)\<rparr>)"

section \<open>Passive health\<close>

datatype PassiveHealthState =
    PassiveOff
  | Observing (consecutive_failures: nat)
  | Ejected (until_ms: nat)

datatype PassiveHealthEvent = PassiveSucceeded | PassiveFailed nat | CooldownElapsed nat

fun transition_passive_health ::
  "PassiveHealthState \<Rightarrow> PassiveHealthEvent \<Rightarrow> PassiveHealthPolicy \<Rightarrow> PassiveHealthState" where
  "transition_passive_health PassiveOff _ p = PassiveOff"
| "transition_passive_health (Observing f) PassiveSucceeded p = Observing 0"
| "transition_passive_health (Observing f) (PassiveFailed now) p =
    (let failures = sat_inc u8_max f in
     if failure_threshold p \<le> failures then Ejected (saturating_add now (ejection_ms p))
     else Observing failures)"
| "transition_passive_health (Observing f) (CooldownElapsed _) p = Observing f"
| "transition_passive_health (Ejected u) PassiveSucceeded p = Ejected u"
| "transition_passive_health (Ejected u) (PassiveFailed _) p = Ejected u"
| "transition_passive_health (Ejected u) (CooldownElapsed now) p =
    (if u \<le> now then Observing 0 else Ejected u)"

section \<open>Eligibility, selection and retry\<close>

datatype UpstreamMembership = Present | Removed

record EffectiveUpstreamState =
  eu_membership :: UpstreamMembership
  eu_administrative :: UpstreamAdministrativeState
  eu_active_health :: UpstreamAvailability
  eu_passive_health :: PassiveHealthState

datatype UpstreamExclusionReason = ExcludedRemoved | ExcludedDraining | ActiveUnhealthy | PassiveEjected

datatype EffectiveEligibility = Eligible | Excluded UpstreamExclusionReason

definition effective_eligibility :: "EffectiveUpstreamState \<Rightarrow> EffectiveEligibility" where
  "effective_eligibility s =
    (if eu_membership s = Removed then Excluded ExcludedRemoved
     else if eu_administrative s = Draining then Excluded ExcludedDraining
     else if eu_active_health s = AvailUnhealthy then Excluded ActiveUnhealthy
     else case eu_passive_health s of Ejected _ \<Rightarrow> Excluded PassiveEjected | _ \<Rightarrow> Eligible)"

datatype UpstreamSelection = Selected string nat | NoEligibleUpstream

definition health_enabled :: "Service \<Rightarrow> bool" where
  "health_enabled svc = (case sp_health_check (svc_policy svc) of HttpCheck _ \<Rightarrow> True | _ \<Rightarrow> False)"

definition eligible_upstreams :: "Service \<Rightarrow> (string \<rightharpoonup> UpstreamAvailability) \<Rightarrow> Upstream list" where
  "eligible_upstreams svc availability =
    filter (\<lambda>u. up_administrative_state u = Active \<and>
      (\<not> health_enabled svc \<or>
       is_eligible (case availability (up_id u) of None \<Rightarrow> AvailUnknown | Some a \<Rightarrow> a)))
      (svc_upstreams svc)"

definition select_upstream ::
  "Service \<Rightarrow> (string \<rightharpoonup> UpstreamAvailability) \<Rightarrow> nat \<Rightarrow> UpstreamSelection" where
  "select_upstream svc availability sequence =
    (let eligible = eligible_upstreams svc availability in
     if eligible = [] then NoEligibleUpstream
     else Selected (up_id (eligible ! (sequence mod length eligible))) (wrap64 (sequence + 1)))"

datatype ReplayMethod = Get | Head | Other

datatype RetryFailureKind =
    RetryConnect | RetryConnectTimeout | RetryWrite | RetryRead | RetryReadTimeout | RetryResetBeforeResponse

record RetryInput =
  ri_policy :: RetryPolicy
  ri_method :: ReplayMethod
  ri_body_bytes :: nat
  ri_request_bytes_written :: nat
  ri_response_started :: bool
  ri_attempts_used :: nat
  ri_replay_reserved :: bool
  ri_failure :: RetryFailureKind

datatype RetryDenialReason =
    RetryDisabled | MethodNotReplayable | BodyPresent | RequestWriteStarted | RetryResponseStarted
  | RetryBudgetExhausted | ReplayBudgetExhausted | FailureNotRetryable

datatype RetryDecision = Retry | DoNotRetry RetryDenialReason

definition evaluate_retry :: "RetryInput \<Rightarrow> RetryDecision" where
  "evaluate_retry i =
    (if \<not> retry_enabled (ri_policy i) then DoNotRetry RetryDisabled
     else if ri_method i \<notin> {Get, Head} then DoNotRetry MethodNotReplayable
     else if ri_body_bytes i \<noteq> 0 then DoNotRetry BodyPresent
     else if ri_request_bytes_written i \<noteq> 0 then DoNotRetry RequestWriteStarted
     else if ri_response_started i then DoNotRetry RetryResponseStarted
     else if max_retries (ri_policy i) \<le> ri_attempts_used i then DoNotRetry RetryBudgetExhausted
     else if \<not> ri_replay_reserved i then DoNotRetry ReplayBudgetExhausted
     else if ri_failure i \<notin> {RetryConnect, RetryConnectTimeout, RetryWrite, RetryRead, RetryReadTimeout,
         RetryResetBeforeResponse} then DoNotRetry FailureNotRetryable
     else Retry)"

section \<open>Runs of observations\<close>

text \<open>The number of equal observations at the end of a run.\<close>

definition streak :: "'a \<Rightarrow> 'a list \<Rightarrow> nat" where
  "streak x xs = length (takeWhile (\<lambda>y. y = x) (rev xs))"

lemma streak_simps [simp]:
  "streak x [] = 0" "streak x (xs @ [y]) = (if x = y then Suc (streak x xs) else 0)"
  by (auto simp: streak_def)

definition health_run :: "HttpHealthCheckPolicy \<Rightarrow> HealthObservation list \<Rightarrow> UpstreamHealthState" where
  "health_run p obs = foldl (\<lambda>s x. tr_state (transition_upstream_health s x p)) (Unknown 0 0) obs"

lemma health_run_simps [simp]:
  "health_run p [] = Unknown 0 0" "health_run p (obs @ [x]) = next_health (health_run p obs) x p"
  by (simp_all add: health_run_def transition_upstream_health_def Let_def)

definition policy_ok :: "HttpHealthCheckPolicy \<Rightarrow> bool" where
  "policy_ok p \<longleftrightarrow> 1 \<le> hp_healthy_threshold p \<and> hp_healthy_threshold p \<le> 10 \<and>
    1 \<le> hp_unhealthy_threshold p \<and> hp_unhealthy_threshold p \<le> 10"

fun health_ok :: "HttpHealthCheckPolicy \<Rightarrow> HealthObservation list \<Rightarrow> UpstreamHealthState \<Rightarrow> bool" where
  "health_ok p obs HealthDisabled = False"
| "health_ok p obs (Unknown s f) \<longleftrightarrow>
    s = streak ObsSucceeded obs \<and> f = streak ObsFailed obs \<and>
    s < hp_healthy_threshold p \<and> f < hp_unhealthy_threshold p"
| "health_ok p obs (Healthy f) \<longleftrightarrow> f = streak ObsFailed obs \<and> f < hp_unhealthy_threshold p"
| "health_ok p obs (Unhealthy s) \<longleftrightarrow> s = streak ObsSucceeded obs \<and> s < hp_healthy_threshold p"

lemma next_health_ok:
  "policy_ok p \<Longrightarrow> health_ok p obs s \<Longrightarrow> health_ok p (obs @ [x]) (next_health s x p)"
  by (cases s; cases x) (auto simp: policy_ok_def sat_inc_def Let_def)

lemma health_run_ok: "policy_ok p \<Longrightarrow> health_ok p obs (health_run p obs)"
proof (induction obs rule: rev_induct)
  case (snoc x obs)
  then show ?case using next_health_ok by simp
qed (simp add: policy_ok_def)

lemma next_health_change:
  assumes "policy_ok p" "health_ok p obs s" "availability_of (next_health s x p) \<noteq> availability_of s"
  shows "availability_of (next_health s x p) = AvailHealthy \<and>
      hp_healthy_threshold p = streak ObsSucceeded (obs @ [x]) \<or>
    availability_of (next_health s x p) = AvailUnhealthy \<and>
      hp_unhealthy_threshold p = streak ObsFailed (obs @ [x])"
  using assms by (cases s; cases x) (auto simp: policy_ok_def sat_inc_def Let_def availability_of_def split: if_splits)

text \<open>
  C10: An upstream changes its availability exactly on a full streak. For thresholds a configuration
  accepts, after any run of probe results the upstream is unhealthy when the last unhealthy-threshold
  results are failures and healthy when the last healthy-threshold results are successes, and a
  change is reported precisely at the result that completes such a streak; a shorter streak never
  moves it.
\<close>

theorem health_changes_on_full_streak:
  assumes "http_health_check_new path interval timeout healthy unhealthy smin smax = Ok p"
  shows "(unhealthy \<le> streak ObsFailed obs \<longrightarrow> availability_of (health_run p obs) = AvailUnhealthy) \<and>
    (healthy \<le> streak ObsSucceeded obs \<longrightarrow> availability_of (health_run p obs) = AvailHealthy) \<and>
    (\<forall>c. tr_change (transition_upstream_health (health_run p obs) x p) = Some c \<longrightarrow>
      change_from c = availability_of (health_run p obs) \<and>
      (change_to c = AvailHealthy \<and> streak ObsSucceeded (obs @ [x]) = healthy \<or>
       change_to c = AvailUnhealthy \<and> streak ObsFailed (obs @ [x]) = unhealthy))"
proof -
  have p: "policy_ok p" "hp_healthy_threshold p = healthy" "hp_unhealthy_threshold p = unhealthy"
    using assms by (auto simp: http_health_check_new_def policy_ok_def split: if_splits)
  note ok = health_run_ok[OF p(1), of obs]
  have "unhealthy \<le> streak ObsFailed obs \<longrightarrow> availability_of (health_run p obs) = AvailUnhealthy"
    using ok p(2,3) by (cases "health_run p obs") (auto simp: availability_of_def)
  moreover have "healthy \<le> streak ObsSucceeded obs \<longrightarrow> availability_of (health_run p obs) = AvailHealthy"
    using ok p(2,3) by (cases "health_run p obs") (auto simp: availability_of_def)
  moreover have "change_from c = availability_of (health_run p obs) \<and>
      (change_to c = AvailHealthy \<and> streak ObsSucceeded (obs @ [x]) = healthy \<or>
       change_to c = AvailUnhealthy \<and> streak ObsFailed (obs @ [x]) = unhealthy)"
    if "tr_change (transition_upstream_health (health_run p obs) x p) = Some c" for c
    using that next_health_change[OF p(1) ok, of x] p(2,3)
    by (auto simp: transition_upstream_health_def Let_def simp del: streak_simps split: if_splits)
  ultimately show ?thesis by blast
qed

definition sample_health_policy :: HttpHealthCheckPolicy where
  "sample_health_policy = \<lparr>hp_path = ''/health'', hp_interval_ms = 10000, hp_timeout_ms = 2000,
     hp_healthy_threshold = 2, hp_unhealthy_threshold = 3, hp_status_min = 200, hp_status_max = 399\<rparr>"

theorem health_changes_on_full_streak_witness:
  "availability_of (health_run sample_health_policy [ObsSucceeded, ObsSucceeded, ObsFailed, ObsFailed, ObsFailed])
     = AvailUnhealthy"
proof -
  have "http_health_check_new ''/health'' 10000 2000 2 3 200 399 = Ok sample_health_policy" by code_simp
  from health_changes_on_full_streak[OF this,
      of "[ObsSucceeded, ObsSucceeded, ObsFailed, ObsFailed, ObsFailed]" ObsFailed]
  show ?thesis by (simp add: streak_def)
qed

text \<open>
  C20: Round robin is fair. Over as many consecutive selections as there are eligible upstreams, with
  the same availability and without passing the wrap-around of the 64-bit sequence, every eligible
  upstream is selected exactly once, in the configured order starting at the current position; each
  selected upstream is in active administrative state and, when health checks are on, not unhealthy.
\<close>

theorem round_robin_is_fair:
  assumes "eligible_upstreams svc availability = us" "us \<noteq> []" "sequence + length us \<le> usize_max"
  shows "map (\<lambda>i. select_upstream svc availability (sequence + i)) [0..<length us] =
      map (\<lambda>i. Selected (up_id (rotate (sequence mod length us) us ! i)) (sequence + i + 1)) [0..<length us] \<and>
    (\<forall>u \<in> set us. u \<in> set (svc_upstreams svc) \<and> up_administrative_state u = Active \<and>
      (health_enabled svc \<longrightarrow> availability (up_id u) \<noteq> Some AvailUnhealthy))"
proof
  have "select_upstream svc availability (sequence + i) =
      Selected (up_id (rotate (sequence mod length us) us ! i)) (sequence + i + 1)" if "i < length us" for i
  proof -
    have "rotate (sequence mod length us) us ! i = us ! ((sequence + i) mod length us)"
      using that assms(2) by (simp add: nth_rotate mod_add_left_eq)
    then show ?thesis using assms that by (simp add: select_upstream_def Let_def)
  qed
  then show "map (\<lambda>i. select_upstream svc availability (sequence + i)) [0..<length us] =
      map (\<lambda>i. Selected (up_id (rotate (sequence mod length us) us ! i)) (sequence + i + 1)) [0..<length us]"
    by simp
  show "\<forall>u \<in> set us. u \<in> set (svc_upstreams svc) \<and> up_administrative_state u = Active \<and>
      (health_enabled svc \<longrightarrow> availability (up_id u) \<noteq> Some AvailUnhealthy)"
    using assms(1) by (auto simp: eligible_upstreams_def is_eligible_def)
qed

definition sample_upstream :: "string \<Rightarrow> Upstream" where
  "sample_upstream ident = \<lparr>up_id = ident, up_url = ''http://10.0.0.1:8080'',
     up_administrative_state = Active, up_tls = TlsDisabled\<rparr>"

definition sample_service :: Service where
  "sample_service = \<lparr>svc_id = ''svc'', svc_upstreams = [sample_upstream ''a'', sample_upstream ''b''],
     svc_policy = default_service_policy\<lparr>sp_health_check := HttpCheck sample_health_policy\<rparr>\<rparr>"

theorem round_robin_is_fair_witness:
  "map (\<lambda>i. select_upstream sample_service Map.empty (5 + i)) [0..<2] =
    [Selected ''b'' 6, Selected ''a'' 7]"
proof -
  have us: "eligible_upstreams sample_service Map.empty = [sample_upstream ''a'', sample_upstream ''b'']"
    by (simp add: eligible_upstreams_def sample_service_def sample_upstream_def is_eligible_def)
  let ?us = "[sample_upstream ''a'', sample_upstream ''b'']"
  have bound: "5 + length ?us \<le> usize_max" by (simp add: usize_max_def)
  have rot: "rotate (5 mod length ?us) ?us = [sample_upstream ''b'', sample_upstream ''a'']"
    and len: "[0..<length ?us] = [0, 1]" "[0..<2] = [0, 1::nat]" by code_simp+
  from round_robin_is_fair[OF us _ bound] show ?thesis
    unfolding rot len by (simp add: sample_upstream_def)
qed

definition passive_run ::
  "PassiveHealthPolicy \<Rightarrow> PassiveHealthEvent list \<Rightarrow> PassiveHealthState" where
  "passive_run p es = foldl (\<lambda>s e. transition_passive_health s e p) (Observing 0) es"

lemma passive_run_snoc [simp]:
  "passive_run p [] = Observing 0" "passive_run p (es @ [e]) = transition_passive_health (passive_run p es) e p"
  by (simp_all add: passive_run_def)

definition ends_ejection :: "nat \<Rightarrow> PassiveHealthEvent \<Rightarrow> bool" where
  "ends_ejection until e \<longleftrightarrow> (case e of CooldownElapsed now \<Rightarrow> until \<le> now | _ \<Rightarrow> False)"



end
