(* ===== verification/BTreeMap.thy ===== *)
theory BTreeMap
  imports Prelude "HOL-Library.Char_ord" "HOL-Library.List_Lexorder" "HOL-Library.Product_Lexorder"
begin

text \<open>
  \<^verbatim>\<open>std::collections::BTreeMap\<close> as the sources use it: an association list in ascending key order,
  which is the order its iterators follow. Strings are compared byte by byte and pairs from the
  left, as \<^verbatim>\<open>derive(Ord)\<close> does. The locale \<open>keyed_store\<close> is the contract the client components
  rely on; the ordered list is its interpretation.
\<close>

section \<open>The contract of a keyed store\<close>

locale keyed_store =
  fixes wf :: "'m \<Rightarrow> bool" and lookup :: "'m \<Rightarrow> 'k \<Rightarrow> 'v option" and put :: "'k \<Rightarrow> 'v \<Rightarrow> 'm \<Rightarrow> 'm"
  assumes wf_put: "wf m \<Longrightarrow> wf (put k v m)"
    and lookup_put: "wf m \<Longrightarrow> lookup (put k v m) = (lookup m)(k \<mapsto> v)"
begin

lemma wf_put_all: "wf m \<Longrightarrow> wf (foldl (\<lambda>m (k, v). put k v m) m kvs)"
  by (induction kvs arbitrary: m) (auto simp: wf_put)

lemma lookup_put_all:
  "wf m \<Longrightarrow> lookup (foldl (\<lambda>m (k, v). put k v m) m kvs) = lookup m ++ map_of (rev kvs)"
proof (induction kvs arbitrary: m)
  case (Cons kv kvs)
  then show ?case
    by (cases kv) (auto simp: wf_put lookup_put map_add_def fun_eq_iff split: option.splits)
qed simp

end

section \<open>The ordered association list\<close>

type_synonym ('k, 'v) btree = "('k \<times> 'v) list"

fun btree_insert :: "'k::linorder \<Rightarrow> 'v \<Rightarrow> ('k, 'v) btree \<Rightarrow> ('k, 'v) btree" where
  "btree_insert k v [] = [(k, v)]"
| "btree_insert k v ((a, b) # m) =
    (if k < a then (k, v) # (a, b) # m
     else if k = a then (k, v) # m
     else (a, b) # btree_insert k v m)"

definition btree_collect :: "('k::linorder \<times> 'v) list \<Rightarrow> ('k, 'v) btree" where
  "btree_collect kvs = foldl (\<lambda>m (k, v). btree_insert k v m) [] kvs"

definition btree_extend :: "('k::linorder \<times> 'v) list \<Rightarrow> ('k, 'v) btree \<Rightarrow> ('k, 'v) btree" where
  "btree_extend kvs m = foldl (\<lambda>m (k, v). btree_insert k v m) m kvs"

definition btree_map :: "('k \<Rightarrow> 'v \<Rightarrow> 'w) \<Rightarrow> ('k, 'v) btree \<Rightarrow> ('k, 'w) btree" where
  "btree_map f m = map (\<lambda>(k, v). (k, f k v)) m"

definition btree_wf :: "('k::linorder, 'v) btree \<Rightarrow> bool" where
  "btree_wf m \<longleftrightarrow> sorted_wrt (<) (map fst m)"

lemma btree_wf_Nil [simp]: "btree_wf []"
  by (simp add: btree_wf_def)

lemma btree_wf_distinct: "btree_wf m \<Longrightarrow> distinct (map fst m)"
  by (simp add: btree_wf_def strict_sorted_iff)

lemma btree_insert_keys: "fst ` set (btree_insert k v m) = insert k (fst ` set m)"
proof (induction m)
  case (Cons p m)
  then show ?case by (cases p) auto
qed simp

lemma btree_insert_wf: "btree_wf m \<Longrightarrow> btree_wf (btree_insert k v m)"
proof (induction m)
  case (Cons p m)
  obtain a b where p: "p = (a, b)" by (cases p)
  have "set (map fst (btree_insert k v m)) = insert k (fst ` set m)" by (simp add: btree_insert_keys)
  moreover have "\<forall>x \<in> fst ` set m. a < x" using Cons.prems p by (simp add: btree_wf_def)
  ultimately have "a < k \<Longrightarrow> \<forall>x \<in> set (map fst (btree_insert k v m)). a < x" by simp
  then show ?case using Cons p by (auto simp: btree_wf_def)
qed (simp add: btree_wf_def)

lemma btree_insert_lookup: "btree_wf m \<Longrightarrow> map_of (btree_insert k v m) = (map_of m)(k \<mapsto> v)"
proof (induction m)
  case (Cons p m)
  obtain a b where p: "p = (a, b)" by (cases p)
  then show ?case using Cons by (auto simp: btree_wf_def fun_eq_iff)
qed simp

lemma btree_map_keys [simp]: "map fst (btree_map f m) = map fst m"
  by (induction m) (auto simp: btree_map_def)

lemma btree_map_wf [simp]: "btree_wf (btree_map f m) = btree_wf m"
  by (simp add: btree_wf_def)

lemma btree_map_lookup: "map_of (btree_map f m) k = map_option (f k) (map_of m k)"
  by (induction m) (auto simp: btree_map_def)

interpretation btree: keyed_store btree_wf map_of btree_insert
  by unfold_locales (simp_all add: btree_insert_wf btree_insert_lookup)

lemma btree_extend_wf: "btree_wf m \<Longrightarrow> btree_wf (btree_extend kvs m)"
  unfolding btree_extend_def by (rule btree.wf_put_all)

lemma btree_extend_lookup: "btree_wf m \<Longrightarrow> map_of (btree_extend kvs m) = map_of m ++ map_of (rev kvs)"
  unfolding btree_extend_def by (rule btree.lookup_put_all)

lemma btree_collect_wf [simp]: "btree_wf (btree_collect kvs)"
  using btree_extend_wf[of "[]" kvs] by (simp add: btree_collect_def btree_extend_def)

lemma btree_collect_lookup: "map_of (btree_collect kvs) = map_of (rev kvs)"
  using btree_extend_lookup[of "[]" kvs] by (simp add: btree_collect_def btree_extend_def)

lemma btree_lookup_mem: "btree_wf m \<Longrightarrow> map_of m k = Some v \<longleftrightarrow> (k, v) \<in> set m"
  using map_of_eq_Some_iff[OF btree_wf_distinct] .

text \<open>A total over the values of some keys changes with one entry.\<close>

definition btree_total :: "('k \<Rightarrow> 'v \<Rightarrow> nat) \<Rightarrow> ('k, 'v) btree \<Rightarrow> nat" where
  "btree_total f m = sum_list (map (\<lambda>(k, v). f k v) m)"

lemma btree_total_sum: "btree_wf m \<Longrightarrow> btree_total f m = (\<Sum>(k, v) \<in> set m. f k v)"
  using btree_wf_distinct[of m] by (simp add: btree_total_def sum_list_distinct_conv_sum_set distinct_map)

end
