(* ===== verification/Drain.thy ===== *)
theory Drain
  imports Upstreams BTreeMap
begin

text \<open>
  Draining of upstreams, \<^verbatim>\<open>edge-application/src/drain.rs\<close>: every connection to an upstream holds a
  lease on the entry of its upstream in the generation of the configuration that selected it; a new
  configuration retires the entries of the previous one, and the operator sees an upstream as
  drained when its last lease is released. The lemmas tie the tracker to the list of connections
  that really hold a lease.
\<close>

section \<open>Data\<close>

datatype UpstreamDrainState = DrainActive | DrainDraining | DrainDrained | DrainRemoved

record DrainReference =
  ref_generation :: nat
  ref_key :: UpstreamHealthKey
  ref_lease_id :: nat

record UpstreamDrainStatus =
  ds_state :: UpstreamDrainState
  ds_connection_count :: nat

datatype DrainAcquireResult = Acquired | NotSelectable UpstreamDrainState | AcquireUnknown

datatype DrainReleaseResult =
  LeaseReleased | DrainCompleted | RemovedCompleted | ReleaseUnknown | ReleaseUnderflow

record DrainEntry =
  de_state :: UpstreamDrainState
  de_leases :: "nat set"

record UpstreamDrainTracker =
  dt_current_generation :: "nat option"
  dt_entries :: "(nat \<times> UpstreamHealthKey, DrainEntry) btree"
  dt_next_lease_id :: nat

datatype RuntimeDrainState = RuntimeActive | RuntimeDraining | RuntimeDrained | RuntimeRemoved

record RuntimeUpstreamStatus =
  rus_key :: UpstreamHealthKey
  rus_state :: RuntimeDrainState
  rus_connection_count :: nat

record RuntimeUpstreamStatusSnapshot =
  rss_revision_id :: string
  rss_generation :: nat
  rss_upstreams :: "RuntimeUpstreamStatus list"

section \<open>Operations\<close>

text \<open>The upstreams of a snapshot in configuration order, each with its key.\<close>

definition snapshot_upstreams :: "ConfigSnapshot \<Rightarrow> (UpstreamHealthKey \<times> Service \<times> Upstream) list" where
  "snapshot_upstreams s =
    concat (map (\<lambda>svc. map (\<lambda>u. ((svc_id svc, up_id u), svc, u)) (svc_upstreams svc)) (cs_services s))"

definition desired_states :: "ConfigSnapshot \<Rightarrow> (UpstreamHealthKey, UpstreamAdministrativeState) btree" where
  "desired_states s = btree_collect (map (\<lambda>(key, _, u). (key, up_administrative_state u)) (snapshot_upstreams s))"

definition retire_entry ::
  "(UpstreamHealthKey, UpstreamAdministrativeState) btree \<Rightarrow> nat \<Rightarrow> nat \<times> UpstreamHealthKey \<Rightarrow> DrainEntry \<Rightarrow> DrainEntry" where
  "retire_entry desired current gk e =
    (if fst gk \<noteq> current then e
     else e\<lparr>de_state :=
       if map_of desired (snd gk) = Some Draining
       then if de_leases e = {} then DrainDrained else DrainDraining
       else DrainRemoved\<rparr>)"

definition fresh_entry :: "UpstreamAdministrativeState \<Rightarrow> DrainEntry" where
  "fresh_entry a = \<lparr>de_state = (case a of Active \<Rightarrow> DrainActive | Draining \<Rightarrow> DrainDrained), de_leases = {}\<rparr>"

definition drain_reconcile :: "ConfigSnapshot \<Rightarrow> nat \<Rightarrow> UpstreamDrainTracker \<Rightarrow> UpstreamDrainTracker" where
  "drain_reconcile snapshot generation t =
    (let desired = desired_states snapshot;
         retired = (case dt_current_generation t of None \<Rightarrow> dt_entries t
                    | Some current \<Rightarrow> btree_map (retire_entry desired current) (dt_entries t))
     in t\<lparr>dt_entries := btree_extend (map (\<lambda>(key, a). ((generation, key), fresh_entry a)) desired) retired,
          dt_current_generation := Some generation\<rparr>)"

definition new_tracker :: UpstreamDrainTracker where
  "new_tracker = \<lparr>dt_current_generation = None, dt_entries = [], dt_next_lease_id = 0\<rparr>"

definition drain_from_snapshot :: "ConfigSnapshot \<Rightarrow> nat \<Rightarrow> UpstreamDrainTracker" where
  "drain_from_snapshot snapshot generation = drain_reconcile snapshot generation new_tracker"

definition drain_acquire ::
  "nat \<Rightarrow> UpstreamHealthKey \<Rightarrow> UpstreamDrainTracker
    \<Rightarrow> (DrainAcquireResult \<times> DrainReference option) \<times> UpstreamDrainTracker" where
  "drain_acquire generation key t =
    (if dt_current_generation t \<noteq> Some generation then ((AcquireUnknown, None), t)
     else case map_of (dt_entries t) (generation, key) of
       None \<Rightarrow> ((AcquireUnknown, None), t)
     | Some e \<Rightarrow>
         if de_state e \<noteq> DrainActive then ((NotSelectable (de_state e), None), t)
         else let i = dt_next_lease_id t in
           ((Acquired, Some \<lparr>ref_generation = generation, ref_key = key, ref_lease_id = i\<rparr>),
            t\<lparr>dt_next_lease_id := wrap64 (i + 1),
              dt_entries := btree_insert (generation, key) (e\<lparr>de_leases := insert i (de_leases e)\<rparr>) (dt_entries t)\<rparr>))"

definition drain_release :: "DrainReference \<Rightarrow> UpstreamDrainTracker \<Rightarrow> DrainReleaseResult \<times> UpstreamDrainTracker" where
  "drain_release r t =
    (let gk = (ref_generation r, ref_key r) in
     case map_of (dt_entries t) gk of
       None \<Rightarrow> (ReleaseUnknown, t)
     | Some e \<Rightarrow>
         if ref_lease_id r \<notin> de_leases e then (ReleaseUnderflow, t)
         else
           let e = e\<lparr>de_leases := de_leases e - {ref_lease_id r}\<rparr>;
               save = (\<lambda>e. t\<lparr>dt_entries := btree_insert gk e (dt_entries t)\<rparr>)
           in if de_leases e \<noteq> {} then (LeaseReleased, save e)
              else case de_state e of
                DrainDraining \<Rightarrow> (DrainCompleted, save (e\<lparr>de_state := DrainDrained\<rparr>))
              | DrainRemoved \<Rightarrow> (RemovedCompleted, save e)
              | _ \<Rightarrow> (LeaseReleased, save e))"

definition drain_status :: "nat \<Rightarrow> UpstreamHealthKey \<Rightarrow> UpstreamDrainTracker \<Rightarrow> UpstreamDrainStatus option" where
  "drain_status generation key t =
    map_option (\<lambda>e. \<lparr>ds_state = de_state e, ds_connection_count = card (de_leases e)\<rparr>)
      (map_of (dt_entries t) (generation, key))"

definition old_connections :: "nat \<Rightarrow> UpstreamHealthKey \<Rightarrow> UpstreamDrainTracker \<Rightarrow> nat" where
  "old_connections generation key t =
    btree_total (\<lambda>(g, k) e.
      if g \<noteq> generation \<and> k = key \<and> (de_state e = DrainDraining \<or> de_state e = DrainRemoved)
      then card (de_leases e) else 0) (dt_entries t)"

definition upstream_status ::
  "UpstreamDrainTracker \<Rightarrow> UpstreamHealthKey \<Rightarrow> Upstream \<Rightarrow> RuntimeUpstreamStatus" where
  "upstream_status t key u =
    (let generation = (case dt_current_generation t of None \<Rightarrow> 0 | Some g \<Rightarrow> g);
         current = (case drain_status generation key t of
             None \<Rightarrow> \<lparr>ds_state = DrainRemoved, ds_connection_count = 0\<rparr> | Some s \<Rightarrow> s);
         count = saturating_add (ds_connection_count current) (old_connections generation key t)
     in \<lparr>rus_key = key,
         rus_state = (if up_administrative_state u = Draining
                      then if count = 0 then RuntimeDrained else RuntimeDraining
                      else RuntimeActive),
         rus_connection_count = count\<rparr>)"

definition operational_snapshot :: "ConfigSnapshot \<Rightarrow> UpstreamDrainTracker \<Rightarrow> RuntimeUpstreamStatusSnapshot" where
  "operational_snapshot s t =
    \<lparr>rss_revision_id = cs_revision_id s,
     rss_generation = (case dt_current_generation t of None \<Rightarrow> 0 | Some g \<Rightarrow> g),
     rss_upstreams = map (\<lambda>(key, _, u). upstream_status t key u) (snapshot_upstreams s)\<rparr>"

section \<open>Leases and connections\<close>

definition leases_of :: "DrainReference list \<Rightarrow> nat \<Rightarrow> UpstreamHealthKey \<Rightarrow> nat set" where
  "leases_of held g k = ref_lease_id ` {r \<in> set held. ref_generation r = g \<and> ref_key r = k}"

definition drain_inv :: "UpstreamDrainTracker \<Rightarrow> DrainReference list \<Rightarrow> bool" where
  "drain_inv t held \<longleftrightarrow>
    btree_wf (dt_entries t) \<and> distinct (map ref_lease_id held) \<and> dt_next_lease_id t \<le> usize_max \<and>
    (\<forall>r \<in> set held. ref_lease_id r < dt_next_lease_id t \<and>
       map_of (dt_entries t) (ref_generation r, ref_key r) \<noteq> None) \<and>
    (\<forall>g k e. map_of (dt_entries t) (g, k) = Some e \<longrightarrow>
       de_leases e = leases_of held g k \<and>
       (de_state e = DrainActive \<longrightarrow> dt_current_generation t = Some g) \<and>
       (de_state e = DrainDrained \<longrightarrow> de_leases e = {}))"

text \<open>
  The life of a tracker: a configuration under a generation not used before, a lease taken or
  refused, a lease returned, or the return of something that is not held. Lease numbers are not
  reused: \<open>2 ^ 64\<close> leases are never taken.
\<close>

inductive drain_step ::
  "UpstreamDrainTracker \<times> DrainReference list \<Rightarrow> UpstreamDrainTracker \<times> DrainReference list \<Rightarrow> bool" where
  step_reconcile: "\<forall>k. map_of (dt_entries t) (g, k) = None \<Longrightarrow> drain_step (t, held) (drain_reconcile s g t, held)"
| step_acquired: "drain_acquire g k t = ((Acquired, Some r), t') \<Longrightarrow> dt_next_lease_id t < usize_max \<Longrightarrow>
    drain_step (t, held) (t', r # held)"
| step_refused: "drain_acquire g k t = ((res, None), t') \<Longrightarrow> drain_step (t, held) (t', held)"
| step_released: "r \<in> set held \<Longrightarrow> drain_release r t = (res, t') \<Longrightarrow> drain_step (t, held) (t', remove1 r held)"
| step_stray: "r \<notin> set held \<Longrightarrow> drain_release r t = (res, t') \<Longrightarrow> drain_step (t, held) (t', held)"

lemma leases_of_Cons:
  "leases_of (r # held) g k =
    (if ref_generation r = g \<and> ref_key r = k then insert (ref_lease_id r) (leases_of held g k) else leases_of held g k)"
  by (auto simp: leases_of_def)

lemma leases_of_remove:
  assumes "distinct (map ref_lease_id held)" "r \<in> set held"
  shows "leases_of (remove1 r held) g k =
    (if ref_generation r = g \<and> ref_key r = k then leases_of held g k - {ref_lease_id r} else leases_of held g k)"
proof -
  have d: "distinct held" and inj: "inj_on ref_lease_id (set held)" using assms(1) by (auto simp: distinct_map)
  then have "set (remove1 r held) = set held - {r}" by simp
  then show ?thesis using inj assms(2) by (auto simp: leases_of_def inj_on_def)
qed

lemma drain_invD:
  assumes "drain_inv t held"
  shows "btree_wf (dt_entries t)" "distinct (map ref_lease_id held)" "dt_next_lease_id t \<le> usize_max"
    "r \<in> set held \<Longrightarrow> ref_lease_id r < dt_next_lease_id t"
    "r \<in> set held \<Longrightarrow> \<exists>e. map_of (dt_entries t) (ref_generation r, ref_key r) = Some e"
    "map_of (dt_entries t) (g, k) = Some e \<Longrightarrow> de_leases e = leases_of held g k"
    "map_of (dt_entries t) (g, k) = Some e \<Longrightarrow> de_state e = DrainActive \<Longrightarrow> dt_current_generation t = Some g"
    "map_of (dt_entries t) (g, k) = Some e \<Longrightarrow> de_state e = DrainDrained \<Longrightarrow> de_leases e = {}"
  using assms unfolding drain_inv_def by blast+

lemma drain_invI:
  assumes "btree_wf (dt_entries t)" "distinct (map ref_lease_id held)" "dt_next_lease_id t \<le> usize_max"
    "\<And>r. r \<in> set held \<Longrightarrow> ref_lease_id r < dt_next_lease_id t"
    "\<And>r. r \<in> set held \<Longrightarrow> \<exists>e. map_of (dt_entries t) (ref_generation r, ref_key r) = Some e"
    "\<And>g k e. map_of (dt_entries t) (g, k) = Some e \<Longrightarrow> de_leases e = leases_of held g k \<and>
      (de_state e = DrainActive \<longrightarrow> dt_current_generation t = Some g) \<and>
      (de_state e = DrainDrained \<longrightarrow> de_leases e = {})"
  shows "drain_inv t held"
  using assms unfolding drain_inv_def by blast

lemma new_tracker_inv: "drain_inv new_tracker []"
  by (simp add: drain_inv_def new_tracker_def)

definition retire_current ::
  "(UpstreamHealthKey, UpstreamAdministrativeState) btree \<Rightarrow> nat option \<Rightarrow> nat \<times> UpstreamHealthKey \<Rightarrow> DrainEntry \<Rightarrow> DrainEntry" where
  "retire_current d current gk e = (case current of None \<Rightarrow> e | Some c \<Rightarrow> retire_entry d c gk e)"

lemma retire_current_facts:
  "de_leases (retire_current d current (g, k) e) = de_leases e"
  "de_state (retire_current d current (g, k) e) = DrainActive \<Longrightarrow> de_state e = DrainActive \<and> current \<noteq> Some g"
  "de_state (retire_current d current (g, k) e) = DrainDrained \<Longrightarrow> de_state e = DrainDrained \<or> de_leases e = {}"
  by (auto simp: retire_current_def retire_entry_def split: option.splits if_splits)

lemma drain_reconcile_inv:
  assumes "drain_inv t held" "\<forall>k. map_of (dt_entries t) (g, k) = None"
  shows "drain_inv (drain_reconcile s g t) held"
proof -
  let ?d = "desired_states s"
  define retired where "retired = (case dt_current_generation t of None \<Rightarrow> dt_entries t
      | Some current \<Rightarrow> btree_map (retire_entry ?d current) (dt_entries t))"
  have wf: "btree_wf retired" using assms(1) by (auto simp: drain_inv_def retired_def split: option.splits)
  have old: "map_of retired gk = map_option (retire_current ?d (dt_current_generation t) gk) (map_of (dt_entries t) gk)" for gk
    by (cases "dt_current_generation t"; cases "map_of (dt_entries t) gk")
      (simp_all add: retired_def retire_current_def btree_map_lookup)
  define fresh where "fresh = map (\<lambda>(key, a). ((g, key), fresh_entry a)) ?d"
  have fresh: "map_of (rev fresh) (g', k) = Some e \<Longrightarrow> g' = g \<and> (\<exists>a. e = fresh_entry a)" for g' k e
    by (auto simp: fresh_def dest!: map_of_SomeD)
  have entries: "map_of (dt_entries (drain_reconcile s g t)) = map_of retired ++ map_of (rev fresh)"
    using btree_extend_lookup[OF wf] by (simp add: drain_reconcile_def Let_def retired_def fresh_def)
  have "ref_generation r \<noteq> g" if "r \<in> set held" for r using assms that unfolding drain_inv_def by metis
  then have none: "leases_of held g k = {}" for k by (auto simp: leases_of_def)
  have lookup: "g' = g \<and> (\<exists>a. e = fresh_entry a) \<or>
      g' \<noteq> g \<and> (\<exists>e0. map_of (dt_entries t) (g', k) = Some e0 \<and>
        e = retire_current ?d (dt_current_generation t) (g', k) e0)"
    if e: "map_of (dt_entries (drain_reconcile s g t)) (g', k) = Some e" for g' k e
  proof (cases "map_of (rev fresh) (g', k)")
    case None
    then obtain e0 where "map_of (dt_entries t) (g', k) = Some e0"
        "e = retire_current ?d (dt_current_generation t) (g', k) e0"
      using e unfolding entries by (auto simp: map_add_Some_iff old)
    moreover from this(1) have "g' \<noteq> g" using assms(2) by force
    ultimately show ?thesis by blast
  next
    case (Some a)
    then have "map_of (rev fresh) (g', k) = Some e" using e unfolding entries by (auto simp: map_add_Some_iff)
    then show ?thesis using fresh by blast
  qed
  have gen: "dt_current_generation (drain_reconcile s g t) = Some g"
    "dt_next_lease_id (drain_reconcile s g t) = dt_next_lease_id t" by (simp_all add: drain_reconcile_def Let_def)
  note inv = drain_invD[OF assms(1)]
  show ?thesis
  proof (rule drain_invI)
    show "btree_wf (dt_entries (drain_reconcile s g t))"
      using btree_extend_wf[OF wf] by (simp add: drain_reconcile_def Let_def retired_def)
    show "\<exists>e. map_of (dt_entries (drain_reconcile s g t)) (ref_generation r, ref_key r) = Some e"
      if "r \<in> set held" for r
      using inv(5)[OF that] unfolding entries by (auto simp: map_add_def old split: option.splits)
    fix g' k e assume "map_of (dt_entries (drain_reconcile s g t)) (g', k) = Some e"
    from lookup[OF this] show "de_leases e = leases_of held g' k \<and>
        (de_state e = DrainActive \<longrightarrow> dt_current_generation (drain_reconcile s g t) = Some g') \<and>
        (de_state e = DrainDrained \<longrightarrow> de_leases e = {})"
    proof (elim disjE conjE exE)
      fix a assume g: "g' = g" and e: "e = fresh_entry a"
      have "de_leases e = {}" unfolding e by (simp add: fresh_entry_def)
      then show ?thesis using none[of k] gen(1) unfolding g by simp
    next
      fix e0 assume e0: "map_of (dt_entries t) (g', k) = Some e0"
        and e: "e = retire_current ?d (dt_current_generation t) (g', k) e0"
      note f = retire_current_facts[of ?d "dt_current_generation t" g' k e0, folded e]
      show ?thesis using f inv(6-8)[OF e0] by metis
    qed
  qed (use inv gen in simp_all)
qed

lemma drain_acquire_Acquired:
  assumes "drain_acquire g k t = ((Acquired, Some r), t')"
  shows "\<exists>e. map_of (dt_entries t) (g, k) = Some e \<and> de_state e = DrainActive \<and> dt_current_generation t = Some g \<and>
    r = \<lparr>ref_generation = g, ref_key = k, ref_lease_id = dt_next_lease_id t\<rparr> \<and>
    t' = t\<lparr>dt_next_lease_id := wrap64 (dt_next_lease_id t + 1),
      dt_entries := btree_insert (g, k) (e\<lparr>de_leases := insert (dt_next_lease_id t) (de_leases e)\<rparr>) (dt_entries t)\<rparr>"
  using assms by (auto simp: drain_acquire_def Let_def split: if_splits option.splits)

lemma drain_acquire_refused: "drain_acquire g k t = ((res, None), t') \<Longrightarrow> t' = t"
  by (auto simp: drain_acquire_def Let_def split: if_splits option.splits)

lemma drain_acquire_inv:
  assumes "drain_inv t held" "drain_acquire g k t = ((Acquired, Some r), t')" "dt_next_lease_id t < usize_max"
  shows "drain_inv t' (r # held)"
proof -
  note inv = drain_invD[OF assms(1)]
  let ?i = "dt_next_lease_id t"
  obtain e where e: "map_of (dt_entries t) (g, k) = Some e" "de_state e = DrainActive" "dt_current_generation t = Some g"
    and r: "r = \<lparr>ref_generation = g, ref_key = k, ref_lease_id = ?i\<rparr>"
    and t': "t' = t\<lparr>dt_next_lease_id := ?i + 1,
      dt_entries := btree_insert (g, k) (e\<lparr>de_leases := insert ?i (de_leases e)\<rparr>) (dt_entries t)\<rparr>"
    using drain_acquire_Acquired[OF assms(2)] assms(3) by auto
  have entries: "map_of (dt_entries t') = (map_of (dt_entries t))((g, k) \<mapsto> e\<lparr>de_leases := insert ?i (de_leases e)\<rparr>)"
    using btree_insert_lookup[OF inv(1)] by (simp add: t')
  have ids: "ref_lease_id q \<noteq> ?i" if "q \<in> set held" for q using inv(4)[OF that] by simp
  show ?thesis
  proof (rule drain_invI)
    show "btree_wf (dt_entries t')" using btree_insert_wf[OF inv(1)] by (simp add: t')
    show "distinct (map ref_lease_id (r # held))" using inv(2) ids by (force simp: r)
    show "dt_next_lease_id t' \<le> usize_max" using assms(3) by (simp add: t')
    show "ref_lease_id q < dt_next_lease_id t'" if "q \<in> set (r # held)" for q
      using that inv(4)[of q] by (auto simp: t' r)
    show "\<exists>e. map_of (dt_entries t') (ref_generation q, ref_key q) = Some e" if "q \<in> set (r # held)" for q
      using that inv(5)[of q] by (auto simp: entries r)
    fix g' k' e' assume e': "map_of (dt_entries t') (g', k') = Some e'"
    have gen: "dt_current_generation t' = dt_current_generation t" by (simp add: t')
    show "de_leases e' = leases_of (r # held) g' k' \<and>
        (de_state e' = DrainActive \<longrightarrow> dt_current_generation t' = Some g') \<and>
        (de_state e' = DrainDrained \<longrightarrow> de_leases e' = {})"
    proof (cases "(g', k') = (g, k)")
      case True
      then have "e' = e\<lparr>de_leases := insert ?i (de_leases e)\<rparr>" using e' by (simp add: entries)
      then show ?thesis using True e inv(6)[OF e(1)] gen by (simp add: leases_of_Cons r)
    next
      case False
      then have "map_of (dt_entries t) (g', k') = Some e'" using e' by (auto simp: entries split: if_splits)
      then show ?thesis using False inv(6-8)[of g' k' e'] gen by (auto simp: leases_of_Cons r)
    qed
  qed
qed

lemma drain_release_held:
  assumes "drain_inv t held" "r \<in> set held"
  shows "\<exists>e. map_of (dt_entries t) (ref_generation r, ref_key r) = Some e \<and> ref_lease_id r \<in> de_leases e \<and>
    de_state e \<noteq> DrainDrained"
proof -
  note inv = drain_invD[OF assms(1)]
  obtain e where e: "map_of (dt_entries t) (ref_generation r, ref_key r) = Some e" using inv(5)[OF assms(2)] by blast
  have "ref_lease_id r \<in> de_leases e" using inv(6)[OF e] assms(2) by (auto simp: leases_of_def)
  then show ?thesis using e inv(8)[OF e] by auto
qed

lemma drain_release_inv:
  assumes "drain_inv t held" "r \<in> set held" "drain_release r t = (res, t')"
  shows "drain_inv t' (remove1 r held)"
proof -
  note inv = drain_invD[OF assms(1)]
  let ?gk = "(ref_generation r, ref_key r)"
  obtain e where e: "map_of (dt_entries t) ?gk = Some e" "ref_lease_id r \<in> de_leases e" "de_state e \<noteq> DrainDrained"
    using drain_release_held[OF assms(1,2)] by blast
  define e1 where "e1 = (let d = e\<lparr>de_leases := de_leases e - {ref_lease_id r}\<rparr> in
      if de_leases d = {} \<and> de_state e = DrainDraining then d\<lparr>de_state := DrainDrained\<rparr> else d)"
  have t': "t' = t\<lparr>dt_entries := btree_insert ?gk e1 (dt_entries t)\<rparr>"
    using assms(3) e by (cases "de_state e") (auto simp: drain_release_def e1_def Let_def split: if_splits)
  have e1: "de_leases e1 = de_leases e - {ref_lease_id r}"
      "de_state e1 = de_state e \<or> de_state e1 = DrainDrained \<and> de_leases e1 = {}"
    by (auto simp: e1_def Let_def)
  have entries: "map_of (dt_entries t') = (map_of (dt_entries t))(?gk \<mapsto> e1)"
    using btree_insert_lookup[OF inv(1)] by (simp add: t')
  have same: "dt_current_generation t' = dt_current_generation t" "dt_next_lease_id t' = dt_next_lease_id t"
    by (simp_all add: t')
  have sub: "q \<in> set (remove1 r held) \<Longrightarrow> q \<in> set held" for q using notin_set_remove1 by fast
  show ?thesis
  proof (rule drain_invI)
    show "btree_wf (dt_entries t')" using btree_insert_wf[OF inv(1)] by (simp add: t')
    show "distinct (map ref_lease_id (remove1 r held))"
      using inv(2) by (auto simp: distinct_map dest: inj_on_subset[OF _ set_remove1_subset])
    show "\<exists>e. map_of (dt_entries t') (ref_generation q, ref_key q) = Some e" if "q \<in> set (remove1 r held)" for q
      using inv(5)[OF sub[OF that]] by (auto simp: entries)
    fix g' k' e' assume e': "map_of (dt_entries t') (g', k') = Some e'"
    note lr = leases_of_remove[OF inv(2) assms(2), of g' k']
    show "de_leases e' = leases_of (remove1 r held) g' k' \<and>
        (de_state e' = DrainActive \<longrightarrow> dt_current_generation t' = Some g') \<and>
        (de_state e' = DrainDrained \<longrightarrow> de_leases e' = {})"
    proof (cases "(g', k') = ?gk")
      case True
      then have "e' = e1" using e' by (simp add: entries)
      then show ?thesis using True e e1 inv(6,7)[OF e(1)] same lr by auto
    next
      case False
      then have "map_of (dt_entries t) (g', k') = Some e'" using e' by (auto simp: entries split: if_splits)
      then show ?thesis using False inv(6-8)[of g' k' e'] same lr by auto
    qed
  qed (use inv sub same in auto)
qed

lemma drain_release_stray:
  assumes "drain_inv t held" "r \<notin> set held"
  shows "drain_release r t = (ReleaseUnknown, t) \<or> drain_release r t = (ReleaseUnderflow, t)"
proof (cases "map_of (dt_entries t) (ref_generation r, ref_key r)")
  case (Some e)
  have "ref_lease_id r \<notin> de_leases e"
  proof
    assume "ref_lease_id r \<in> de_leases e"
    then obtain q where q: "q \<in> set held" "ref_generation q = ref_generation r" "ref_key q = ref_key r"
        "ref_lease_id q = ref_lease_id r"
      using drain_invD(6)[OF assms(1) Some] by (auto simp: leases_of_def)
    have "q = r" using q(2-4) by (intro DrainReference.equality) simp_all
    then show False using q(1) assms(2) by simp
  qed
  then show ?thesis using Some by (simp add: drain_release_def)
qed (simp add: drain_release_def)

lemma drain_step_inv: "drain_step a b \<Longrightarrow> drain_inv (fst a) (snd a) \<Longrightarrow> drain_inv (fst b) (snd b)"
proof (induction rule: drain_step.induct)
  case (step_stray r held t res t')
  then show ?case using drain_release_stray[of t held r] by auto
qed (auto simp: drain_reconcile_inv drain_acquire_inv drain_release_inv dest: drain_acquire_refused)

lemma drain_reachable_inv:
  "drain_step\<^sup>*\<^sup>* (new_tracker, []) (t, held) \<Longrightarrow> drain_inv t held"
proof -
  have "drain_step\<^sup>*\<^sup>* a b \<Longrightarrow> drain_inv (fst a) (snd a) \<Longrightarrow> drain_inv (fst b) (snd b)" for a b
    by (induction rule: rtranclp_induct) (auto intro: drain_step_inv)
  from this[of "(new_tracker, [])" "(t, held)"] show "drain_step\<^sup>*\<^sup>* (new_tracker, []) (t, held) \<Longrightarrow> drain_inv t held"
    by (simp add: new_tracker_inv)
qed

section \<open>The reported counts\<close>

lemma sum_one_key:
  assumes "btree_wf m"
  shows "(\<Sum>x \<in> set m. if fst x = gk then f (snd x) else 0) = (case map_of m gk of None \<Rightarrow> 0 | Some e \<Rightarrow> (f e :: nat))"
proof (cases "map_of m gk")
  case None
  then have "gk \<notin> fst ` set m" by (simp add: map_of_eq_None_iff)
  then have "(\<Sum>x \<in> set m. if fst x = gk then f (snd x) else 0) = 0" by (intro sum.neutral) auto
  then show ?thesis using None by simp
next
  case (Some e)
  have "fst x = gk \<longleftrightarrow> x = (gk, e)" if "x \<in> set m" for x
    using that Some btree_lookup_mem[OF assms] by (metis fst_conv option.inject prod.collapse)
  then have "(\<Sum>x \<in> set m. if fst x = gk then f (snd x) else 0) = (\<Sum>x \<in> set m. if x = (gk, e) then f e else 0)"
    by (intro sum.cong) auto
  then show ?thesis using Some btree_lookup_mem[OF assms, of gk e] by (simp add: sum.delta)
qed

lemma card_leases:
  assumes "distinct (map ref_lease_id held)"
  shows "card (leases_of held g k) = (\<Sum>r \<in> set held. if ref_generation r = g \<and> ref_key r = k then 1 else 0)"
proof -
  have "inj_on ref_lease_id {r \<in> set held. ref_generation r = g \<and> ref_key r = k}"
    using assms by (auto simp: distinct_map intro: inj_on_subset)
  then have "card (leases_of held g k) = card {r \<in> set held. ref_generation r = g \<and> ref_key r = k}"
    unfolding leases_of_def by (rule card_image)
  then show ?thesis by (simp add: sum.If_cases Int_def)
qed

definition connections_to :: "UpstreamHealthKey \<Rightarrow> DrainReference list \<Rightarrow> nat" where
  "connections_to k held = length (filter (\<lambda>r. ref_key r = k) held)"

lemma connections_to_sum:
  assumes "distinct held"
  shows "connections_to k held = (\<Sum>r \<in> set held. if ref_key r = k then 1 else 0)"
  using distinct_card[OF distinct_filter[OF assms], of "\<lambda>r. ref_key r = k"]
  by (simp add: connections_to_def sum.If_cases Int_def)

lemma leases_total:
  assumes "drain_inv t held"
  shows "(\<Sum>x \<in> set (dt_entries t). if snd (fst x) = k then card (de_leases (snd x)) else 0) = connections_to k held"
proof -
  note inv = drain_invD[OF assms]
  let ?E = "set (dt_entries t)"
  have "(\<Sum>x \<in> ?E. if snd (fst x) = k then card (de_leases (snd x)) else 0) =
      (\<Sum>x \<in> ?E. \<Sum>r \<in> set held. if fst x = (ref_generation r, ref_key r) \<and> ref_key r = k then 1 else 0)"
  proof (rule sum.cong[OF refl])
    fix x assume x: "x \<in> ?E"
    obtain g k' e where xe: "x = ((g, k'), e)" by (cases x; cases "fst x") auto
    then have "map_of (dt_entries t) (g, k') = Some e" using x btree_lookup_mem[OF inv(1)] by simp
    then have c: "card (de_leases e) = (\<Sum>r \<in> set held. if ref_generation r = g \<and> ref_key r = k' then 1 else 0)"
      using inv(6) card_leases[OF inv(2)] by simp
    have cond: "fst x = (ref_generation r, ref_key r) \<and> ref_key r = k \<longleftrightarrow>
        k' = k \<and> ref_generation r = g \<and> ref_key r = k'" for r using xe by (metis fst_conv prod.inject)
    have part: "snd (fst x) = k'" "snd x = e" by (simp_all only: xe fst_conv snd_conv)
    show "(if snd (fst x) = k then card (de_leases (snd x)) else 0) =
        (\<Sum>r \<in> set held. if fst x = (ref_generation r, ref_key r) \<and> ref_key r = k then 1 else 0)"
      unfolding cond part c by (cases "k' = k") (simp_all only: simp_thms if_True if_False sum.neutral_const)
  qed
  also have "\<dots> = (\<Sum>r \<in> set held. \<Sum>x \<in> ?E. if fst x = (ref_generation r, ref_key r) \<and> ref_key r = k then 1 else 0)"
    by (rule sum.swap)
  also have "\<dots> = (\<Sum>r \<in> set held. if ref_key r = k then 1 else 0)"
  proof (rule sum.cong[OF refl])
    fix r assume "r \<in> set held"
    then obtain e where "map_of (dt_entries t) (ref_generation r, ref_key r) = Some e" using inv(5) by blast
    then show "(\<Sum>x \<in> ?E. if fst x = (ref_generation r, ref_key r) \<and> ref_key r = k then 1 else 0) =
        (if ref_key r = k then 1 else (0::nat))"
      using sum_one_key[OF inv(1), of "(ref_generation r, ref_key r)" "\<lambda>_. 1"]
      by (cases "ref_key r = k") auto
  qed
  also have "\<dots> = connections_to k held"
    using connections_to_sum inv(2) by (metis distinct_map)
  finally show ?thesis .
qed

lemma connections_bound: "drain_inv t held \<Longrightarrow> connections_to k held \<le> usize_max"
proof -
  assume i: "drain_inv t held"
  note inv = drain_invD[OF i]
  have "connections_to k held \<le> length (map ref_lease_id held)" by (simp add: connections_to_def)
  also have "\<dots> = card (ref_lease_id ` set held)" using distinct_card[OF inv(2)] by simp
  also have "\<dots> \<le> card {0..<dt_next_lease_id t}" using inv(4) by (intro card_mono) auto
  also have "\<dots> \<le> usize_max" using inv(3) by simp
  finally show ?thesis .
qed

lemma reported_count:
  assumes "drain_inv t held"
  shows "rus_connection_count (upstream_status t k u) = connections_to k held"
proof -
  note inv = drain_invD[OF assms]
  define gen where "gen = (case dt_current_generation t of None \<Rightarrow> 0 | Some g \<Rightarrow> g)"
  let ?E = "set (dt_entries t)"
  have now: "(case drain_status gen k t of None \<Rightarrow> 0 | Some s \<Rightarrow> ds_connection_count s) =
      (\<Sum>x \<in> ?E. if fst x = (gen, k) then card (de_leases (snd x)) else 0)"
    using sum_one_key[OF inv(1), of "(gen, k)" "\<lambda>e. card (de_leases e)"]
    by (cases "map_of (dt_entries t) (gen, k)") (simp_all add: drain_status_def)
  let ?old = "\<lambda>x. fst (fst x) \<noteq> gen \<and> snd (fst x) = k \<and>
      (de_state (snd x) = DrainDraining \<or> de_state (snd x) = DrainRemoved)"
  have old: "old_connections gen k t = (\<Sum>x \<in> ?E. if ?old x then card (de_leases (snd x)) else 0)"
    unfolding old_connections_def btree_total_sum[OF inv(1)] by (intro sum.cong) (auto split: prod.splits)
  have "(if fst x = (gen, k) then card (de_leases (snd x)) else 0) + (if ?old x then card (de_leases (snd x)) else 0) =
      (if snd (fst x) = k then card (de_leases (snd x)) else 0)" if x: "x \<in> ?E" for x
  proof -
    obtain g k' e where xe: "x = ((g, k'), e)" by (cases x; cases "fst x") auto
    then have e: "map_of (dt_entries t) (g, k') = Some e" using x btree_lookup_mem[OF inv(1)] by simp
    have "de_state e = DrainActive \<Longrightarrow> g = gen" using inv(7)[OF e] by (simp add: gen_def)
    moreover have "de_state e = DrainDrained \<Longrightarrow> card (de_leases e) = 0" using inv(8)[OF e] by simp
    ultimately show ?thesis using xe by (cases "de_state e") auto
  qed
  then have "(\<Sum>x \<in> ?E. if fst x = (gen, k) then card (de_leases (snd x)) else 0) +
      (\<Sum>x \<in> ?E. if ?old x then card (de_leases (snd x)) else 0) = connections_to k held"
    using leases_total[OF assms, of k] by (simp add: sum.distrib[symmetric])
  then have "(case drain_status gen k t of None \<Rightarrow> 0 | Some s \<Rightarrow> ds_connection_count s) + old_connections gen k t =
      connections_to k held" by (simp add: now old)
  then show ?thesis using connections_bound[OF assms, of k]
    by (auto simp: upstream_status_def Let_def gen_def saturating_add_def split: option.splits)
qed

lemma map_of_rev: "distinct (map fst xs) \<Longrightarrow> map_of (rev xs) = map_of xs"
proof (rule ext)
  fix k assume d: "distinct (map fst xs)"
  then have "distinct (map fst (rev xs))" by (simp add: rev_map[symmetric])
  then have "map_of (rev xs) k = Some y \<longleftrightarrow> map_of xs k = Some y" for y
    using d map_of_eq_Some_iff[of xs k] map_of_eq_Some_iff[of "rev xs" k] by simp
  then show "map_of (rev xs) k = map_of xs k" by (metis not_Some_eq)
qed

lemma reconciled_entry:
  assumes "btree_wf (dt_entries t)" "\<forall>k. map_of (dt_entries t) (g, k) = None"
  shows "map_of (dt_entries (drain_reconcile s g t)) (g, k) = map_option fresh_entry (map_of (desired_states s) k)"
proof -
  let ?d = "desired_states s"
  let ?fresh = "map (\<lambda>(key, a). ((g, key), fresh_entry a)) ?d"
  let ?old = "case dt_current_generation t of None \<Rightarrow> dt_entries t
      | Some current \<Rightarrow> btree_map (retire_entry ?d current) (dt_entries t)"
  have old: "btree_wf ?old" "map_of ?old (g, k) = None"
    using assms(1) spec[OF assms(2), of k] by (simp_all add: btree_map_lookup split: option.splits)
  have "map fst ?fresh = map (Pair g) (map fst ?d)" by auto
  then have "distinct (map fst ?fresh)"
    using btree_wf_distinct[of ?d] by (simp add: desired_states_def distinct_map inj_on_def)
  then have "map_of (dt_entries (drain_reconcile s g t)) (g, k) = map_of ?fresh (g, k)"
    using btree_extend_lookup[OF old(1), of ?fresh] old(2)
    by (simp add: drain_reconcile_def Let_def map_of_rev map_add_def split: option.splits)
  also have "map_of (map (\<lambda>(key, a). ((g, key), fresh_entry a)) d) (g, k) = map_option fresh_entry (map_of d k)" for d
    by (induction d) auto
  finally show ?thesis .
qed

section \<open>Properties of draining\<close>

text \<open>
  C15: The operator sees the connections there are. Whatever sequence of configurations, selections and
  released connections has happened, the status the tracker reports lists the configured upstreams
  in order, counts for each exactly the connections that hold a lease on it, whichever
  configuration selected them, and calls a draining upstream drained exactly when no connection is left.
\<close>

theorem drain_reports_connections:
  assumes "drain_step\<^sup>*\<^sup>* (new_tracker, []) (t, held)"
  shows "rss_upstreams (operational_snapshot s t) =
    map (\<lambda>(key, _, u). \<lparr>rus_key = key,
        rus_state = (if up_administrative_state u = Draining
                     then if connections_to key held = 0 then RuntimeDrained else RuntimeDraining
                     else RuntimeActive),
        rus_connection_count = connections_to key held\<rparr>) (snapshot_upstreams s)"
proof -
  have "upstream_status t key u = \<lparr>rus_key = key,
      rus_state = (if up_administrative_state u = Draining
                   then if connections_to key held = 0 then RuntimeDrained else RuntimeDraining
                   else RuntimeActive),
      rus_connection_count = connections_to key held\<rparr>" for key u
    using reported_count[OF drain_reachable_inv[OF assms], of key u]
    by (simp add: upstream_status_def Let_def)
  then show ?thesis by (simp add: operational_snapshot_def)
qed

definition sample_snapshot :: "UpstreamAdministrativeState \<Rightarrow> ConfigSnapshot" where
  "sample_snapshot a = \<lparr>cs_schema_version = 2, cs_revision_id = ''r1'',
     cs_admin = \<lparr>ac_bind = ''127.0.0.1:9443'', ac_auth_required = True\<rparr>, cs_listeners = [], cs_routes = [],
     cs_services = [\<lparr>svc_id = ''api'', svc_upstreams = [\<lparr>up_id = ''a'', up_url = ''http://10.0.0.1:80'',
         up_administrative_state = a, up_tls = TlsDisabled\<rparr>], svc_policy = default_service_policy\<rparr>],
     cs_certificate_resolvers = [], cs_log_mode = Product,
     cs_runtime = \<lparr>ro_max_connections = 1024, ro_max_inflight_payload_bytes = 67108864,
       ro_max_request_header_bytes = 16384, ro_max_request_body_bytes = 1048576,
       ro_upstream_read_timeout_ms = 30000, ro_metrics = \<lparr>mc_enabled = False, mc_bind = []\<rparr>\<rparr>\<rparr>"

definition sample_reference :: DrainReference where
  "sample_reference = \<lparr>ref_generation = 1, ref_key = (''api'', ''a''), ref_lease_id = 0\<rparr>"

definition sample_tracker :: UpstreamDrainTracker where
  "sample_tracker = drain_reconcile (sample_snapshot Draining) 2
     (snd (drain_acquire 1 (''api'', ''a'') (drain_from_snapshot (sample_snapshot Active) 1)))"

lemma sample_tracker_reachable: "drain_step\<^sup>*\<^sup>* (new_tracker, []) (sample_tracker, [sample_reference])"
proof -
  let ?t1 = "drain_from_snapshot (sample_snapshot Active) 1"
  let ?t2 = "snd (drain_acquire 1 (''api'', ''a'') ?t1)"
  have "drain_step (new_tracker, []) (?t1, [])"
    unfolding drain_from_snapshot_def by (rule step_reconcile) (simp add: new_tracker_def)
  moreover have "drain_acquire 1 (''api'', ''a'') ?t1 = ((Acquired, Some sample_reference), ?t2)" by code_simp
  then have "drain_step (?t1, []) (?t2, [sample_reference])"
    by (rule step_acquired) code_simp
  moreover have "list_all (\<lambda>x. fst (fst x) \<noteq> 2) (dt_entries ?t2)" by code_simp
  then have "\<forall>k. map_of (dt_entries ?t2) (2, k) = None" by (auto simp: list_all_iff map_of_eq_None_iff)
  then have "drain_step (?t2, [sample_reference]) (sample_tracker, [sample_reference])"
    unfolding sample_tracker_def by (rule step_reconcile)
  ultimately show ?thesis by (meson rtranclp.rtrancl_into_rtrancl rtranclp.rtrancl_refl)
qed

theorem drain_reports_connections_witness:
  "rss_upstreams (operational_snapshot (sample_snapshot Draining) sample_tracker) =
    [\<lparr>rus_key = (''api'', ''a''), rus_state = RuntimeDraining, rus_connection_count = 1\<rparr>]"
proof -
  have "snapshot_upstreams (sample_snapshot Draining) = [((''api'', ''a''), hd (cs_services (sample_snapshot Draining)),
      hd (svc_upstreams (hd (cs_services (sample_snapshot Draining)))))]"
    "up_administrative_state (hd (svc_upstreams (hd (cs_services (sample_snapshot Draining))))) = Draining"
    "connections_to (''api'', ''a'') [sample_reference] = 1" by code_simp+
  then show ?thesis using drain_reports_connections[OF sample_tracker_reachable, of "sample_snapshot Draining"] by simp
qed

text \<open>
  C19: Leases are returned exactly once and never taken on a retired upstream. In every reachable state
  the release of a held lease is never refused, and it reports a completed drain or removal only when
  no other connection of that configuration uses the upstream; releasing anything that is not held
  is refused and changes nothing; and right after a configuration is applied a lease can be taken
  exactly on the upstreams it configures as active.
\<close>

theorem drain_leases_are_exact:
  assumes "drain_step\<^sup>*\<^sup>* (new_tracker, []) (t, held)"
  shows "(r \<in> set held \<longrightarrow> fst (drain_release r t) \<notin> {ReleaseUnknown, ReleaseUnderflow} \<and>
      (fst (drain_release r t) \<in> {DrainCompleted, RemovedCompleted} \<longrightarrow>
        leases_of (remove1 r held) (ref_generation r) (ref_key r) = {})) \<and>
    (r \<notin> set held \<longrightarrow> fst (drain_release r t) \<in> {ReleaseUnknown, ReleaseUnderflow} \<and> snd (drain_release r t) = t) \<and>
    ((\<forall>k. map_of (dt_entries t) (g, k) = None) \<longrightarrow>
      (fst (fst (drain_acquire g k (drain_reconcile s g t))) = Acquired \<longleftrightarrow> map_of (desired_states s) k = Some Active))"
proof (intro conjI impI)
  have i: "drain_inv t held" using drain_reachable_inv[OF assms] .
  note inv = drain_invD[OF i]
  assume r: "r \<in> set held"
  obtain e where e: "map_of (dt_entries t) (ref_generation r, ref_key r) = Some e" "ref_lease_id r \<in> de_leases e"
    using drain_release_held[OF i r] by blast
  show "fst (drain_release r t) \<notin> {ReleaseUnknown, ReleaseUnderflow}"
    using e by (auto simp: drain_release_def Let_def split: UpstreamDrainState.splits)
  assume "fst (drain_release r t) \<in> {DrainCompleted, RemovedCompleted}"
  then have "de_leases e - {ref_lease_id r} = {}" using e by (auto simp: drain_release_def Let_def split: if_splits)
  then show "leases_of (remove1 r held) (ref_generation r) (ref_key r) = {}"
    using leases_of_remove[OF inv(2) r] inv(6)[OF e(1)] by simp
next
  have i: "drain_inv t held" using drain_reachable_inv[OF assms] .
  assume "r \<notin> set held"
  from drain_release_stray[OF i this]
  show "fst (drain_release r t) \<in> {ReleaseUnknown, ReleaseUnderflow}" "snd (drain_release r t) = t" by auto
next
  assume "\<forall>k. map_of (dt_entries t) (g, k) = None"
  from reconciled_entry[OF drain_invD(1)[OF drain_reachable_inv[OF assms]] this, of s k]
  have "map_of (dt_entries (drain_reconcile s g t)) (g, k) = map_option fresh_entry (map_of (desired_states s) k)" .
  moreover have "dt_current_generation (drain_reconcile s g t) = Some g" by (simp add: drain_reconcile_def Let_def)
  ultimately show "fst (fst (drain_acquire g k (drain_reconcile s g t))) = Acquired \<longleftrightarrow>
      map_of (desired_states s) k = Some Active"
    by (cases "map_of (desired_states s) k")
      (auto simp: drain_acquire_def Let_def fresh_entry_def split: UpstreamAdministrativeState.splits if_splits)
qed

theorem drain_leases_are_exact_witness:
  "fst (drain_release sample_reference sample_tracker) = DrainCompleted \<and>
    leases_of (remove1 sample_reference [sample_reference]) 1 (''api'', ''a'') = {}"
proof -
  have "fst (drain_release sample_reference sample_tracker) = DrainCompleted" "ref_generation sample_reference = 1"
    "ref_key sample_reference = (''api'', ''a'')" by code_simp+
  then show ?thesis using drain_leases_are_exact[OF sample_tracker_reachable, of sample_reference] by simp
qed

end
