(* ===== verification/HealthSupervisor.thy ===== *)
theory HealthSupervisor
  imports Drain "HOL-Library.Word"
begin

unbundle bit_operations_syntax

text \<open>
  The active health supervisor of \<^verbatim>\<open>edge-application\<close>: the schedule of active probes and the fence around
  their results (\<^verbatim>\<open>health.rs\<close>), and the coordinator that hands probes to the worker pool
  (\<^verbatim>\<open>health_runtime_coordinator.rs\<close>).

  The worker pool is a port: its answer to the \<open>n\<close>-th probe offered in a tick is the argument
  \<open>submit n\<close>. Generations, revisions and times are 64-bit counters.
\<close>

section \<open>Data\<close>

record HealthGenerationAllocator =
  hga_next :: "nat option"

datatype HealthSupervisorState = SupervisorRunning | SupervisorStopped

datatype ProbeScheduleState = ProbeDisabled | Scheduled nat | InFlight nat | ProbeStopped

datatype ProbeResultIgnored = StaleGeneration | UnknownUpstream | NotInFlight | RequestMismatch | IgnoredStopped

datatype HandleProbeResult =
  Applied UpstreamAvailability "HealthStateChange option" | ResultIgnored ProbeResultIgnored

datatype HandleProbeDispatchRejection = Rescheduled nat | RejectionIgnored ProbeResultIgnored

datatype HealthDispatchDropReason = QueueFull | WorkerStopped

record HealthEntry =
  he_endpoint :: UpstreamEndpoint
  he_tls :: UpstreamTlsPolicy
  he_policy :: "HttpHealthCheckPolicy option"
  he_health :: UpstreamHealthState
  he_schedule :: ProbeScheduleState

record HealthReconciliationEntry =
  hre_endpoint :: UpstreamEndpoint
  hre_tls :: UpstreamTlsPolicy
  hre_policy :: "HttpHealthCheckPolicy option"
  hre_health :: UpstreamHealthState

record HealthReconciliationSnapshot =
  hrs_revision_id :: string
  hrs_generation :: nat
  hrs_entries :: "(UpstreamHealthKey, HealthReconciliationEntry) btree"

record HealthAvailabilitySnapshot =
  has_revision_id :: string
  has_generation :: nat
  has_entries :: "(UpstreamHealthKey, UpstreamAvailability) btree"

record HealthSupervisor =
  hs_revision_id :: string
  hs_generation :: nat
  hs_state :: HealthSupervisorState
  hs_entries :: "(UpstreamHealthKey, HealthEntry) btree"
  hs_next_probe_id :: nat

record HealthProbeRequest =
  pr_probe_id :: nat
  pr_revision_id :: string
  pr_generation :: nat
  pr_key :: UpstreamHealthKey
  pr_endpoint :: UpstreamEndpoint
  pr_tls :: UpstreamTlsPolicy
  pr_path :: string
  pr_timeout_ms :: nat
  pr_status_min :: nat
  pr_status_max :: nat

section \<open>Generations and jitter\<close>

definition allocator_new :: HealthGenerationAllocator where
  "allocator_new = \<lparr>hga_next = Some 1\<rparr>"

definition allocate :: "HealthGenerationAllocator \<Rightarrow> nat app \<times> HealthGenerationAllocator" where
  "allocate a =
    (case hga_next a of
       None \<Rightarrow> (Err (app_error (Process InternalBug) ''health generation space is exhausted''), a)
     | Some g \<Rightarrow> (Ok g, a\<lparr>hga_next := checked_add g 1\<rparr>))"

text \<open>The bytes of a 64-bit number from the lowest, and the FNV-1a hash over 64-bit words.\<close>

definition le_bytes :: "nat \<Rightarrow> nat list" where
  "le_bytes n = map (\<lambda>i. n div 256 ^ i mod 256) [0..<8]"

definition fnv_step :: "64 word \<Rightarrow> nat \<Rightarrow> 64 word" where
  "fnv_step hash b = (hash XOR word_of_nat b) * 0x100000001b3"

definition health_jitter_ms :: "UpstreamHealthKey \<Rightarrow> nat \<Rightarrow> nat \<Rightarrow> nat" where
  "health_jitter_ms key generation interval =
    (let maximum = interval div 10 in
     if maximum = 0 then 0
     else unat (foldl fnv_step 0xcbf29ce484222325
            (map byte (fst key) @ [255] @ map byte (snd key) @ le_bytes generation)) mod saturating_add maximum 1)"

definition next_probe_due_ms :: "UpstreamHealthKey \<Rightarrow> nat \<Rightarrow> nat \<Rightarrow> nat \<Rightarrow> nat" where
  "next_probe_due_ms key generation interval at =
    saturating_add (saturating_add at interval) (health_jitter_ms key generation interval)"

section \<open>The active supervisor\<close>

definition profile_matches :: "UpstreamEndpoint \<Rightarrow> UpstreamTlsPolicy \<Rightarrow> bool" where
  "profile_matches e tls \<longleftrightarrow>
    (ue_scheme e = HttpScheme \<and> tls = TlsDisabled) \<or> (ue_scheme e = HttpsScheme \<and> tls \<noteq> TlsDisabled)"

definition initial_entry :: "nat \<Rightarrow> Service \<Rightarrow> Upstream \<Rightarrow> HealthEntry app" where
  "initial_entry now svc u =
    (case (case sp_health_check (svc_policy svc) of
             HealthCheckDisabled \<Rightarrow> (None, HealthDisabled, ProbeDisabled)
           | HttpCheck p \<Rightarrow> (Some p, for_policy (sp_health_check (svc_policy svc)), Scheduled now)) of
       (policy, health, schedule) \<Rightarrow>
         (case endpoint_parse (up_url u) of
            Err e \<Rightarrow> Err (app_error (ve_code e) (ve_message e))
          | Ok endpoint \<Rightarrow>
              if \<not> profile_matches endpoint (up_tls u)
              then Err (app_error (Trust UpstreamTlsProfileInvalid) ''upstream TLS profile is invalid'')
              else Ok \<lparr>he_endpoint = endpoint, he_tls = up_tls u, he_policy = policy, he_health = health,
                       he_schedule = schedule\<rparr>))"

fun initial_entries ::
  "nat \<Rightarrow> (UpstreamHealthKey \<times> Service \<times> Upstream) list \<Rightarrow> (UpstreamHealthKey, HealthEntry) btree
    \<Rightarrow> (UpstreamHealthKey, HealthEntry) btree app" where
  "initial_entries now [] acc = Ok acc"
| "initial_entries now ((key, svc, u) # rest) acc =
    rbind (initial_entry now svc u) (\<lambda>e. initial_entries now rest (btree_insert key e acc))"

definition supervisor_activate :: "ConfigSnapshot \<Rightarrow> nat \<Rightarrow> nat \<Rightarrow> HealthSupervisor app" where
  "supervisor_activate s generation now =
    rbind (initial_entries now (snapshot_upstreams s) []) (\<lambda>entries.
      Ok \<lparr>hs_revision_id = cs_revision_id s, hs_generation = generation, hs_state = SupervisorRunning,
         hs_entries = entries, hs_next_probe_id = 0\<rparr>)"

definition carry_health :: "HealthReconciliationSnapshot \<Rightarrow> UpstreamHealthKey \<Rightarrow> HealthEntry \<Rightarrow> HealthEntry" where
  "carry_health previous key e =
    (case map_of (hrs_entries previous) key of
       None \<Rightarrow> e
     | Some prior \<Rightarrow>
         if he_endpoint e = hre_endpoint prior \<and> he_tls e = hre_tls prior \<and> he_policy e = hre_policy prior
         then e\<lparr>he_health := hre_health prior\<rparr> else e)"

definition activate_reconciled ::
  "ConfigSnapshot \<Rightarrow> nat \<Rightarrow> nat \<Rightarrow> HealthReconciliationSnapshot option \<Rightarrow> HealthSupervisor app" where
  "activate_reconciled s generation now previous =
    rbind (supervisor_activate s generation now) (\<lambda>hs.
      case previous of
        None \<Rightarrow> Ok hs
      | Some p \<Rightarrow> Ok (hs\<lparr>hs_entries := btree_map (carry_health p) (hs_entries hs)\<rparr>))"

definition availability_snapshot :: "HealthSupervisor \<Rightarrow> HealthAvailabilitySnapshot" where
  "availability_snapshot hs = \<lparr>has_revision_id = hs_revision_id hs, has_generation = hs_generation hs,
     has_entries = btree_map (\<lambda>_ e. availability_of (he_health e)) (hs_entries hs)\<rparr>"

definition reconciliation_snapshot :: "HealthSupervisor \<Rightarrow> HealthReconciliationSnapshot" where
  "reconciliation_snapshot hs = \<lparr>hrs_revision_id = hs_revision_id hs, hrs_generation = hs_generation hs,
     hrs_entries = btree_map (\<lambda>_ e. \<lparr>hre_endpoint = he_endpoint e, hre_tls = he_tls e,
       hre_policy = he_policy e, hre_health = he_health e\<rparr>) (hs_entries hs)\<rparr>"

definition reconciliation_availability :: "HealthReconciliationSnapshot \<Rightarrow> HealthAvailabilitySnapshot" where
  "reconciliation_availability r = \<lparr>has_revision_id = hrs_revision_id r, has_generation = hrs_generation r,
     has_entries = btree_map (\<lambda>_ e. availability_of (hre_health e)) (hrs_entries r)\<rparr>"

definition supervisor_availability :: "UpstreamHealthKey \<Rightarrow> HealthSupervisor \<Rightarrow> UpstreamAvailability option" where
  "supervisor_availability key hs = map_option (\<lambda>e. availability_of (he_health e)) (map_of (hs_entries hs) key)"

text \<open>Whether an entry is due, with the policy its probe uses.\<close>

definition due_policy :: "nat \<Rightarrow> HealthEntry \<Rightarrow> HttpHealthCheckPolicy option" where
  "due_policy now e =
    (case he_schedule e of
       Scheduled due \<Rightarrow> if now < due then None else he_policy e
     | _ \<Rightarrow> None)"

definition probe_request ::
  "HealthSupervisor \<Rightarrow> nat \<Rightarrow> UpstreamHealthKey \<Rightarrow> HealthEntry \<Rightarrow> HttpHealthCheckPolicy \<Rightarrow> HealthProbeRequest" where
  "probe_request hs i key e p =
    \<lparr>pr_probe_id = i, pr_revision_id = hs_revision_id hs, pr_generation = hs_generation hs, pr_key = key,
     pr_endpoint = he_endpoint e, pr_tls = he_tls e, pr_path = hp_path p, pr_timeout_ms = hp_timeout_ms p,
     pr_status_min = hp_status_min p, pr_status_max = hp_status_max p\<rparr>"

fun tick_loop ::
  "HealthSupervisor \<Rightarrow> nat \<Rightarrow> nat \<Rightarrow> (UpstreamHealthKey, HealthEntry) btree \<Rightarrow> HealthProbeRequest list \<Rightarrow> nat
    \<Rightarrow> (UpstreamHealthKey, HealthEntry) btree \<times> HealthProbeRequest list \<times> nat" where
  "tick_loop hs now max_work [] work i = ([], work, i)"
| "tick_loop hs now max_work ((key, e) # rest) work i =
    (if max_work \<le> length work then ((key, e) # rest, work, i)
     else case due_policy now e of
       None \<Rightarrow>
         (case tick_loop hs now max_work rest work i of (m, w, j) \<Rightarrow> ((key, e) # m, w, j))
     | Some p \<Rightarrow>
         (case tick_loop hs now max_work rest (work @ [probe_request hs i key e p]) (wrap64 (i + 1)) of
            (m, w, j) \<Rightarrow> ((key, e\<lparr>he_schedule := InFlight i\<rparr>) # m, w, j)))"

definition handle_tick :: "nat \<Rightarrow> nat \<Rightarrow> HealthSupervisor \<Rightarrow> HealthProbeRequest list \<times> HealthSupervisor" where
  "handle_tick now max_work hs =
    (if hs_state hs = SupervisorStopped \<or> max_work = 0 then ([], hs)
     else case tick_loop hs now max_work (hs_entries hs) [] (hs_next_probe_id hs) of
       (m, work, i) \<Rightarrow> (work, hs\<lparr>hs_entries := m, hs_next_probe_id := i\<rparr>))"

definition validate_probe_request :: "HealthProbeRequest \<Rightarrow> HealthSupervisor \<Rightarrow> (unit, ProbeResultIgnored) result" where
  "validate_probe_request r hs =
    (if hs_state hs = SupervisorStopped then Err IgnoredStopped
     else if pr_generation r \<noteq> hs_generation hs \<or> pr_revision_id r \<noteq> hs_revision_id hs then Err StaleGeneration
     else case map_of (hs_entries hs) (pr_key r) of
       None \<Rightarrow> Err UnknownUpstream
     | Some e \<Rightarrow>
         (case he_schedule e of
            InFlight i \<Rightarrow> if i = pr_probe_id r then Ok () else Err RequestMismatch
          | _ \<Rightarrow> Err NotInFlight))"

definition handle_probe_result ::
  "HealthProbeRequest \<Rightarrow> HealthObservation \<Rightarrow> nat \<Rightarrow> HealthSupervisor \<Rightarrow> HandleProbeResult \<times> HealthSupervisor" where
  "handle_probe_result r obs at hs =
    (case validate_probe_request r hs of
       Err reason \<Rightarrow> (ResultIgnored reason, hs)
     | Ok _ \<Rightarrow>
         (case map_of (hs_entries hs) (pr_key r) of
            None \<Rightarrow> (ResultIgnored UnknownUpstream, hs)
          | Some e \<Rightarrow>
              (case he_policy e of
                 None \<Rightarrow> (ResultIgnored NotInFlight, hs)
               | Some p \<Rightarrow>
                   let tr = transition_upstream_health (he_health e) obs p;
                       e = e\<lparr>he_health := tr_state tr, he_schedule := Scheduled
                         (next_probe_due_ms (pr_key r) (pr_generation r) (hp_interval_ms p) at)\<rparr>
                   in (Applied (availability_of (he_health e)) (tr_change tr),
                       hs\<lparr>hs_entries := btree_insert (pr_key r) e (hs_entries hs)\<rparr>))))"

definition handle_probe_dispatch_rejected ::
  "HealthProbeRequest \<Rightarrow> nat \<Rightarrow> HealthSupervisor \<Rightarrow> HandleProbeDispatchRejection \<times> HealthSupervisor" where
  "handle_probe_dispatch_rejected r at hs =
    (case validate_probe_request r hs of
       Err reason \<Rightarrow> (RejectionIgnored reason, hs)
     | Ok _ \<Rightarrow>
         (case map_of (hs_entries hs) (pr_key r) of
            None \<Rightarrow> (RejectionIgnored UnknownUpstream, hs)
          | Some e \<Rightarrow>
              (case he_policy e of
                 None \<Rightarrow> (RejectionIgnored NotInFlight, hs)
               | Some p \<Rightarrow>
                   let due = next_probe_due_ms (pr_key r) (pr_generation r) (hp_interval_ms p) at
                   in (Rescheduled due,
                       hs\<lparr>hs_entries := btree_insert (pr_key r) (e\<lparr>he_schedule := Scheduled due\<rparr>) (hs_entries hs)\<rparr>))))"

definition supervisor_shutdown :: "HealthSupervisor \<Rightarrow> HealthSupervisor" where
  "supervisor_shutdown hs = hs\<lparr>hs_state := SupervisorStopped,
     hs_entries := btree_map (\<lambda>_ e. e\<lparr>he_schedule := ProbeStopped\<rparr>) (hs_entries hs)\<rparr>"

section \<open>The coordinator\<close>

datatype HealthProbeSubmit = ProbeAccepted | ProbeFull | ProbeStoppedPool

datatype HealthProbeFailure =
    ProbeConnectTimeout | ProbeConnectError | ProbeWriteError | ProbeMalformedResponse
  | ProbeStatusMismatch nat | ProbeReadTimeout | ProbeResponseTooLarge | ProbeTlsProfile
  | ProbeTlsHandshake | ProbeTlsHandshakeTimeout | ProbeCancelled | ProbeInternal

datatype HealthProbeOutcome = ProbeSucceeded nat | ProbeFailed HealthProbeFailure

record HealthProbeResult =
  hpr_outcome :: HealthProbeOutcome
  hpr_duration_ms :: nat

record HealthProbeCompletion =
  hpc_request :: HealthProbeRequest
  hpc_result :: HealthProbeResult

datatype HealthRuntimeCoordinatorState = CoordinatorRunning | CoordinatorStopped

record HealthTickSummary =
  hts_requested :: nat
  hts_accepted :: nat
  hts_full :: nat
  hts_stopped :: nat

record HealthRuntimeCoordinator =
  hc_supervisor :: HealthSupervisor
  hc_state :: HealthRuntimeCoordinatorState

definition coordinator_activate_reconciled ::
  "ConfigSnapshot \<Rightarrow> nat \<Rightarrow> nat \<Rightarrow> HealthReconciliationSnapshot option \<Rightarrow> HealthRuntimeCoordinator app" where
  "coordinator_activate_reconciled s generation now previous =
    rbind (activate_reconciled s generation now previous) (\<lambda>hs.
      Ok \<lparr>hc_supervisor = hs, hc_state = CoordinatorRunning\<rparr>)"

definition coordinator_activate :: "ConfigSnapshot \<Rightarrow> nat \<Rightarrow> nat \<Rightarrow> HealthRuntimeCoordinator app" where
  "coordinator_activate s generation now = coordinator_activate_reconciled s generation now None"

definition coordinator_shutdown :: "HealthRuntimeCoordinator \<Rightarrow> HealthRuntimeCoordinator" where
  "coordinator_shutdown c =
    c\<lparr>hc_state := CoordinatorStopped, hc_supervisor := supervisor_shutdown (hc_supervisor c)\<rparr>"

fun submit_loop ::
  "nat \<Rightarrow> (nat \<Rightarrow> HealthProbeSubmit) \<Rightarrow> nat \<Rightarrow> HealthProbeRequest list \<Rightarrow> HealthTickSummary
    \<Rightarrow> HealthRuntimeCoordinator \<Rightarrow> HealthTickSummary \<times> HealthRuntimeCoordinator" where
  "submit_loop now submit n [] summary c = (summary, c)"
| "submit_loop now submit n (r # rest) summary c =
    (case submit n of
       ProbeAccepted \<Rightarrow>
         submit_loop now submit (Suc n) rest (summary\<lparr>hts_accepted := hts_accepted summary + 1\<rparr>) c
     | ProbeFull \<Rightarrow>
         submit_loop now submit (Suc n) rest (summary\<lparr>hts_full := hts_full summary + 1\<rparr>)
           (c\<lparr>hc_supervisor := snd (handle_probe_dispatch_rejected r now (hc_supervisor c))\<rparr>)
     | ProbeStoppedPool \<Rightarrow>
         (summary\<lparr>hts_stopped := hts_stopped summary + 1\<rparr>, coordinator_shutdown c))"

definition coordinator_tick ::
  "nat \<Rightarrow> nat \<Rightarrow> (nat \<Rightarrow> HealthProbeSubmit) \<Rightarrow> HealthRuntimeCoordinator
    \<Rightarrow> HealthTickSummary \<times> HealthRuntimeCoordinator" where
  "coordinator_tick now max_work submit c =
    (if hc_state c = CoordinatorStopped
     then (\<lparr>hts_requested = 0, hts_accepted = 0, hts_full = 0, hts_stopped = 0\<rparr>, c)
     else case handle_tick now max_work (hc_supervisor c) of
       (work, hs) \<Rightarrow>
         submit_loop now submit 0 work
           \<lparr>hts_requested = length work, hts_accepted = 0, hts_full = 0, hts_stopped = 0\<rparr>
           (c\<lparr>hc_supervisor := hs\<rparr>))"

definition probe_observation :: "HealthProbeOutcome \<Rightarrow> HealthObservation" where
  "probe_observation outcome = (case outcome of ProbeSucceeded _ \<Rightarrow> ObsSucceeded | ProbeFailed _ \<Rightarrow> ObsFailed)"

definition coordinator_completion ::
  "HealthProbeCompletion \<Rightarrow> nat \<Rightarrow> HealthRuntimeCoordinator \<Rightarrow> HandleProbeResult \<times> HealthRuntimeCoordinator" where
  "coordinator_completion completion at c =
    (case handle_probe_result (hpc_request completion)
            (probe_observation (hpr_outcome (hpc_result completion))) at (hc_supervisor c) of
       (out, hs) \<Rightarrow> (out, c\<lparr>hc_supervisor := hs\<rparr>))"

section \<open>Due probes\<close>

text \<open>The upstreams whose probe is due, in the order of the map.\<close>

definition is_due :: "nat \<Rightarrow> HealthEntry \<Rightarrow> bool" where
  "is_due now e \<longleftrightarrow> due_policy now e \<noteq> None"

definition due_keys :: "nat \<Rightarrow> (UpstreamHealthKey, HealthEntry) btree \<Rightarrow> UpstreamHealthKey list" where
  "due_keys now m = map fst (filter (\<lambda>(_, e). is_due now e) m)"

lemma due_keys_simps [simp]:
  "due_keys now [] = []"
  "due_keys now ((k, e) # m) = (if is_due now e then k # due_keys now m else due_keys now m)"
  by (simp_all add: due_keys_def)

lemma in_flight_not_due [simp]: "\<not> is_due now (e\<lparr>he_schedule := InFlight i\<rparr>)"
  by (simp add: is_due_def due_policy_def)

lemma later_not_due: "now < due \<Longrightarrow> \<not> is_due now (e\<lparr>he_schedule := Scheduled due\<rparr>)"
  by (simp add: is_due_def due_policy_def)

lemma stopped_not_due [simp]: "\<not> is_due now (e\<lparr>he_schedule := ProbeStopped\<rparr>)"
  by (simp add: is_due_def due_policy_def)

lemma due_keys_insert:
  assumes "btree_wf m" "map_of m k = Some e" "\<not> is_due now e" "\<not> is_due now e'"
  shows "due_keys now (btree_insert k e' m) = due_keys now m"
  using assms
proof (induction m)
  case (Cons p m)
  obtain a b where p: "p = (a, b)" by (cases p)
  have "map_of m k = Some e \<Longrightarrow> a < k"
    using Cons.prems(1) map_of_SomeD[of m k e] by (force simp: p btree_wf_def)
  then show ?case using Cons by (auto simp: p btree_wf_def split: if_splits)
qed simp

lemma due_keys_stopped [simp]:
  "due_keys now (btree_map (\<lambda>_ e. e\<lparr>he_schedule := ProbeStopped\<rparr>) m) = []"
  by (induction m) (auto simp: btree_map_def)

text \<open>The same pass without accumulators: at most \<open>n\<close> requests, the first one numbered \<open>i\<close>.\<close>

fun tick_pass ::
  "HealthSupervisor \<Rightarrow> nat \<Rightarrow> nat \<Rightarrow> (UpstreamHealthKey, HealthEntry) btree \<Rightarrow> nat
    \<Rightarrow> (UpstreamHealthKey, HealthEntry) btree \<times> HealthProbeRequest list \<times> nat" where
  "tick_pass hs now n [] i = ([], [], i)"
| "tick_pass hs now 0 (p # rest) i = (p # rest, [], i)"
| "tick_pass hs now (Suc n) ((key, e) # rest) i =
    (case due_policy now e of
       None \<Rightarrow> (case tick_pass hs now (Suc n) rest i of (m, new, j) \<Rightarrow> ((key, e) # m, new, j))
     | Some p \<Rightarrow>
         (case tick_pass hs now n rest (wrap64 (i + 1)) of
            (m, new, j) \<Rightarrow> ((key, e\<lparr>he_schedule := InFlight i\<rparr>) # m, probe_request hs i key e p # new, j)))"

lemma tick_loop_pass:
  "length work \<le> max_work \<Longrightarrow> tick_loop hs now max_work m work i =
    (case tick_pass hs now (max_work - length work) m i of (m', new, j) \<Rightarrow> (m', work @ new, j))"
proof (induction hs now max_work m work i rule: tick_loop.induct)
  case (2 hs now max_work key e rest work i)
  show ?case
  proof (cases "max_work \<le> length work")
    case False
    then obtain n where n: "max_work - length work = Suc n" "max_work - Suc (length work) = n"
      by (metis Suc_diff_Suc linorder_not_le)
    show ?thesis using 2 False n by (auto split: option.splits prod.splits)
  qed (use 2 in auto)
qed auto

lemma handle_tick_pass:
  assumes "hs_state hs = SupervisorRunning"
  shows "handle_tick now max_work hs =
    (case tick_pass hs now max_work (hs_entries hs) (hs_next_probe_id hs) of
       (m, new, j) \<Rightarrow> (new, hs\<lparr>hs_entries := m, hs_next_probe_id := j\<rparr>))"
proof (cases max_work)
  case 0
  then show ?thesis by (cases "hs_entries hs") (simp_all add: handle_tick_def)
next
  case (Suc n)
  then show ?thesis using assms by (simp add: handle_tick_def tick_loop_pass split: prod.splits)
qed

lemma tick_pass_due:
  "tick_pass hs now n m i = (m', new, j) \<Longrightarrow>
    map pr_key new = take n (due_keys now m) \<and> due_keys now m' = drop n (due_keys now m) \<and> map fst m' = map fst m"
proof (induction hs now n m i arbitrary: m' new j rule: tick_pass.induct)
  case (3 hs now n key e rest i)
  show ?case
  proof (cases "due_policy now e")
    case None
    then have "\<not> is_due now e" by (simp add: is_due_def)
    with None show ?thesis using 3 by (auto split: prod.splits)
  next
    case (Some p)
    then have "is_due now e" by (simp add: is_due_def)
    moreover have "pr_key (probe_request hs i key e p) = key" by (simp add: probe_request_def)
    ultimately show ?thesis using Some 3 by (auto split: prod.splits)
  qed
qed (auto simp: due_keys_def)

lemma tick_pass_step:
  assumes "tick_pass hs now (Suc n) ((key, e) # rest) i = (m', new, j)"
  obtains (skip) m where "due_policy now e = None" "m' = (key, e) # m" "tick_pass hs now (Suc n) rest i = (m, new, j)"
  | (dispatch) p m more_new where "due_policy now e = Some p" "m' = (key, e\<lparr>he_schedule := InFlight i\<rparr>) # m"
      "new = probe_request hs i key e p # more_new" "tick_pass hs now n rest (wrap64 (i + 1)) = (m, more_new, j)"
  using assms by (auto split: option.splits prod.splits)

lemma probe_request_simps [simp]:
  "pr_key (probe_request hs i key e p) = key" "pr_probe_id (probe_request hs i key e p) = i"
  "pr_generation (probe_request hs i key e p) = hs_generation hs"
  "pr_revision_id (probe_request hs i key e p) = hs_revision_id hs"
  by (simp_all add: probe_request_def)

text \<open>Each new request stands for an entry that was due and is now in flight under its number.\<close>

lemma tick_pass_new:
  assumes "tick_pass hs now n m i = (m', new, j)" "r \<in> set new"
  shows "\<exists>e p. (pr_key r, e) \<in> set m \<and> due_policy now e = Some p \<and>
    r = probe_request hs (pr_probe_id r) (pr_key r) e p \<and>
    (pr_key r, e\<lparr>he_schedule := InFlight (pr_probe_id r)\<rparr>) \<in> set m'"
  using assms
proof (induction hs now n m i arbitrary: m' new j rule: tick_pass.induct)
  case (3 hs now n key e rest i)
  from "3.prems"(1) show ?case
  proof (cases rule: tick_pass_step)
    case (skip m)
    from "3.IH"(1)[OF skip(1) skip(3) "3.prems"(2)] show ?thesis unfolding skip(2) by (meson list.set_intros(2))
  next
    case (dispatch p m more_new)
    show ?thesis
    proof (cases "r = probe_request hs i key e p")
      case True
      then show ?thesis using dispatch(1,2) by (intro exI[of _ e] exI[of _ p]) simp
    next
      case False
      then have "r \<in> set more_new" using "3.prems"(2) dispatch(3) by simp
      from "3.IH"(2)[OF dispatch(1,4) this] show ?thesis unfolding dispatch(2) by (meson list.set_intros(2))
    qed
  qed
qed auto

lemma tick_pass_entries:
  assumes "tick_pass hs now n m i = (m', new, j)" "(k, e') \<in> set m'"
  shows "(k, e') \<in> set m \<or> (\<exists>r e. r \<in> set new \<and> pr_key r = k \<and> (k, e) \<in> set m \<and>
    e' = e\<lparr>he_schedule := InFlight (pr_probe_id r)\<rparr>)"
  using assms
proof (induction hs now n m i arbitrary: m' new j rule: tick_pass.induct)
  case (3 hs now n key e rest i)
  from "3.prems"(1) show ?case
  proof (cases rule: tick_pass_step)
    case (skip m)
    then consider "(k, e') = (key, e)" | "(k, e') \<in> set m" using "3.prems"(2) by auto
    then show ?thesis
    proof cases
      case 2
      from "3.IH"(1)[OF skip(1) skip(3) 2] show ?thesis by (metis list.set_intros(2))
    qed simp
  next
    case (dispatch p m more_new)
    then consider "(k, e') = (key, e\<lparr>he_schedule := InFlight i\<rparr>)" | "(k, e') \<in> set m" using "3.prems"(2) by auto
    then show ?thesis
    proof cases
      case 1
      then show ?thesis unfolding dispatch(3)
        by (intro disjI2 exI[of _ "probe_request hs i key e p"] exI[of _ e]) simp
    next
      case 2
      from "3.IH"(2)[OF dispatch(1,4) 2] show ?thesis unfolding dispatch(3) by (metis list.set_intros(2))
    qed
  qed
qed auto

lemma tick_pass_keeps:
  "tick_pass hs now n m i = (m', new, j) \<Longrightarrow> (k, e) \<in> set m \<Longrightarrow> \<not> is_due now e \<Longrightarrow> (k, e) \<in> set m'"
proof (induction hs now n m i arbitrary: m' new j rule: tick_pass.induct)
  case (3 hs now n key e' rest i)
  from "3.prems"(1) show ?case
    by (cases rule: tick_pass_step) (use 3 in \<open>auto simp: is_due_def\<close>)
qed auto

lemma tick_pass_ids:
  "tick_pass hs now n m i = (m', new, j) \<Longrightarrow> i + length m \<le> usize_max \<Longrightarrow>
    map pr_probe_id new = [i..<j] \<and> i \<le> j"
proof (induction hs now n m i arbitrary: m' new j rule: tick_pass.induct)
  case (3 hs now n key e rest i)
  then have w: "wrap64 (i + 1) = i + 1" by simp
  from "3.prems"(1) show ?case
  proof (cases rule: tick_pass_step)
    case (dispatch p m more_new)
    have "map pr_probe_id more_new = [i + 1..<j] \<and> i + 1 \<le> j"
      using "3.IH"(2)[OF dispatch(1,4)] "3.prems"(2) by (simp add: w)
    then show ?thesis by (simp add: dispatch(3) upt_conv_Cons)
  qed (use 3 in auto)
qed auto

section \<open>Ticks run out of work\<close>

definition interval_ok :: "HealthEntry \<Rightarrow> bool" where
  "interval_ok e \<longleftrightarrow> (case he_policy e of None \<Rightarrow> True | Some p \<Rightarrow> 0 < hp_interval_ms p)"

abbreviation coordinator_entries :: "HealthRuntimeCoordinator \<Rightarrow> (UpstreamHealthKey, HealthEntry) btree" where
  "coordinator_entries c \<equiv> hs_entries (hc_supervisor c)"

definition coordinator_ok :: "HealthRuntimeCoordinator \<Rightarrow> bool" where
  "coordinator_ok c \<longleftrightarrow> btree_wf (coordinator_entries c) \<and>
    list_all (\<lambda>(_, e). interval_ok e) (coordinator_entries c) \<and>
    (hs_state (hc_supervisor c) = SupervisorRunning \<longleftrightarrow> hc_state c = CoordinatorRunning) \<and>
    (hc_state c = CoordinatorStopped \<longrightarrow> list_all (\<lambda>(_, e). he_schedule e = ProbeStopped) (coordinator_entries c))"

fun coordinator_ticks ::
  "nat \<Rightarrow> nat \<Rightarrow> (nat \<Rightarrow> HealthProbeSubmit) list \<Rightarrow> HealthRuntimeCoordinator \<Rightarrow> nat \<times> HealthRuntimeCoordinator" where
  "coordinator_ticks now max_work [] c = (0, c)"
| "coordinator_ticks now max_work (submit # rest) c =
    (case coordinator_tick now max_work submit c of (summary, c') \<Rightarrow>
       (case coordinator_ticks now max_work rest c' of (n, c'') \<Rightarrow> (hts_requested summary + n, c'')))"

definition awaiting :: "HealthSupervisor \<Rightarrow> HealthProbeRequest \<Rightarrow> HealthEntry \<Rightarrow> HttpHealthCheckPolicy \<Rightarrow> bool" where
  "awaiting hs r e p \<longleftrightarrow> hs_state hs = SupervisorRunning \<and> pr_generation r = hs_generation hs \<and>
    pr_revision_id r = hs_revision_id hs \<and> map_of (hs_entries hs) (pr_key r) = Some e \<and>
    he_schedule e = InFlight (pr_probe_id r) \<and> he_policy e = Some p"

lemma jitter_bound: "health_jitter_ms key g interval \<le> interval div 10"
proof -
  have "x mod saturating_add m 1 \<le> m" if "0 < m" for x m :: nat
  proof -
    have "0 < saturating_add m 1" "saturating_add m 1 \<le> m + 1"
      using that by (simp_all add: saturating_add_def usize_max_def)
    then show ?thesis using mod_less_divisor[of "saturating_add m 1" x] by linarith
  qed
  then show ?thesis by (simp add: health_jitter_ms_def Let_def)
qed

lemma next_due_later: "now < usize_max \<Longrightarrow> 0 < interval \<Longrightarrow> now < next_probe_due_ms key g interval now"
  by (simp add: next_probe_due_ms_def saturating_add_def min_def)

lemma awaiting_valid: "awaiting hs r e p \<Longrightarrow> validate_probe_request r hs = Ok ()"
  by (simp add: awaiting_def validate_probe_request_def)

lemma awaiting_rejected:
  "awaiting hs r e p \<Longrightarrow> snd (handle_probe_dispatch_rejected r now hs) =
    hs\<lparr>hs_entries := btree_insert (pr_key r)
      (e\<lparr>he_schedule := Scheduled (next_probe_due_ms (pr_key r) (pr_generation r) (hp_interval_ms p) now)\<rparr>) (hs_entries hs)\<rparr>"
  by (simp add: handle_probe_dispatch_rejected_def awaiting_valid) (simp add: awaiting_def Let_def)

lemma due_keys_all_stopped:
  "list_all (\<lambda>(_, e). he_schedule e = ProbeStopped) m \<Longrightarrow> due_keys now m = []"
  by (induction m) (auto simp: is_due_def due_policy_def)

lemma entries_all_insert:
  "list_all (\<lambda>(_, e). P e) m \<Longrightarrow> P e' \<Longrightarrow> list_all (\<lambda>(_, e). P e) (btree_insert k e' m)"
  by (induction m) (auto split: if_splits)

lemma entries_all_lookup: "list_all (\<lambda>(_, e). P e) m \<Longrightarrow> map_of m k = Some e \<Longrightarrow> P e"
  using map_of_SomeD[of m k e] by (fastforce simp: list_all_iff)

lemma interval_ok_schedule [simp]: "interval_ok (e\<lparr>he_schedule := s\<rparr>) = interval_ok e"
  by (simp add: interval_ok_def)

lemma shutdown_ok:
  assumes "coordinator_ok c"
  shows "coordinator_ok (coordinator_shutdown c)"
proof -
  have "list_all (\<lambda>(_, e). interval_ok e) m \<Longrightarrow>
      list_all (\<lambda>(_, e). interval_ok e) (btree_map (\<lambda>_ e. e\<lparr>he_schedule := ProbeStopped\<rparr>) m)"
    and "list_all (\<lambda>(_, e). he_schedule e = ProbeStopped) (btree_map (\<lambda>_ e. e\<lparr>he_schedule := ProbeStopped\<rparr>) m)"
    for m :: "(UpstreamHealthKey, HealthEntry) btree"
    by (auto simp: btree_map_def list_all_iff)
  then show ?thesis using assms
    by (simp add: coordinator_ok_def coordinator_shutdown_def supervisor_shutdown_def)
qed

lemma rejected_keeps:
  assumes c: "coordinator_ok c" "hc_state c = CoordinatorRunning" and now: "now < usize_max"
    and aw: "awaiting (hc_supervisor c) r e p"
    and c': "c' = c\<lparr>hc_supervisor := snd (handle_probe_dispatch_rejected r now (hc_supervisor c))\<rparr>"
  shows "coordinator_ok c' \<and> hc_state c' = CoordinatorRunning"
    and "due_keys now (coordinator_entries c') = due_keys now (coordinator_entries c)"
    and "pr_key q \<noteq> pr_key r \<Longrightarrow> awaiting (hc_supervisor c) q f s \<Longrightarrow> awaiting (hc_supervisor c') q f s"
proof -
  let ?due = "next_probe_due_ms (pr_key r) (pr_generation r) (hp_interval_ms p) now"
  let ?m = "btree_insert (pr_key r) (e\<lparr>he_schedule := Scheduled ?due\<rparr>) (coordinator_entries c)"
  have eq: "hc_supervisor c' = (hc_supervisor c)\<lparr>hs_entries := ?m\<rparr>" "hc_state c' = hc_state c"
    using awaiting_rejected[OF aw, of now] by (simp_all add: c')
  have wf: "btree_wf (coordinator_entries c)" and int: "interval_ok e"
    using c(1) aw by (auto simp: coordinator_ok_def awaiting_def intro: entries_all_lookup)
  have due: "now < ?due" using int aw now by (simp add: interval_ok_def awaiting_def next_due_later)
  show "coordinator_ok c' \<and> hc_state c' = CoordinatorRunning"
    using c int by (simp add: coordinator_ok_def eq btree_insert_wf entries_all_insert)
  have "\<not> is_due now e" using aw by (simp add: awaiting_def is_due_def due_policy_def)
  then show "due_keys now (coordinator_entries c') = due_keys now (coordinator_entries c)"
    using aw due_keys_insert[OF wf _ _ later_not_due[OF due]] by (simp add: eq awaiting_def)
  show "awaiting (hc_supervisor c') q f s" if "pr_key q \<noteq> pr_key r" "awaiting (hc_supervisor c) q f s"
    using that by (simp add: eq awaiting_def btree_insert_lookup[OF wf])
qed

lemma submit_loop_due:
  assumes "coordinator_ok c" "hc_state c = CoordinatorRunning" "now < usize_max"
    and "\<forall>r \<in> set work. \<exists>e p. awaiting (hc_supervisor c) r e p" "distinct (map pr_key work)"
    and "submit_loop now submit n work summary c = (summary', c')"
  shows "coordinator_ok c' \<and> hts_requested summary' = hts_requested summary \<and>
    (hc_state c' = CoordinatorRunning \<longrightarrow> due_keys now (coordinator_entries c') = due_keys now (coordinator_entries c))"
  using assms
proof (induction now submit n work summary c rule: submit_loop.induct)
  case (2 now submit n r rest summary c)
  obtain e p where aw: "awaiting (hc_supervisor c) r e p" using "2.prems"(4) by auto
  show ?case
  proof (cases "submit n")
    case ProbeAccepted
    then show ?thesis using "2.IH"(1)[OF ProbeAccepted "2.prems"(1-3)] "2.prems"(4-6) by simp
  next
    case ProbeFull
    define d where "d = c\<lparr>hc_supervisor := snd (handle_probe_dispatch_rejected r now (hc_supervisor c))\<rparr>"
    note kept = rejected_keeps[OF "2.prems"(1-3) aw d_def]
    have "\<forall>q \<in> set rest. \<exists>f s. awaiting (hc_supervisor d) q f s"
    proof
      fix q assume q: "q \<in> set rest"
      obtain f s where "awaiting (hc_supervisor c) q f s" using "2.prems"(4) q by auto
      moreover have "pr_key q \<noteq> pr_key r" using "2.prems"(5) imageI[OF q, of pr_key] by auto
      ultimately show "\<exists>f s. awaiting (hc_supervisor d) q f s" using kept(3) by blast
    qed
    then show ?thesis
      using "2.IH"(2)[OF ProbeFull, folded d_def] kept(1,2) "2.prems"(3,5,6) ProbeFull by (simp add: d_def[symmetric])
  next
    case ProbeStoppedPool
    then show ?thesis using "2.prems"(6) shutdown_ok[OF "2.prems"(1)] by (auto simp: coordinator_shutdown_def)
  qed
qed auto

lemma tick_pass_awaiting:
  assumes "tick_pass hs now n (hs_entries hs) i = (m', new, j)" "btree_wf (hs_entries hs)"
    and "hs_state hs = SupervisorRunning" "r \<in> set new"
  shows "\<exists>e p. awaiting (hs\<lparr>hs_entries := m', hs_next_probe_id := j\<rparr>) r e p"
proof -
  obtain e p where r: "due_policy now e = Some p" "r = probe_request hs (pr_probe_id r) (pr_key r) e p"
    "(pr_key r, e\<lparr>he_schedule := InFlight (pr_probe_id r)\<rparr>) \<in> set m'"
    using tick_pass_new[OF assms(1,4)] by blast
  have "btree_wf m'" using tick_pass_due[OF assms(1)] assms(2) by (simp add: btree_wf_def)
  then have "map_of m' (pr_key r) = Some (e\<lparr>he_schedule := InFlight (pr_probe_id r)\<rparr>)"
    using r(3) by (simp add: btree_lookup_mem)
  moreover have "he_policy e = Some p"
    using r(1) by (simp add: due_policy_def split: ProbeScheduleState.splits if_splits)
  moreover have "pr_generation r = hs_generation hs" "pr_revision_id r = hs_revision_id hs"
    using arg_cong[OF r(2), of pr_generation] arg_cong[OF r(2), of pr_revision_id] by simp_all
  ultimately show ?thesis using assms(3) by (simp add: awaiting_def)
qed

lemma tick_pass_ok:
  assumes "tick_pass hs now n m i = (m', new, j)" "list_all (\<lambda>(_, e). interval_ok e) m"
  shows "list_all (\<lambda>(_, e). interval_ok e) m'"
proof -
  have "interval_ok e" if "(k, e) \<in> set m" for k e using assms(2) that by (auto simp: list_all_iff)
  then have "interval_ok e" if "(k, e) \<in> set m'" for k e
    using tick_pass_entries[OF assms(1) that] by (metis interval_ok_schedule)
  then show ?thesis by (auto simp: list_all_iff)
qed

lemma coordinator_tick_due:
  assumes c: "coordinator_ok c" and now: "now < usize_max"
    and tick: "coordinator_tick now max_work submit c = (summary, c')"
  shows "coordinator_ok c'"
    and "hts_requested summary = min max_work (length (due_keys now (coordinator_entries c)))"
    and "due_keys now (coordinator_entries c') =
      (if hc_state c' = CoordinatorRunning then drop max_work (due_keys now (coordinator_entries c)) else [])"
    and "hc_state c' = CoordinatorRunning \<Longrightarrow> hc_state c = CoordinatorRunning"
proof -
  have stopped: "due_keys now (coordinator_entries d) = []" if "coordinator_ok d" "hc_state d \<noteq> CoordinatorRunning" for d
    using that by (cases "hc_state d") (simp_all add: coordinator_ok_def due_keys_all_stopped)
  show "hc_state c' = CoordinatorRunning \<Longrightarrow> hc_state c = CoordinatorRunning"
    using tick by (cases "hc_state c") (simp_all add: coordinator_tick_def)
  have "coordinator_ok c' \<and> hts_requested summary = min max_work (length (due_keys now (coordinator_entries c))) \<and>
    (hc_state c' = CoordinatorRunning \<longrightarrow>
       due_keys now (coordinator_entries c') = drop max_work (due_keys now (coordinator_entries c)))"
  proof (cases "hc_state c")
    case CoordinatorStopped
    then have "c' = c" "hts_requested summary = 0" using tick by (auto simp: coordinator_tick_def)
    then show ?thesis using c CoordinatorStopped stopped[OF c] by simp
  next
    case CoordinatorRunning
    let ?hs = "hc_supervisor c"
    have run: "hs_state ?hs = SupervisorRunning" and wf: "btree_wf (hs_entries ?hs)"
      using c CoordinatorRunning by (simp_all add: coordinator_ok_def)
    obtain m new j where pass: "tick_pass ?hs now max_work (hs_entries ?hs) (hs_next_probe_id ?hs) = (m, new, j)"
      using prod_cases3 by blast
    define d where "d = c\<lparr>hc_supervisor := ?hs\<lparr>hs_entries := m, hs_next_probe_id := j\<rparr>\<rparr>"
    note due = tick_pass_due[OF pass]
    have "btree_wf m" using due wf by (simp add: btree_wf_def)
    then have d: "coordinator_ok d" "hc_state d = CoordinatorRunning"
      using c CoordinatorRunning tick_pass_ok[OF pass] by (simp_all add: d_def coordinator_ok_def)
    have aw: "\<forall>r \<in> set new. \<exists>e p. awaiting (hc_supervisor d) r e p"
      using tick_pass_awaiting[OF pass wf run] by (simp add: d_def)
    have dist: "distinct (map pr_key new)"
      using due btree_wf_distinct[OF wf] by (simp add: due_keys_def distinct_map_filter)
    have sub: "submit_loop now submit 0 new
        \<lparr>hts_requested = length new, hts_accepted = 0, hts_full = 0, hts_stopped = 0\<rparr> d = (summary, c')"
      using tick CoordinatorRunning by (simp add: coordinator_tick_def handle_tick_pass[OF run] pass d_def)
    have "length new = min max_work (length (due_keys now (hs_entries ?hs)))"
      using arg_cong[OF conjunct1[OF due], of length] by (simp add: min.commute)
    then show ?thesis using submit_loop_due[OF d now aw dist sub] due by (simp add: d_def)
  qed
  then show "coordinator_ok c'" "hts_requested summary = min max_work (length (due_keys now (coordinator_entries c)))"
    "due_keys now (coordinator_entries c') =
      (if hc_state c' = CoordinatorRunning then drop max_work (due_keys now (coordinator_entries c)) else [])"
    using stopped[of c'] by simp_all
qed

lemma ticks_stay_stopped:
  "coordinator_ticks now max_work answers c = (n, c') \<Longrightarrow> hc_state c \<noteq> CoordinatorRunning \<Longrightarrow>
    hc_state c' \<noteq> CoordinatorRunning"
proof (induction answers arbitrary: c n)
  case (Cons submit answers)
  then have "hc_state c = CoordinatorStopped" by (cases "hc_state c") simp_all
  then show ?case using Cons by (auto simp: coordinator_tick_def split: prod.splits)
qed auto

text \<open>
  C18: Ticks run out of work. Any number of ticks at one time, whatever the worker pool answers, offers each
  due probe at most once, and after enough ticks for the bound on work none is due any more; as long as
  the pool has not stopped, the probes offered and those still due are exactly the ones that were due. A
  probe the full pool refuses is not offered again at that time.\<close>

theorem due_work_runs_out:
  assumes "coordinator_ok c" "now < usize_max" "coordinator_ticks now max_work answers c = (requested, c')"
  shows "length (due_keys now (coordinator_entries c')) + requested \<le> length (due_keys now (coordinator_entries c)) \<and>
    (length (due_keys now (coordinator_entries c)) \<le> length answers * max_work \<longrightarrow>
      due_keys now (coordinator_entries c') = []) \<and>
    (hc_state c' = CoordinatorRunning \<longrightarrow>
      requested + length (due_keys now (coordinator_entries c')) = length (due_keys now (coordinator_entries c)))"
proof -
  have "length (due_keys now (coordinator_entries c')) \<le> length (due_keys now (coordinator_entries c)) - length answers * max_work \<and>
    length (due_keys now (coordinator_entries c')) + requested \<le> length (due_keys now (coordinator_entries c)) \<and>
    (hc_state c' = CoordinatorRunning \<longrightarrow>
      requested + length (due_keys now (coordinator_entries c')) = length (due_keys now (coordinator_entries c)))"
    using assms
  proof (induction answers arbitrary: c requested)
    case (Cons submit answers)
    obtain summary d where tick: "coordinator_tick now max_work submit c = (summary, d)" by fastforce
    obtain n where rest: "coordinator_ticks now max_work answers d = (n, c')" "requested = hts_requested summary + n"
      using Cons.prems(3) by (auto simp: tick split: prod.splits)
    note d = coordinator_tick_due[OF Cons.prems(1,2) tick]
    have len: "length (due_keys now (coordinator_entries d)) \<le> length (due_keys now (coordinator_entries c)) - max_work"
      "hc_state d = CoordinatorRunning \<Longrightarrow>
        length (due_keys now (coordinator_entries d)) = length (due_keys now (coordinator_entries c)) - max_work"
      using d(3) by simp_all
    have stay: "hc_state c' = CoordinatorRunning \<Longrightarrow> hc_state d = CoordinatorRunning"
      using rest(1) ticks_stay_stopped by blast
    note IH = Cons.IH[OF d(1) Cons.prems(2) rest(1)]
    show ?case
    proof (intro conjI impI)
      show "length (due_keys now (coordinator_entries c'))
          \<le> length (due_keys now (coordinator_entries c)) - length (submit # answers) * max_work"
        using conjunct1[OF IH] len(1) by simp
      show "length (due_keys now (coordinator_entries c')) + requested \<le> length (due_keys now (coordinator_entries c))"
        using conjunct1[OF conjunct2[OF IH]] len(1) d(2) rest(2) by linarith
      assume run: "hc_state c' = CoordinatorRunning"
      show "requested + length (due_keys now (coordinator_entries c')) = length (due_keys now (coordinator_entries c))"
        using mp[OF conjunct2[OF conjunct2[OF IH]] run] len(2)[OF stay[OF run]] d(2) rest(2) by linarith
    qed
  qed simp
  then show ?thesis by auto
qed

definition sample_coordinator :: HealthRuntimeCoordinator where
  "sample_coordinator = \<lparr>hc_supervisor = \<lparr>hs_revision_id = ''r1'', hs_generation = 1, hs_state = SupervisorRunning,
     hs_entries = map (\<lambda>u. ((''api'', u), \<lparr>he_endpoint = \<lparr>ue_scheme = HttpScheme, ue_host = ''10.0.0.1'',
         ue_port = 80, ue_base_path = ''/'', ue_ipv6 = False\<rparr>,
       he_tls = TlsDisabled, he_policy = Some sample_health_policy, he_health = Unknown 0 0,
       he_schedule = Scheduled 5\<rparr>)) [''a'', ''b'', ''c''],
     hs_next_probe_id = 0\<rparr>, hc_state = CoordinatorRunning\<rparr>"

theorem due_work_runs_out_witness:
  "due_keys 5 (coordinator_entries sample_coordinator) = [(''api'', ''a''), (''api'', ''b''), (''api'', ''c'')] \<and>
   due_keys 5 (coordinator_entries (snd (coordinator_ticks 5 2 [\<lambda>_. ProbeFull, \<lambda>_. ProbeAccepted] sample_coordinator))) = []"
proof -
  have ok: "coordinator_ok sample_coordinator" by code_simp
  have due: "due_keys 5 (coordinator_entries sample_coordinator) = [(''api'', ''a''), (''api'', ''b''), (''api'', ''c'')]"
    by code_simp
  have now: "5 < usize_max" by (simp add: usize_max_def)
  show ?thesis
    using due_work_runs_out[OF ok now prod.collapse[symmetric], of 2 "[\<lambda>_. ProbeFull, \<lambda>_. ProbeAccepted]"] due by simp
qed

section \<open>The fence around results\<close>

text \<open>
  What can happen to one supervisor: \<open>issued\<close> are the requests it ever handed out and \<open>out\<close> those not
  settled yet. Workers return requests they were given, by this supervisor or by one of another
  generation, in any order and any number of times. The 64-bit probe numbers do not come around.
\<close>

definition known_request :: "HealthSupervisor \<Rightarrow> HealthProbeRequest set \<Rightarrow> HealthProbeRequest \<Rightarrow> bool" where
  "known_request hs issued r \<longleftrightarrow> r \<in> issued \<or> pr_generation r \<noteq> hs_generation hs"

inductive probe_reach :: "HealthSupervisor \<Rightarrow> HealthProbeRequest set \<Rightarrow> HealthProbeRequest set \<Rightarrow> bool" where
  reach_activate: "activate_reconciled s g now previous = Ok hs \<Longrightarrow> probe_reach hs {} {}"
| reach_tick: "\<lbrakk>probe_reach hs issued out; hs_next_probe_id hs + length (hs_entries hs) \<le> usize_max;
    handle_tick now max_work hs = (work, hs')\<rbrakk> \<Longrightarrow> probe_reach hs' (issued \<union> set work) (out \<union> set work)"
| reach_result: "\<lbrakk>probe_reach hs issued out; known_request hs issued r\<rbrakk>
    \<Longrightarrow> probe_reach (snd (handle_probe_result r obs at hs)) issued (out - {r})"
| reach_rejected: "\<lbrakk>probe_reach hs issued out; known_request hs issued r\<rbrakk>
    \<Longrightarrow> probe_reach (snd (handle_probe_dispatch_rejected r at hs)) issued (out - {r})"
| reach_shutdown: "probe_reach hs issued out \<Longrightarrow> probe_reach (supervisor_shutdown hs) issued {}"

definition all_in_flight :: "HealthSupervisor \<Rightarrow> HealthProbeRequest set \<Rightarrow> bool" where
  "all_in_flight hs out \<longleftrightarrow> (\<forall>r \<in> out. \<exists>e p. awaiting hs r e p) \<and>
    (\<forall>k e i. map_of (hs_entries hs) k = Some e \<longrightarrow> he_schedule e = InFlight i \<longrightarrow>
      (\<exists>r \<in> out. pr_key r = k \<and> pr_probe_id r = i))"

definition probe_inv :: "HealthSupervisor \<Rightarrow> HealthProbeRequest set \<Rightarrow> HealthProbeRequest set \<Rightarrow> bool" where
  "probe_inv hs issued out \<longleftrightarrow> btree_wf (hs_entries hs) \<and> out \<subseteq> issued \<and> inj_on pr_probe_id issued \<and>
    (\<forall>r \<in> issued. pr_generation r = hs_generation hs \<and> pr_revision_id r = hs_revision_id hs \<and>
      pr_probe_id r < hs_next_probe_id hs) \<and>
    (if hs_state hs = SupervisorRunning then all_in_flight hs out else out = {})"

lemma all_in_flightD:
  assumes "all_in_flight hs out"
  shows "r \<in> out \<Longrightarrow> \<exists>e p. awaiting hs r e p"
    and "map_of (hs_entries hs) k = Some e \<Longrightarrow> he_schedule e = InFlight i \<Longrightarrow>
      \<exists>r \<in> out. pr_key r = k \<and> pr_probe_id r = i"
  using assms unfolding all_in_flight_def by metis+

lemma out_running:
  assumes "probe_inv hs issued out" "r \<in> out"
  shows "hs_state hs = SupervisorRunning" "all_in_flight hs out"
  using assms unfolding probe_inv_def by (metis empty_iff)+

lemma valid_iff_out:
  assumes inv: "probe_inv hs issued out" and known: "known_request hs issued r"
  shows "validate_probe_request r hs = Ok () \<longleftrightarrow> r \<in> out"
proof
  assume "r \<in> out"
  then obtain e p where "awaiting hs r e p" using all_in_flightD(1)[OF out_running(2)[OF inv]] by metis
  then show "validate_probe_request r hs = Ok ()" by (rule awaiting_valid)
next
  assume valid: "validate_probe_request r hs = Ok ()"
  then obtain e where e: "hs_state hs = SupervisorRunning" "pr_generation r = hs_generation hs"
    "map_of (hs_entries hs) (pr_key r) = Some e" "he_schedule e = InFlight (pr_probe_id r)"
    by (cases "hs_state hs")
      (auto simp: validate_probe_request_def split: if_splits option.splits ProbeScheduleState.splits)
  then have fl: "all_in_flight hs out" using inv by (simp add: probe_inv_def)
  obtain q where q: "q \<in> out" "pr_probe_id q = pr_probe_id r" using all_in_flightD(2)[OF fl e(3,4)] by metis
  have "r \<in> issued" using known e(2) by (simp add: known_request_def)
  moreover have "q \<in> issued" "inj_on pr_probe_id issued" using q(1) inv by (auto simp: probe_inv_def)
  ultimately show "r \<in> out" using q by (metis inj_onD)
qed

lemma one_probe_per_upstream:
  assumes "probe_inv hs issued out"
  shows "inj_on pr_key out"
proof (rule inj_onI)
  fix r q assume rq: "r \<in> out" "q \<in> out" "pr_key r = pr_key q"
  note fl = out_running(2)[OF assms rq(1)]
  obtain e p f s where "awaiting hs r e p" "awaiting hs q f s"
    using all_in_flightD(1)[OF fl] rq(1,2) by metis
  then have "pr_probe_id r = pr_probe_id q" using rq(3) by (simp add: awaiting_def)
  then show "r = q" using assms rq(1,2) unfolding probe_inv_def by (metis inj_onD subsetD)
qed

lemma settle_inv:
  assumes inv: "probe_inv hs issued out" and r: "r \<in> out" and e': "he_schedule e' = Scheduled due"
  shows "probe_inv (hs\<lparr>hs_entries := btree_insert (pr_key r) e' (hs_entries hs)\<rparr>) issued (out - {r})"
proof -
  let ?hs = "hs\<lparr>hs_entries := btree_insert (pr_key r) e' (hs_entries hs)\<rparr>"
  have wf: "btree_wf (hs_entries hs)" using inv by (simp add: probe_inv_def)
  note lookup = btree_insert_lookup[OF wf]
  note run = out_running(1)[OF inv r] and fl = out_running(2)[OF inv r]
  have "\<exists>f p. awaiting ?hs q f p" if q: "q \<in> out - {r}" for q
  proof -
    have "pr_key q \<noteq> pr_key r" using one_probe_per_upstream[OF inv] q r by (metis DiffE inj_onD singletonI)
    moreover obtain f p where "awaiting hs q f p" using all_in_flightD(1)[OF fl] q by blast
    ultimately show ?thesis by (auto simp: awaiting_def lookup)
  qed
  moreover have "\<exists>q \<in> out - {r}. pr_key q = k \<and> pr_probe_id q = i"
    if k: "map_of (btree_insert (pr_key r) e' (hs_entries hs)) k = Some f" "he_schedule f = InFlight i" for k f i
  proof -
    have ne: "k \<noteq> pr_key r" using k e' by (auto simp: lookup)
    then have "map_of (hs_entries hs) k = Some f" using k(1) by (simp add: lookup)
    from all_in_flightD(2)[OF fl this k(2)] show ?thesis using ne by blast
  qed
  ultimately have "all_in_flight ?hs (out - {r})" by (simp add: all_in_flight_def)
  then show ?thesis using inv run by (auto simp: probe_inv_def btree_insert_wf)
qed

lemma inj_on_ids:
  assumes "inj_on f A" "\<forall>x \<in> A. f x < i" "map f xs = [i..<j]"
  shows "inj_on f (A \<union> set xs)"
proof -
  have "distinct (map f xs)" "set (map f xs) = {i..<j}" using assms(3) by simp_all
  then have "inj_on f (set xs)" "f ` set xs = {i..<j}" by (simp_all add: distinct_map)
  moreover have "f ` A \<inter> {i..<j} = {}" using assms(2) by auto
  ultimately show ?thesis using assms(1) by (auto simp: inj_on_Un)
qed

lemma tick_inv:
  assumes inv: "probe_inv hs issued out" and ids: "hs_next_probe_id hs + length (hs_entries hs) \<le> usize_max"
    and run: "hs_state hs = SupervisorRunning" and tick: "handle_tick now max_work hs = (work, hs')"
  shows "probe_inv hs' (issued \<union> set work) (out \<union> set work)"
proof -
  obtain m new j where pass: "tick_pass hs now max_work (hs_entries hs) (hs_next_probe_id hs) = (m, new, j)"
    using prod_cases3 by blast
  have eq: "work = new" "hs' = hs\<lparr>hs_entries := m, hs_next_probe_id := j\<rparr>"
    using tick by (simp_all add: handle_tick_pass[OF run] pass)
  have wf: "btree_wf (hs_entries hs)" and fl: "all_in_flight hs out" using inv run by (simp_all add: probe_inv_def)
  have wfm: "btree_wf m" using tick_pass_due[OF pass] wf by (simp add: btree_wf_def)
  note aw_new = tick_pass_awaiting[OF pass wf run, folded eq(2)]
  have "\<exists>e p. awaiting hs' r e p" if "r \<in> out" for r
  proof -
    obtain e p where aw: "awaiting hs r e p" using all_in_flightD(1)[OF fl \<open>r \<in> out\<close>] by metis
    then have "\<not> is_due now e" "(pr_key r, e) \<in> set (hs_entries hs)"
      by (simp_all add: awaiting_def is_due_def due_policy_def btree_lookup_mem[OF wf])
    then have "(pr_key r, e) \<in> set m" using tick_pass_keeps[OF pass] by blast
    then show ?thesis using aw by (auto simp: awaiting_def eq(2) btree_lookup_mem[OF wfm])
  qed
  moreover have "\<exists>r \<in> out \<union> set new. pr_key r = k \<and> pr_probe_id r = i"
    if k: "map_of m k = Some f" "he_schedule f = InFlight i" for k f i
  proof -
    have "(k, f) \<in> set m" using k(1) by (simp add: btree_lookup_mem[OF wfm])
    from tick_pass_entries[OF pass this] consider "map_of (hs_entries hs) k = Some f"
      | r e where "r \<in> set new" "pr_key r = k" "f = e\<lparr>he_schedule := InFlight (pr_probe_id r)\<rparr>"
      using btree_lookup_mem[OF wf] by metis
    then show ?thesis
    proof cases
      case 1
      from all_in_flightD(2)[OF fl this k(2)] show ?thesis by blast
    next
      case 2
      then show ?thesis using k(2) by (intro bexI[of _ r]) simp_all
    qed
  qed
  ultimately have "all_in_flight hs' (out \<union> set new)"
    using aw_new by (auto simp: all_in_flight_def eq(2))
  moreover note ids_new = tick_pass_ids[OF pass ids]
  moreover have "pr_generation r = hs_generation hs \<and> pr_revision_id r = hs_revision_id hs" if "r \<in> set new" for r
    using aw_new[OF that] by (auto simp: awaiting_def eq(2))
  moreover have "inj_on pr_probe_id (issued \<union> set new)"
    using inv ids_new by (intro inj_on_ids) (auto simp: probe_inv_def)
  moreover have "pr_probe_id r < j" if "r \<in> set new" for r
    using conjunct1[OF ids_new] that by (metis atLeastLessThan_iff imageI list.set_map set_upt)
  ultimately show ?thesis using inv run wfm
    unfolding probe_inv_def eq by (auto dest: order_less_le_trans)
qed

lemma initial_entries_all:
  assumes "initial_entries now us acc = Ok m" "btree_wf acc" "list_all (\<lambda>(_, e). P e) acc"
    and "\<And>key svc u e. (key, svc, u) \<in> set us \<Longrightarrow> initial_entry now svc u = Ok e \<Longrightarrow> P e"
  shows "btree_wf m \<and> list_all (\<lambda>(_, e). P e) m"
  using assms
proof (induction now us acc rule: initial_entries.induct)
  case (2 now key svc u rest acc)
  then obtain e where e: "initial_entry now svc u = Ok e" "initial_entries now rest (btree_insert key e acc) = Ok m"
    by (cases "initial_entry now svc u") auto
  have "P e" using "2.prems"(4)[of key svc u e] e(1) by simp
  then have "btree_wf (btree_insert key e acc)" "list_all (\<lambda>(_, e). P e) (btree_insert key e acc)"
    using "2.prems"(2,3) by (simp_all add: btree_insert_wf entries_all_insert)
  from "2.IH"[OF e(2) this] show ?case using "2.prems"(4) by (meson list.set_intros(2))
qed simp

lemma carried_fields [simp]:
  "he_schedule (carry_health p k e) = he_schedule e" "he_policy (carry_health p k e) = he_policy e"
  "he_endpoint (carry_health p k e) = he_endpoint e" "he_tls (carry_health p k e) = he_tls e"
  by (simp_all add: carry_health_def split: option.splits)

lemma activated_all:
  assumes "activate_reconciled s g now previous = Ok hs"
    and "\<And>key svc u e. (key, svc, u) \<in> set (snapshot_upstreams s) \<Longrightarrow> initial_entry now svc u = Ok e \<Longrightarrow> P e"
    and "\<And>p k e. P (carry_health p k e) = P e"
  shows "btree_wf (hs_entries hs) \<and> list_all (\<lambda>(_, e). P e) (hs_entries hs) \<and> hs_state hs = SupervisorRunning"
proof -
  obtain m where m: "initial_entries now (snapshot_upstreams s) [] = Ok m"
    "hs_entries hs = (case previous of None \<Rightarrow> m | Some p \<Rightarrow> btree_map (carry_health p) m)" "hs_state hs = SupervisorRunning"
    using assms(1) by (cases "initial_entries now (snapshot_upstreams s) []")
      (auto simp: activate_reconciled_def supervisor_activate_def split: option.splits)
  have "btree_wf m \<and> list_all (\<lambda>(_, e). P e) m" by (rule initial_entries_all[OF m(1)]) (use assms(2) in auto)
  moreover have "list_all (\<lambda>(_, e). P e) (btree_map (carry_health p) m) = list_all (\<lambda>(_, e). P e) m" for p
    by (induction m) (auto simp: btree_map_def assms(3))
  ultimately show ?thesis using m(2,3) by (simp split: option.splits)
qed

lemma initial_entry_fields:
  "initial_entry now svc u = Ok e \<Longrightarrow> he_schedule e \<noteq> InFlight i \<and>
    (he_policy e = Some p \<longrightarrow> sp_health_check (svc_policy svc) = HttpCheck p)"
  by (auto simp: initial_entry_def split: HealthCheckPolicy.splits result.splits if_splits)

lemma probe_reach_inv: "probe_reach hs issued out \<Longrightarrow> probe_inv hs issued out"
proof (induction rule: probe_reach.induct)
  case (reach_activate s g now previous hs)
  note act = activated_all[OF reach_activate, of "\<lambda>e. \<forall>i. he_schedule e \<noteq> InFlight i"]
  have "btree_wf (hs_entries hs) \<and> list_all (\<lambda>(_, e). \<forall>i. he_schedule e \<noteq> InFlight i) (hs_entries hs) \<and>
      hs_state hs = SupervisorRunning"
    by (rule act) (simp_all add: initial_entry_fields)
  then show ?case using entries_all_lookup[of "\<lambda>e. \<forall>i. he_schedule e \<noteq> InFlight i" "hs_entries hs"]
    by (simp add: probe_inv_def all_in_flight_def)
next
  case (reach_tick hs issued out now max_work work hs')
  show ?case
  proof (cases "hs_state hs")
    case SupervisorRunning
    from tick_inv[OF reach_tick.IH reach_tick.hyps(2) this reach_tick.hyps(3)] show ?thesis .
  next
    case SupervisorStopped
    then have "work = []" "hs' = hs" using reach_tick.hyps(3) by (simp_all add: handle_tick_def)
    then show ?thesis using reach_tick.IH by simp
  qed
next
  case (reach_result hs issued out r obs at)
  note valid = valid_iff_out[OF reach_result.IH reach_result.hyps(2)]
  show ?case
  proof (cases "r \<in> out")
    case True
    obtain e p where aw: "awaiting hs r e p"
      using all_in_flightD(1)[OF out_running(2)[OF reach_result.IH True] True] by metis
    show ?thesis using aw settle_inv[OF reach_result.IH True]
      by (simp add: handle_probe_result_def awaiting_valid[OF aw] Let_def awaiting_def)
  next
    case False
    then show ?thesis using valid reach_result.IH
      by (cases "validate_probe_request r hs") (simp_all add: handle_probe_result_def)
  qed
next
  case (reach_rejected hs issued out r at)
  note valid = valid_iff_out[OF reach_rejected.IH reach_rejected.hyps(2)]
  show ?case
  proof (cases "r \<in> out")
    case True
    obtain e p where aw: "awaiting hs r e p"
      using all_in_flightD(1)[OF out_running(2)[OF reach_rejected.IH True] True] by metis
    show ?thesis using settle_inv[OF reach_rejected.IH True] by (simp add: awaiting_rejected[OF aw])
  next
    case False
    then show ?thesis using valid reach_rejected.IH
      by (cases "validate_probe_request r hs") (simp_all add: handle_probe_dispatch_rejected_def)
  qed
next
  case (reach_shutdown hs issued out)
  then show ?case by (simp add: probe_inv_def supervisor_shutdown_def)
qed

text \<open>
  C14: Probe results are fenced. Of all requests workers can return (its own, repeated or late, or those
  of another generation) a supervisor applies a result exactly when the request is outstanding, ignores
  every other one without a change, and has at most one probe outstanding per upstream.\<close>

theorem results_are_fenced:
  assumes "probe_reach hs issued out" "known_request hs issued r"
  shows "((\<exists>a change. fst (handle_probe_result r obs at hs) = Applied a change) \<longleftrightarrow> r \<in> out) \<and>
    (r \<notin> out \<longrightarrow> snd (handle_probe_result r obs at hs) = hs) \<and> inj_on pr_key out"
proof -
  note inv = probe_reach_inv[OF assms(1)]
  note valid = valid_iff_out[OF inv assms(2)]
  have "\<exists>a change. fst (handle_probe_result r obs at hs) = Applied a change" if r: "r \<in> out"
  proof -
    obtain e p where aw: "awaiting hs r e p" using all_in_flightD(1)[OF out_running(2)[OF inv r] r] by metis
    then show ?thesis by (simp add: handle_probe_result_def awaiting_valid[OF aw] Let_def awaiting_def)
  qed
  moreover have "\<exists>why. handle_probe_result r obs at hs = (ResultIgnored why, hs)" if "r \<notin> out"
    using valid that by (cases "validate_probe_request r hs") (simp_all add: handle_probe_result_def)
  ultimately show ?thesis using one_probe_per_upstream[OF inv] by force
qed

definition sample_config :: ConfigSnapshot where
  "sample_config = (sample_snapshot Active)\<lparr>cs_services := [sample_service]\<rparr>"

definition sample_probe :: HealthProbeRequest where
  "sample_probe = \<lparr>pr_probe_id = 0, pr_revision_id = ''r1'', pr_generation = 1, pr_key = (''svc'', ''a''),
     pr_endpoint = \<lparr>ue_scheme = HttpScheme, ue_host = ''10.0.0.1'', ue_port = 8080, ue_base_path = [], ue_ipv6 = False\<rparr>,
     pr_tls = TlsDisabled, pr_path = hp_path sample_health_policy, pr_timeout_ms = hp_timeout_ms sample_health_policy,
     pr_status_min = hp_status_min sample_health_policy, pr_status_max = hp_status_max sample_health_policy\<rparr>"

definition sample_supervisor :: HealthSupervisor where
  "sample_supervisor = (case supervisor_activate sample_config 1 5 of Ok hs \<Rightarrow> snd (handle_tick 5 1 hs))"

theorem results_are_fenced_witness:
  "(\<exists>a change. fst (handle_probe_result sample_probe ObsFailed 9 sample_supervisor) = Applied a change) \<and>
   snd (handle_probe_result (sample_probe\<lparr>pr_generation := 7\<rparr>) ObsFailed 9 sample_supervisor) = sample_supervisor"
proof -
  obtain hs where hs: "supervisor_activate sample_config 1 5 = Ok hs"
    and tick: "handle_tick 5 1 hs = ([sample_probe], sample_supervisor)"
    and ids: "hs_next_probe_id hs + length (hs_entries hs) \<le> usize_max"
  proof -
    have "case supervisor_activate sample_config 1 5 of Err _ \<Rightarrow> False
      | Ok hs \<Rightarrow> handle_tick 5 1 hs = ([sample_probe], sample_supervisor) \<and>
          hs_next_probe_id hs + length (hs_entries hs) \<le> usize_max" by code_simp
    then show ?thesis using that by (cases "supervisor_activate sample_config 1 5") auto
  qed
  have "activate_reconciled sample_config 1 5 None = Ok hs" unfolding activate_reconciled_def hs by simp
  from reach_tick[OF reach_activate[OF this] ids tick]
  have reach: "probe_reach sample_supervisor {sample_probe} {sample_probe}" by simp
  have gen: "hs_generation sample_supervisor = 1" by code_simp
  have "sample_probe\<lparr>pr_generation := 7\<rparr> \<noteq> sample_probe" by (simp add: sample_probe_def)
  with results_are_fenced[OF reach, of sample_probe ObsFailed 9]
    results_are_fenced[OF reach, of "sample_probe\<lparr>pr_generation := 7\<rparr>" ObsFailed 9]
  show ?thesis by (simp add: known_request_def gen)
qed

section \<open>The invariant of the coordinator\<close>

lemma activate_ok:
  assumes "coordinator_activate_reconciled s g now previous = Ok c"
    and "\<And>key svc u p. (key, svc, u) \<in> set (snapshot_upstreams s) \<Longrightarrow> sp_health_check (svc_policy svc) = HttpCheck p \<Longrightarrow>
      0 < hp_interval_ms p"
  shows "coordinator_ok c"
proof -
  obtain hs where hs: "activate_reconciled s g now previous = Ok hs" "c = \<lparr>hc_supervisor = hs, hc_state = CoordinatorRunning\<rparr>"
    using assms(1) by (auto simp: coordinator_activate_reconciled_def rbind_Ok_iff)
  have "btree_wf (hs_entries hs) \<and> list_all (\<lambda>(_, e). interval_ok e) (hs_entries hs) \<and> hs_state hs = SupervisorRunning"
    by (rule activated_all[OF hs(1)])
      (use assms(2) in \<open>auto simp: interval_ok_def dest: initial_entry_fields split: option.splits\<close>)
  then show ?thesis by (simp add: coordinator_ok_def hs(2))
qed

lemma interval_ok_health [simp]: "interval_ok (e\<lparr>he_health := h\<rparr>) = interval_ok e"
  by (simp add: interval_ok_def)

lemma completion_ok:
  assumes "coordinator_ok c" "hc_state c = CoordinatorRunning"
  shows "coordinator_ok (snd (coordinator_completion completion at c))"
proof -
  have ins: "coordinator_ok (c\<lparr>hc_supervisor := (hc_supervisor c)\<lparr>hs_entries := btree_insert k e' (coordinator_entries c)\<rparr>\<rparr>)"
    if "interval_ok e'" for k e'
    using assms that by (simp add: coordinator_ok_def btree_insert_wf entries_all_insert)
  have look: "interval_ok e" if "map_of (coordinator_entries c) k = Some e" for k e
    using assms(1) entries_all_lookup[OF _ that, of interval_ok] by (simp add: coordinator_ok_def)
  show ?thesis using assms(1)
    by (simp add: coordinator_completion_def handle_probe_result_def Let_def ins look
      split: result.splits option.splits prod.splits)
qed

text \<open>A settled probe is not due again before its interval has passed, nor more than a tenth of it later.\<close>

lemma next_due_bounds:
  assumes "at + interval + interval div 10 \<le> usize_max"
  shows "at + interval \<le> next_probe_due_ms key g interval at"
    and "next_probe_due_ms key g interval at \<le> at + interval + interval div 10"
  using assms jitter_bound[of key g interval] by (simp_all add: next_probe_due_ms_def saturating_add_def)

text \<open>Reconciliation keeps the health of a target exactly when endpoint, TLS profile and policy are the same.\<close>

lemma reconciled_health:
  assumes "supervisor_activate s g now = Ok fresh" "activate_reconciled s g now (Some p) = Ok hs"
    and "map_of (hs_entries fresh) k = Some e" "map_of (hrs_entries p) k = Some prior"
  shows "map_of (hs_entries hs) k = Some (if he_endpoint e = hre_endpoint prior \<and> he_tls e = hre_tls prior \<and>
      he_policy e = hre_policy prior then e\<lparr>he_health := hre_health prior\<rparr> else e)"
  using assms by (auto simp: activate_reconciled_def btree_map_lookup carry_health_def)

end
