(* ===== verification/PassiveHealth.thy ===== *)
theory PassiveHealth
  imports HealthSupervisor
begin

text \<open>
  The passive supervisor of \<^verbatim>\<open>edge-application\<close> (\<^verbatim>\<open>passive_health.rs\<close>): transport outcomes fold into
  one ejection state per target, and the availability that selection reads is the active one with
  draining and ejected targets marked unhealthy.
\<close>

section \<open>The passive supervisor\<close>

datatype PassiveFailureReason =
    PassiveConnect | PassiveConnectTimeout | PassiveWrite | PassiveRead | PassiveReadTimeout
  | PassiveResetBeforeResponse

datatype PassiveObservationOutcome = PassiveOk | PassiveFailure PassiveFailureReason

record PassiveObservation =
  po_revision_id :: string
  po_generation :: nat
  po_key :: UpstreamHealthKey
  po_outcome :: PassiveObservationOutcome
  po_observed_at_ms :: nat

datatype PassiveObservationSubmit = ObservationAccepted | ObservationFull | ObservationStopped

datatype PassiveObservationDeliveryState = DeliveryHealthy | DeliveryDegraded

datatype PassiveObservationDeliveryChange = DeliveryUnchanged | DeliveryNowDegraded | DeliveryRecovered

definition transition_passive_observation_delivery ::
  "PassiveObservationDeliveryState \<Rightarrow> PassiveObservationSubmit
    \<Rightarrow> PassiveObservationDeliveryChange \<times> PassiveObservationDeliveryState" where
  "transition_passive_observation_delivery state submitted =
    (if state = DeliveryHealthy \<and> submitted \<noteq> ObservationAccepted then (DeliveryNowDegraded, DeliveryDegraded)
     else if state = DeliveryDegraded \<and> submitted = ObservationAccepted then (DeliveryRecovered, DeliveryHealthy)
     else (DeliveryUnchanged, state))"

datatype PassiveObservationIgnored =
  PassiveStaleRevision | PassiveStaleGeneration | PassiveUnknownUpstream | PassiveIgnoredDisabled

datatype HandlePassiveObservation =
  PassiveApplied PassiveHealthState | PassiveIgnored PassiveObservationIgnored

record PassiveTarget =
  pt_policy :: PassiveHealthPolicy
  pt_state :: PassiveHealthState

record PassiveHealthSupervisor =
  ph_revision_id :: string
  ph_generation :: nat
  ph_targets :: "(UpstreamHealthKey, PassiveTarget) btree"

definition passive_new :: "string \<Rightarrow> nat \<Rightarrow> PassiveHealthSupervisor" where
  "passive_new revision_id generation =
    \<lparr>ph_revision_id = revision_id, ph_generation = generation, ph_targets = []\<rparr>"

definition passive_register ::
  "UpstreamHealthKey \<Rightarrow> PassiveHealthPolicy \<Rightarrow> bool \<Rightarrow> PassiveHealthSupervisor \<Rightarrow> PassiveHealthSupervisor" where
  "passive_register key policy enabled ph =
    ph\<lparr>ph_targets := btree_insert key
      \<lparr>pt_policy = policy, pt_state = (if enabled then Observing 0 else PassiveOff)\<rparr> (ph_targets ph)\<rparr>"

definition passive_event :: "PassiveObservation \<Rightarrow> PassiveHealthEvent" where
  "passive_event obs =
    (case po_outcome obs of PassiveOk \<Rightarrow> PassiveSucceeded | PassiveFailure _ \<Rightarrow> PassiveFailed (po_observed_at_ms obs))"

definition passive_handle ::
  "PassiveObservation \<Rightarrow> PassiveHealthSupervisor \<Rightarrow> HandlePassiveObservation \<times> PassiveHealthSupervisor" where
  "passive_handle obs ph =
    (if po_revision_id obs \<noteq> ph_revision_id ph then (PassiveIgnored PassiveStaleRevision, ph)
     else if po_generation obs \<noteq> ph_generation ph then (PassiveIgnored PassiveStaleGeneration, ph)
     else case map_of (ph_targets ph) (po_key obs) of
       None \<Rightarrow> (PassiveIgnored PassiveUnknownUpstream, ph)
     | Some t \<Rightarrow>
         if pt_state t = PassiveOff then (PassiveIgnored PassiveIgnoredDisabled, ph)
         else
           let state = transition_passive_health (pt_state t) (passive_event obs) (pt_policy t)
           in (PassiveApplied state,
               ph\<lparr>ph_targets := btree_insert (po_key obs) (t\<lparr>pt_state := state\<rparr>) (ph_targets ph)\<rparr>))"

definition passive_state :: "UpstreamHealthKey \<Rightarrow> PassiveHealthSupervisor \<Rightarrow> PassiveHealthState option" where
  "passive_state key ph = map_option pt_state (map_of (ph_targets ph) key)"

definition cooled :: "nat \<Rightarrow> PassiveTarget \<Rightarrow> PassiveHealthState" where
  "cooled now t = transition_passive_health (pt_state t) (CooldownElapsed now) (pt_policy t)"

definition expire_cooldowns :: "nat \<Rightarrow> PassiveHealthSupervisor \<Rightarrow> bool \<times> PassiveHealthSupervisor" where
  "expire_cooldowns now ph =
    (list_ex (\<lambda>(_, t). cooled now t \<noteq> pt_state t) (ph_targets ph),
     ph\<lparr>ph_targets := btree_map (\<lambda>_ t. t\<lparr>pt_state := cooled now t\<rparr>) (ph_targets ph)\<rparr>)"

definition effective_entry ::
  "PassiveHealthSupervisor \<Rightarrow> UpstreamHealthKey \<Rightarrow> Upstream \<Rightarrow> UpstreamAvailability \<Rightarrow> UpstreamAvailability" where
  "effective_entry ph key u active_health =
    (case effective_eligibility \<lparr>eu_membership = Present, eu_administrative = up_administrative_state u,
            eu_active_health = active_health,
            eu_passive_health = (case passive_state key ph of None \<Rightarrow> PassiveOff | Some st \<Rightarrow> st)\<rparr> of
       Eligible \<Rightarrow> active_health
     | Excluded _ \<Rightarrow> AvailUnhealthy)"

fun effective_entries ::
  "PassiveHealthSupervisor \<Rightarrow> (UpstreamHealthKey \<times> Service \<times> Upstream) list
    \<Rightarrow> (UpstreamHealthKey, UpstreamAvailability) btree \<Rightarrow> (UpstreamHealthKey, UpstreamAvailability) btree" where
  "effective_entries ph [] entries = entries"
| "effective_entries ph ((key, svc, u) # rest) entries =
    (let active_health = (case map_of entries key of None \<Rightarrow> AvailUnknown | Some a \<Rightarrow> a)
     in effective_entries ph rest (btree_insert key (effective_entry ph key u active_health) entries))"

definition effective_availability ::
  "PassiveHealthSupervisor \<Rightarrow> ConfigSnapshot \<Rightarrow> HealthAvailabilitySnapshot \<Rightarrow> HealthAvailabilitySnapshot" where
  "effective_availability ph s active = \<lparr>has_revision_id = ph_revision_id ph, has_generation = ph_generation ph,
     has_entries = effective_entries ph (snapshot_upstreams s) (has_entries active)\<rparr>"

section \<open>Effective availability\<close>

lemma effective_entries_keep:
  "btree_wf m \<Longrightarrow> k \<notin> set (map fst us) \<Longrightarrow>
    btree_wf (effective_entries ph us m) \<and> map_of (effective_entries ph us m) k = map_of m k"
proof (induction ph us m rule: effective_entries.induct)
  case (2 ph key svc u rest entries)
  then show ?case by (simp add: Let_def btree_insert_wf btree_insert_lookup)
qed simp

lemma effective_entries_lookup:
  assumes "btree_wf m" "distinct (map fst us)" "(key, svc, u) \<in> set us"
  shows "map_of (effective_entries ph us m) key =
    Some (effective_entry ph key u (case map_of m key of None \<Rightarrow> AvailUnknown | Some a \<Rightarrow> a))"
  using assms
proof (induction ph us m rule: effective_entries.induct)
  case (2 ph k s v rest entries)
  let ?m = "btree_insert k (effective_entry ph k v (case map_of entries k of None \<Rightarrow> AvailUnknown | Some a \<Rightarrow> a)) entries"
  have wf: "btree_wf ?m" using "2.prems"(1) by (rule btree_insert_wf)
  show ?case
  proof (cases "(key, svc, u) = (k, s, v)")
    case True
    then have "k \<notin> set (map fst rest)" using "2.prems"(2) by simp
    from effective_entries_keep[OF wf this, of ph] show ?thesis
      using True "2.prems"(1) by (simp add: Let_def btree_insert_lookup)
  next
    case False
    then have mem: "(key, svc, u) \<in> set rest" using "2.prems"(3) by auto
    have "key \<in> set (map fst rest)" using image_eqI[OF _ mem, of key fst] by simp
    then have "key \<noteq> k" using "2.prems"(2) by auto
    then show ?thesis using "2.IH"[OF refl wf _ mem] "2.prems"(1,2) by (simp add: Let_def btree_insert_lookup)
  qed
qed simp

text \<open>An entry is unhealthy exactly when the target drains, fails its probes or is ejected.\<close>

lemma effective_entry_unhealthy:
  "effective_entry ph key u a = AvailUnhealthy \<longleftrightarrow>
    up_administrative_state u = Draining \<or> a = AvailUnhealthy \<or> (\<exists>until. passive_state key ph = Some (Ejected until))"
  by (cases "up_administrative_state u"; cases "a = AvailUnhealthy")
    (auto simp: effective_entry_def effective_eligibility_def split: option.splits PassiveHealthState.splits)

text \<open>Observations of another revision or generation, of an unknown or of an unobserved target change nothing.\<close>

lemma passive_handle_fenced:
  assumes "passive_handle obs ph = (PassiveIgnored why, ph')"
  shows "ph' = ph"
  using assms by (auto simp: passive_handle_def Let_def split: if_splits option.splits)

lemma passive_handle_state:
  assumes "btree_wf (ph_targets ph)" "passive_handle obs ph = (PassiveApplied st, ph')"
  shows "\<exists>t. map_of (ph_targets ph) (po_key obs) = Some t \<and>
    st = transition_passive_health (pt_state t) (passive_event obs) (pt_policy t) \<and>
    passive_state (po_key obs) ph' = Some st \<and>
    (\<forall>k. k \<noteq> po_key obs \<longrightarrow> passive_state k ph' = passive_state k ph)"
proof -
  obtain t where t: "map_of (ph_targets ph) (po_key obs) = Some t"
    "st = transition_passive_health (pt_state t) (passive_event obs) (pt_policy t)"
    "ph' = ph\<lparr>ph_targets := btree_insert (po_key obs) (t\<lparr>pt_state := st\<rparr>) (ph_targets ph)\<rparr>"
    using assms(2) by (auto simp: passive_handle_def Let_def split: if_splits option.splits)
  show ?thesis
  proof (intro exI[of _ t] conjI allI impI)
    show "passive_state k ph' = passive_state k ph" if "k \<noteq> po_key obs" for k
      using that by (simp add: t(3) passive_state_def btree_insert_lookup[OF assms(1)])
  qed (simp_all add: t passive_state_def btree_insert_lookup[OF assms(1)])
qed

lemma expire_cooldowns_changed:
  "fst (expire_cooldowns now ph) \<longleftrightarrow> snd (expire_cooldowns now ph) \<noteq> ph"
proof -
  have "list_ex (\<lambda>(_, t). cooled now t \<noteq> pt_state t) m \<longleftrightarrow> btree_map (\<lambda>_ t. t\<lparr>pt_state := cooled now t\<rparr>) m \<noteq> m"
    for m :: "(UpstreamHealthKey, PassiveTarget) btree"
  proof (induction m)
    case (Cons x m)
    obtain k t where x: "x = (k, t)" by (cases x)
    have "t\<lparr>pt_state := cooled now t\<rparr> = t \<longleftrightarrow> cooled now t = pt_state t" by (cases t) simp
    then show ?case using Cons by (simp add: btree_map_def x)
  qed (simp add: btree_map_def)
  then show ?thesis by (cases ph) (simp add: expire_cooldowns_def)
qed

end
