(* ===== verification/RuntimeSelector.thy ===== *)
theory RuntimeSelector
  imports PassiveHealth
begin

text \<open>
  The part of the runtime in \<^verbatim>\<open>edge-core/lib.rs\<close> that owns the active configuration: the upstream selector
  with its round-robin positions, availability and drain leases, the commands that replace the
  configuration, the availability or the TLS factories, and the prepared TLS registries of
  \<^verbatim>\<open>tls_registry.rs\<close>.

  A status publisher is shared by all copies of a selector, so publications are not part of the
  selector: every operation returns the statuses it published, in order. Session factories are opaque
  values of a type variable. A listener's bound address is \<^const>\<open>None\<close> when the socket does not tell it.
\<close>

section \<open>Prepared TLS registries\<close>

type_synonym SocketAddr = "string \<times> nat"

record 'g PreparedClientTlsRegistry =
  client_factories :: "(UpstreamHealthKey, 'g) btree"

record 'f PreparedServerTlsRegistry =
  server_factories :: "(SocketAddr, 'f) btree"

definition upstream_tls_registry_error :: AppError where
  "upstream_tls_registry_error =
    app_error (Trust UpstreamTlsProfileInvalid) ''prepared upstream TLS profile is invalid''"

definition runtime_generation_error :: AppError where
  "runtime_generation_error = app_error (Runtime RuntimeCommandRejected)
    ''prepared TLS runtime generation does not match the active snapshot''"

definition insert_shared ::
  "string \<Rightarrow> string \<Rightarrow> 'g \<Rightarrow> 'g PreparedClientTlsRegistry \<Rightarrow> unit app \<times> 'g PreparedClientTlsRegistry" where
  "insert_shared service_id upstream_id factory reg =
    (if map_of (client_factories reg) (service_id, upstream_id) \<noteq> None then (Err upstream_tls_registry_error, reg)
     else (Ok (), reg\<lparr>client_factories := btree_insert (service_id, upstream_id) factory (client_factories reg)\<rparr>))"

definition create_session ::
  "('g \<Rightarrow> string \<Rightarrow> 's app) \<Rightarrow> string \<Rightarrow> string \<Rightarrow> string \<Rightarrow> 'g PreparedClientTlsRegistry \<Rightarrow> 's app" where
  "create_session create_client_session service_id upstream_id name reg =
    rbind (ok_or (map_of (client_factories reg) (service_id, upstream_id)) upstream_tls_registry_error)
      (\<lambda>factory. create_client_session factory name)"

definition client_contains :: "UpstreamHealthKey \<Rightarrow> 'g PreparedClientTlsRegistry \<Rightarrow> bool" where
  "client_contains key reg \<longleftrightarrow> map_of (client_factories reg) key \<noteq> None"

fun expected_profiles ::
  "'g PreparedClientTlsRegistry \<Rightarrow> (UpstreamHealthKey \<times> Service \<times> Upstream) list \<Rightarrow> nat \<Rightarrow> nat app" where
  "expected_profiles reg [] expected = Ok expected"
| "expected_profiles reg ((key, svc, u) # rest) expected =
    (if up_tls u = TlsDisabled then expected_profiles reg rest expected
     else if \<not> client_contains key reg then Err upstream_tls_registry_error
     else expected_profiles reg rest (saturating_add expected 1))"

definition validate_for_snapshot :: "ConfigSnapshot \<Rightarrow> 'g PreparedClientTlsRegistry \<Rightarrow> unit app" where
  "validate_for_snapshot s reg =
    rbind (expected_profiles reg (snapshot_upstreams s) 0) (\<lambda>expected.
      if length (client_factories reg) \<noteq> expected then Err upstream_tls_registry_error else Ok ())"

definition server_insert ::
  "SocketAddr \<Rightarrow> 'f \<Rightarrow> 'f PreparedServerTlsRegistry \<Rightarrow> unit app \<times> 'f PreparedServerTlsRegistry" where
  "server_insert bind factory reg =
    (if map_of (server_factories reg) bind \<noteq> None then (Err runtime_generation_error, reg)
     else (Ok (), reg\<lparr>server_factories := btree_insert bind factory (server_factories reg)\<rparr>))"

definition factory_for :: "SocketAddr \<Rightarrow> 'f PreparedServerTlsRegistry \<Rightarrow> 'f option" where
  "factory_for bind reg = map_of (server_factories reg) bind"

section \<open>The upstream selector\<close>

record RuntimeUpstreamSelection =
  sn_upstream_id :: string
  sn_endpoint :: UpstreamEndpoint
  sn_tls :: UpstreamTlsPolicy
  sn_drain_reference :: DrainReference

record RuntimeUpstreamSelector =
  rs_sequences :: "(string, nat) btree"
  rs_endpoints :: "(UpstreamHealthKey, UpstreamEndpoint) btree"
  rs_availability :: "(string, (string, UpstreamAvailability) btree) btree"
  rs_availability_generation :: "nat option"
  rs_drain_generation :: nat
  rs_drain_tracker :: UpstreamDrainTracker
  rs_drain_snapshot :: ConfigSnapshot
  rs_publisher :: bool

type_synonym published = "RuntimeUpstreamStatusSnapshot list"

fun endpoint_map ::
  "(UpstreamHealthKey \<times> Service \<times> Upstream) list \<Rightarrow> (UpstreamHealthKey, UpstreamEndpoint) btree
    \<Rightarrow> (UpstreamHealthKey, UpstreamEndpoint) btree app" where
  "endpoint_map [] acc = Ok acc"
| "endpoint_map ((key, svc, u) # rest) acc =
    (case endpoint_parse (up_url u) of
       Err e \<Rightarrow> Err (app_error (ve_code e) (ve_message e))
     | Ok endpoint \<Rightarrow> endpoint_map rest (btree_insert key endpoint acc))"

definition normalized_endpoint_map :: "ConfigSnapshot \<Rightarrow> (UpstreamHealthKey, UpstreamEndpoint) btree app" where
  "normalized_endpoint_map s = endpoint_map (snapshot_upstreams s) []"

definition initial_availability_snapshot :: "ConfigSnapshot \<Rightarrow> HealthAvailabilitySnapshot" where
  "initial_availability_snapshot s = \<lparr>has_revision_id = cs_revision_id s, has_generation = 0,
     has_entries = btree_collect (map (\<lambda>(key, svc, u). (key,
       if sp_health_check (svc_policy svc) = HealthCheckDisabled then AvailDisabled else AvailUnknown))
       (snapshot_upstreams s))\<rparr>"

definition runtime_availability_error :: "string \<Rightarrow> AppError" where
  "runtime_availability_error message = app_error (Runtime RuntimeCommandRejected) message"

definition by_service ::
  "(UpstreamHealthKey, UpstreamAvailability) btree \<Rightarrow> (string, (string, UpstreamAvailability) btree) btree" where
  "by_service entries = foldl (\<lambda>m (key, v).
     btree_insert (fst key)
       (btree_insert (snd key) v (case map_of m (fst key) of None \<Rightarrow> [] | Some inner \<Rightarrow> inner)) m) [] entries"

definition apply_availability ::
  "ConfigSnapshot \<Rightarrow> HealthAvailabilitySnapshot \<Rightarrow> RuntimeUpstreamSelector \<Rightarrow> unit app \<times> RuntimeUpstreamSelector" where
  "apply_availability current snapshot rs =
    (if has_revision_id snapshot \<noteq> cs_revision_id current
     then (Err (runtime_availability_error ''availability revision does not match active config''), rs)
     else if (case rs_availability_generation rs of None \<Rightarrow> False | Some g \<Rightarrow> has_generation snapshot < g)
     then (Err (runtime_availability_error ''availability generation is stale''), rs)
     else if length (has_entries snapshot) \<noteq> sum_list (map (\<lambda>svc. length (svc_upstreams svc)) (cs_services current)) \<or>
        list_ex (\<lambda>(key, _, _). map_of (has_entries snapshot) key = None) (snapshot_upstreams current)
     then (Err (runtime_availability_error ''availability keys do not match active config''), rs)
     else (Ok (), rs\<lparr>rs_availability := by_service (has_entries snapshot),
       rs_availability_generation := Some (has_generation snapshot)\<rparr>))"

definition selector_from_snapshot :: "ConfigSnapshot \<Rightarrow> RuntimeUpstreamSelector app" where
  "selector_from_snapshot s =
    rbind (normalized_endpoint_map s) (\<lambda>endpoints.
      case apply_availability s (initial_availability_snapshot s)
        \<lparr>rs_sequences = [], rs_endpoints = endpoints, rs_availability = [], rs_availability_generation = None,
         rs_drain_generation = 1, rs_drain_tracker = drain_from_snapshot s 1, rs_drain_snapshot = s,
         rs_publisher = False\<rparr> of
        (Err e, _) \<Rightarrow> Err e
      | (Ok _, rs) \<Rightarrow> Ok rs)"

definition publish_runtime_status :: "RuntimeUpstreamSelector \<Rightarrow> published" where
  "publish_runtime_status rs =
    (if rs_publisher rs then [operational_snapshot (rs_drain_snapshot rs) (rs_drain_tracker rs)] else [])"

definition install_runtime_status_publisher :: "bool \<Rightarrow> RuntimeUpstreamSelector \<Rightarrow> RuntimeUpstreamSelector \<times> published" where
  "install_runtime_status_publisher publisher rs =
    (let rs = rs\<lparr>rs_publisher := publisher\<rparr> in (rs, publish_runtime_status rs))"

definition release_drain_reference :: "DrainReference \<Rightarrow> RuntimeUpstreamSelector \<Rightarrow> RuntimeUpstreamSelector \<times> published" where
  "release_drain_reference r rs =
    (let rs = rs\<lparr>rs_drain_tracker := snd (drain_release r (rs_drain_tracker rs))\<rparr> in (rs, publish_runtime_status rs))"

text \<open>From a chosen upstream to a selection that holds its lease; both ways of selecting end in it.\<close>

definition lease_upstream ::
  "Service \<Rightarrow> string \<Rightarrow> UpstreamEndpoint \<Rightarrow> RuntimeUpstreamSelector
    \<Rightarrow> RuntimeUpstreamSelection option \<times> RuntimeUpstreamSelector \<times> published" where
  "lease_upstream svc ident endpoint rs =
    (case drain_acquire (rs_drain_generation rs) (svc_id svc, ident) (rs_drain_tracker rs) of
       ((Acquired, Some reference), t) \<Rightarrow>
         let rs = rs\<lparr>rs_drain_tracker := t\<rparr> in
         (map_option (\<lambda>u. \<lparr>sn_upstream_id = ident, sn_endpoint = endpoint, sn_tls = up_tls u,
            sn_drain_reference = reference\<rparr>) (find (\<lambda>u. up_id u = ident) (svc_upstreams svc)),
          rs, publish_runtime_status rs)
     | (_, t) \<Rightarrow> (None, rs\<lparr>rs_drain_tracker := t\<rparr>, []))"

definition service_availability :: "Service \<Rightarrow> RuntimeUpstreamSelector \<Rightarrow> (string \<rightharpoonup> UpstreamAvailability)" where
  "service_availability svc rs =
    map_of (case map_of (rs_availability rs) (svc_id svc) of None \<Rightarrow> [] | Some m \<Rightarrow> m)"

definition service_sequence :: "Service \<Rightarrow> RuntimeUpstreamSelector \<Rightarrow> nat" where
  "service_sequence svc rs = (case map_of (rs_sequences rs) (svc_id svc) of None \<Rightarrow> 0 | Some n \<Rightarrow> n)"

definition selector_select ::
  "Service \<Rightarrow> RuntimeUpstreamSelector \<Rightarrow> RuntimeUpstreamSelection option \<times> RuntimeUpstreamSelector \<times> published" where
  "selector_select svc rs =
    (case select_upstream svc (service_availability svc rs) (service_sequence svc rs) of
       NoEligibleUpstream \<Rightarrow> (None, rs, [])
     | Selected ident next_sequence \<Rightarrow>
         (case map_of (rs_endpoints rs) (svc_id svc, ident) of
            None \<Rightarrow> (None, rs, [])
          | Some endpoint \<Rightarrow>
              lease_upstream svc ident endpoint
                (rs\<lparr>rs_sequences := btree_insert (svc_id svc) next_sequence (rs_sequences rs)\<rparr>)))"

definition select_retry ::
  "Service \<Rightarrow> string set \<Rightarrow> RuntimeUpstreamSelector
    \<Rightarrow> RuntimeUpstreamSelection option \<times> RuntimeUpstreamSelector \<times> published" where
  "select_retry svc attempted rs =
    (case select_upstream (svc\<lparr>svc_upstreams := filter (\<lambda>u. up_id u \<notin> attempted) (svc_upstreams svc)\<rparr>)
            (service_availability svc rs) (service_sequence svc rs) of
       NoEligibleUpstream \<Rightarrow> (None, rs, [])
     | Selected ident _ \<Rightarrow>
         (case map_of (rs_endpoints rs) (svc_id svc, ident) of
            None \<Rightarrow> (None, rs, [])
          | Some endpoint \<Rightarrow> lease_upstream svc ident endpoint rs))"

definition keeps_position :: "ConfigSnapshot \<Rightarrow> ConfigSnapshot \<Rightarrow> string \<Rightarrow> bool" where
  "keeps_position current next_config service_id \<longleftrightarrow>
    (case (find_service current service_id, find_service next_config service_id) of
       (Some a, Some b) \<Rightarrow>
         sp_load_balancing (svc_policy a) = sp_load_balancing (svc_policy b) \<and>
         map up_id (svc_upstreams a) = map up_id (svc_upstreams b)
     | _ \<Rightarrow> False)"

definition selector_reconcile ::
  "ConfigSnapshot \<Rightarrow> ConfigSnapshot \<Rightarrow> RuntimeUpstreamSelector \<Rightarrow> unit app \<times> RuntimeUpstreamSelector \<times> published" where
  "selector_reconcile current next_config rs =
    (case normalized_endpoint_map next_config of
       Err e \<Rightarrow> (Err e, rs, [])
     | Ok endpoints \<Rightarrow>
         let g = wrap64 (rs_drain_generation rs + 1);
             rs = rs\<lparr>rs_sequences := filter (\<lambda>(service_id, _). keeps_position current next_config service_id) (rs_sequences rs),
               rs_endpoints := endpoints, rs_drain_generation := g,
               rs_drain_tracker := drain_reconcile next_config g (rs_drain_tracker rs),
               rs_drain_snapshot := next_config\<rparr>;
             published = publish_runtime_status rs
         in (Ok (),
             (if cs_revision_id current \<noteq> cs_revision_id next_config
              then rs\<lparr>rs_availability := [], rs_availability_generation := None\<rparr> else rs),
             published))"

section \<open>Runtime commands\<close>

datatype CoreCommand =
    ApplyConfigSnapshot ConfigSnapshot
  | ActivateConfigSnapshot ConfigSnapshot HealthAvailabilitySnapshot
  | PublishUpstreamAvailability HealthAvailabilitySnapshot
  | RollbackConfigSnapshot string
  | InstallCertificate string
  | RefreshRouteTable
  | BeginDrain nat
  | Shutdown

datatype CommandAck = AckAccepted | AckRejected AppError

definition ack_is_success :: "CommandAck \<Rightarrow> bool" where
  "ack_is_success a \<longleftrightarrow> a = AckAccepted"

datatype ('f, 'g) RuntimeCommandPayload =
    Core CoreCommand
  | InstallTlsSessionFactory 'f
  | InstallServerTlsRegistry "'f PreparedServerTlsRegistry"
  | ApplySnapshotAndTlsSessionFactory ConfigSnapshot 'f
  | ActivateSnapshotAndTlsSessionFactory ConfigSnapshot HealthAvailabilitySnapshot 'f
  | ActivateRuntimeGeneration ConfigSnapshot HealthAvailabilitySnapshot
      "'f PreparedServerTlsRegistry" "'g PreparedClientTlsRegistry"

record 'f RegisteredSnapshotListener =
  rl_local_addr :: "SocketAddr option"
  rl_tls_session_factory :: "'f option"

record ('f, 'g) runtime_state =
  rt_snapshot :: ConfigSnapshot
  rt_listeners :: "'f RegisteredSnapshotListener list"
  rt_selector :: RuntimeUpstreamSelector
  rt_client_tls :: "'g PreparedClientTlsRegistry"

definition is_tls :: "'f RegisteredSnapshotListener \<Rightarrow> bool" where
  "is_tls l \<longleftrightarrow> rl_tls_session_factory l \<noteq> None"

definition no_tls_listener :: CommandAck where
  "no_tls_listener = AckRejected (app_error (Runtime RuntimeCommandRejected) ''runtime has no TLS listener'')"

definition set_factories :: "'f \<Rightarrow> 'f RegisteredSnapshotListener list \<Rightarrow> 'f RegisteredSnapshotListener list" where
  "set_factories factory ls = map (\<lambda>l. if is_tls l then l\<lparr>rl_tls_session_factory := Some factory\<rparr> else l) ls"

definition replace_tls_listener_factories ::
  "'f \<Rightarrow> 'f RegisteredSnapshotListener list \<Rightarrow> CommandAck \<times> 'f RegisteredSnapshotListener list" where
  "replace_tls_listener_factories factory ls =
    (if length (filter is_tls ls) = 0 then (no_tls_listener, ls) else (AckAccepted, set_factories factory ls))"

fun next_factories ::
  "'f PreparedServerTlsRegistry \<Rightarrow> 'f RegisteredSnapshotListener list \<Rightarrow> 'f option list option" where
  "next_factories reg [] = Some []"
| "next_factories reg (l # ls) =
    (if is_tls l then
       (case rl_local_addr l of
          None \<Rightarrow> None
        | Some bind \<Rightarrow>
            (case factory_for bind reg of
               None \<Rightarrow> None
             | Some factory \<Rightarrow> map_option (Cons (Some factory)) (next_factories reg ls)))
     else map_option (Cons None) (next_factories reg ls))"

definition put_factory :: "'f RegisteredSnapshotListener \<times> 'f option \<Rightarrow> 'f RegisteredSnapshotListener" where
  "put_factory lf = (if snd lf \<noteq> None then (fst lf)\<lparr>rl_tls_session_factory := snd lf\<rparr> else fst lf)"

definition replace_tls_listener_registry ::
  "'f PreparedServerTlsRegistry \<Rightarrow> 'f RegisteredSnapshotListener list
    \<Rightarrow> CommandAck \<times> 'f RegisteredSnapshotListener list" where
  "replace_tls_listener_registry reg ls =
    (if length (server_factories reg) \<noteq> length (filter is_tls ls) then (AckRejected runtime_generation_error, ls)
     else case next_factories reg ls of
       None \<Rightarrow> (AckRejected runtime_generation_error, ls)
     | Some fs \<Rightarrow> (AckAccepted, map put_factory (zip ls fs)))"

text \<open>The candidate selector of an activation: reconciled, then given its availability.\<close>

definition activation_candidate ::
  "ConfigSnapshot \<Rightarrow> ConfigSnapshot \<Rightarrow> HealthAvailabilitySnapshot \<Rightarrow> RuntimeUpstreamSelector
    \<Rightarrow> RuntimeUpstreamSelector app \<times> published" where
  "activation_candidate current next_config availability rs =
    (case selector_reconcile current next_config rs of
       (Err e, _, pub) \<Rightarrow> (Err e, pub)
     | (Ok _, candidate, pub) \<Rightarrow>
         (case apply_availability next_config availability candidate of
            (Err e, _) \<Rightarrow> (Err e, pub)
          | (Ok _, candidate) \<Rightarrow> (Ok candidate, pub)))"

type_synonym ('f, 'g) handled = "CommandAck \<times> ('f, 'g) runtime_state \<times> published"

definition apply_snapshot_and_tls_factory ::
  "ConfigSnapshot \<Rightarrow> 'f \<Rightarrow> ('f, 'g) runtime_state \<Rightarrow> ('f, 'g) handled" where
  "apply_snapshot_and_tls_factory next_config factory st =
    (if \<not> list_ex is_tls (rt_listeners st) then (no_tls_listener, st, [])
     else case selector_reconcile (rt_snapshot st) next_config (rt_selector st) of
       (Err e, rs, pub) \<Rightarrow> (AckRejected e, st\<lparr>rt_selector := rs\<rparr>, pub)
     | (Ok _, rs, pub) \<Rightarrow>
         (AckAccepted, st\<lparr>rt_snapshot := next_config, rt_listeners := set_factories factory (rt_listeners st),
            rt_selector := rs\<rparr>, pub))"

definition activate_snapshot_and_tls_factory ::
  "ConfigSnapshot \<Rightarrow> HealthAvailabilitySnapshot \<Rightarrow> 'f \<Rightarrow> ('f, 'g) runtime_state \<Rightarrow> ('f, 'g) handled" where
  "activate_snapshot_and_tls_factory next_config availability factory st =
    (if \<not> list_ex is_tls (rt_listeners st) then (no_tls_listener, st, [])
     else case activation_candidate (rt_snapshot st) next_config availability (rt_selector st) of
       (Err e, pub) \<Rightarrow> (AckRejected e, st, pub)
     | (Ok candidate, pub) \<Rightarrow>
         (AckAccepted, st\<lparr>rt_snapshot := next_config, rt_listeners := set_factories factory (rt_listeners st),
            rt_selector := candidate\<rparr>, pub))"

definition activate_runtime_generation ::
  "ConfigSnapshot \<Rightarrow> HealthAvailabilitySnapshot \<Rightarrow> 'f PreparedServerTlsRegistry \<Rightarrow> 'g PreparedClientTlsRegistry
    \<Rightarrow> ('f, 'g) runtime_state \<Rightarrow> ('f, 'g) handled" where
  "activate_runtime_generation next_config availability server_registry client_registry st =
    (case activation_candidate (rt_snapshot st) next_config availability (rt_selector st) of
       (Err e, pub) \<Rightarrow> (AckRejected e, st, pub)
     | (Ok candidate, pub) \<Rightarrow>
         (case validate_for_snapshot next_config client_registry of
            Err e \<Rightarrow> (AckRejected e, st, pub)
          | Ok _ \<Rightarrow>
              (case replace_tls_listener_registry server_registry (rt_listeners st) of
                 (AckRejected e, _) \<Rightarrow> (AckRejected e, st, pub)
               | (AckAccepted, ls) \<Rightarrow>
                   (AckAccepted, \<lparr>rt_snapshot = next_config, rt_listeners = ls, rt_selector = candidate,
                      rt_client_tls = client_registry\<rparr>, pub))))"

definition activate_snapshot ::
  "ConfigSnapshot \<Rightarrow> HealthAvailabilitySnapshot \<Rightarrow> ('f, 'g) runtime_state \<Rightarrow> ('f, 'g) handled" where
  "activate_snapshot next_config availability st =
    (case activation_candidate (rt_snapshot st) next_config availability (rt_selector st) of
       (Err e, pub) \<Rightarrow> (AckRejected e, st, pub)
     | (Ok candidate, pub) \<Rightarrow> (AckAccepted, st\<lparr>rt_snapshot := next_config, rt_selector := candidate\<rparr>, pub))"

fun handle_runtime_command :: "CoreCommand \<Rightarrow> ('f, 'g) runtime_state \<Rightarrow> ('f, 'g) handled" where
  "handle_runtime_command (ActivateConfigSnapshot next_config availability) st =
    activate_snapshot next_config availability st"
| "handle_runtime_command (ApplyConfigSnapshot next_config) st =
    (case selector_reconcile (rt_snapshot st) next_config (rt_selector st) of
       (Err e, rs, pub) \<Rightarrow> (AckRejected e, st\<lparr>rt_selector := rs\<rparr>, pub)
     | (Ok _, rs, pub) \<Rightarrow> (AckAccepted, st\<lparr>rt_snapshot := next_config, rt_selector := rs\<rparr>, pub))"
| "handle_runtime_command (PublishUpstreamAvailability availability) st =
    (case apply_availability (rt_snapshot st) availability (rt_selector st) of
       (Err e, rs) \<Rightarrow> (AckRejected e, st\<lparr>rt_selector := rs\<rparr>, [])
     | (Ok _, rs) \<Rightarrow> (AckAccepted, st\<lparr>rt_selector := rs\<rparr>, []))"
| "handle_runtime_command (RollbackConfigSnapshot _) st = (AckAccepted, st, [])"
| "handle_runtime_command (InstallCertificate _) st = (AckAccepted, st, [])"
| "handle_runtime_command RefreshRouteTable st = (AckAccepted, st, [])"
| "handle_runtime_command (BeginDrain _) st = (AckAccepted, st, [])"
| "handle_runtime_command Shutdown st = (AckAccepted, st, [])"

fun handle_payload :: "('f, 'g) RuntimeCommandPayload \<Rightarrow> ('f, 'g) runtime_state \<Rightarrow> ('f, 'g) handled" where
  "handle_payload (Core command) st = handle_runtime_command command st"
| "handle_payload (InstallTlsSessionFactory factory) st =
    (case replace_tls_listener_factories factory (rt_listeners st) of (ack, ls) \<Rightarrow> (ack, st\<lparr>rt_listeners := ls\<rparr>, []))"
| "handle_payload (InstallServerTlsRegistry reg) st =
    (case replace_tls_listener_registry reg (rt_listeners st) of (ack, ls) \<Rightarrow> (ack, st\<lparr>rt_listeners := ls\<rparr>, []))"
| "handle_payload (ApplySnapshotAndTlsSessionFactory next_config factory) st =
    apply_snapshot_and_tls_factory next_config factory st"
| "handle_payload (ActivateSnapshotAndTlsSessionFactory next_config availability factory) st =
    activate_snapshot_and_tls_factory next_config availability factory st"
| "handle_payload (ActivateRuntimeGeneration next_config availability server_registry client_registry) st =
    activate_runtime_generation next_config availability server_registry client_registry st"

record RuntimeCommandDrainOutcome =
  dco_handled :: bool
  dco_shutdown_requested :: bool
  dco_drain_deadline_ms :: "nat option"

definition note_command ::
  "('f, 'g) RuntimeCommandPayload \<Rightarrow> CommandAck \<Rightarrow> RuntimeCommandDrainOutcome \<Rightarrow> RuntimeCommandDrainOutcome" where
  "note_command payload ack o1 =
    (let o2 = (case payload of Core (BeginDrain deadline) \<Rightarrow> o1\<lparr>dco_drain_deadline_ms := Some deadline\<rparr> | _ \<Rightarrow> o1);
         o3 = (case payload of Core Shutdown \<Rightarrow>
                 if ack_is_success ack then o2\<lparr>dco_shutdown_requested := True\<rparr> else o2 | _ \<Rightarrow> o2)
     in o3\<lparr>dco_handled := True\<rparr>)"

fun drain_runtime_commands ::
  "('f, 'g) RuntimeCommandPayload list \<Rightarrow> RuntimeCommandDrainOutcome \<Rightarrow> ('f, 'g) runtime_state
    \<Rightarrow> RuntimeCommandDrainOutcome \<times> CommandAck list \<times> ('f, 'g) runtime_state \<times> published" where
  "drain_runtime_commands [] outcome st = (outcome, [], st, [])"
| "drain_runtime_commands (payload # rest) outcome st =
    (case handle_payload payload st of (ack, st', pub) \<Rightarrow>
       (case drain_runtime_commands rest (note_command payload ack outcome) st' of
          (outcome', acks, st'', pub') \<Rightarrow> (outcome', ack # acks, st'', pub @ pub')))"

section \<open>Commands are all or nothing\<close>

lemma reconcile_rejected: "selector_reconcile current next_config rs = (Err e, rs', pub) \<Longrightarrow> rs' = rs"
  by (auto simp: selector_reconcile_def Let_def split: result.splits)

lemma availability_rejected: "apply_availability current snapshot rs = (Err e, rs') \<Longrightarrow> rs' = rs"
  by (auto simp: apply_availability_def split: if_splits)

lemma registry_rejected: "replace_tls_listener_registry reg ls = (AckRejected e, ls') \<Longrightarrow> ls' = ls"
  by (auto simp: replace_tls_listener_registry_def split: if_splits option.splits)

lemma factories_rejected: "replace_tls_listener_factories f ls = (AckRejected e, ls') \<Longrightarrow> ls' = ls"
  by (auto simp: replace_tls_listener_factories_def no_tls_listener_def split: if_splits)

lemma runtime_state_same [simp]:
  "st\<lparr>rt_selector := rt_selector st\<rparr> = st" "st\<lparr>rt_listeners := rt_listeners st\<rparr> = st"
  by (cases st, simp)+

lemma core_rejected:
  assumes "handle_runtime_command command st = (AckRejected e, st', pub)"
  shows "st' = st"
  using assms
  by (cases command)
    (auto simp: activate_snapshot_def dest: reconcile_rejected availability_rejected
      split: prod.splits result.splits)

lemma payload_rejected:
  assumes "handle_payload payload st = (AckRejected e, st', pub)"
  shows "st' = st"
proof (cases payload)
  case (Core command)
  then show ?thesis using assms core_rejected by simp
next
  case (InstallTlsSessionFactory f)
  then show ?thesis using assms by (auto dest: factories_rejected split: prod.splits)
next
  case (InstallServerTlsRegistry reg)
  then show ?thesis using assms by (auto dest: registry_rejected split: prod.splits)
next
  case (ApplySnapshotAndTlsSessionFactory s f)
  then show ?thesis using assms
    by (auto simp: apply_snapshot_and_tls_factory_def dest: reconcile_rejected split: prod.splits result.splits if_splits)
next
  case (ActivateSnapshotAndTlsSessionFactory s a f)
  then show ?thesis using assms
    by (auto simp: activate_snapshot_and_tls_factory_def split: prod.splits result.splits if_splits)
next
  case (ActivateRuntimeGeneration s a sreg creg)
  then show ?thesis using assms
    by (auto simp: activate_runtime_generation_def split: prod.splits result.splits CommandAck.splits)
qed

definition prepared_factory :: "'f PreparedServerTlsRegistry \<Rightarrow> 'f RegisteredSnapshotListener \<Rightarrow> 'f option" where
  "prepared_factory reg l = (if is_tls l then Option.bind (rl_local_addr l) (\<lambda>b. factory_for b reg) else None)"

lemma next_factories_prepared:
  "next_factories reg ls = Some fs \<Longrightarrow>
    list_all2 (\<lambda>l f. f = prepared_factory reg l \<and> (is_tls l \<longrightarrow> f \<noteq> None)) ls fs"
proof (induction reg ls arbitrary: fs rule: next_factories.induct)
  case (2 reg l ls)
  then show ?case by (cases "is_tls l") (auto simp: prepared_factory_def split: option.splits)
qed simp

lemma registry_installed:
  assumes "replace_tls_listener_registry reg ls = (AckAccepted, ls')"
  shows "list_all2 (\<lambda>l l'. rl_tls_session_factory l' = prepared_factory reg l \<and> (is_tls l' \<longleftrightarrow> is_tls l)) ls ls'"
proof -
  obtain fs where fs: "next_factories reg ls = Some fs" "ls' = map put_factory (zip ls fs)"
    using assms by (auto simp: replace_tls_listener_registry_def split: if_splits option.splits)
  have "list_all2 (\<lambda>l l'. rl_tls_session_factory l' = prepared_factory reg l \<and> (is_tls l' \<longleftrightarrow> is_tls l))
      ls (map put_factory (zip ls fs))"
    using next_factories_prepared[OF fs(1)]
    by (rule list_all2_induct) (auto simp: put_factory_def is_tls_def prepared_factory_def)
  then show ?thesis by (simp add: fs(2))
qed

lemma expected_profiles_all:
  "expected_profiles reg us n = Ok m \<Longrightarrow> (key, svc, u) \<in> set us \<Longrightarrow> up_tls u \<noteq> TlsDisabled \<Longrightarrow> client_contains key reg"
  by (induction reg us n rule: expected_profiles.induct) (auto split: if_splits)


definition sample_runtime :: "(nat, nat) runtime_state" where
  "sample_runtime = \<lparr>rt_snapshot = sample_config,
     rt_listeners = [\<lparr>rl_local_addr = Some (''0.0.0.0'', 443), rl_tls_session_factory = Some 1\<rparr>],
     rt_selector = (case selector_from_snapshot sample_config of Ok rs \<Rightarrow> rs),
     rt_client_tls = \<lparr>client_factories = []\<rparr>\<rparr>"

definition sample_activation :: "(nat, nat) RuntimeCommandPayload" where
  "sample_activation = ActivateRuntimeGeneration sample_config (initial_availability_snapshot sample_config)
     \<lparr>server_factories = [((''0.0.0.0'', 443), 2)]\<rparr> \<lparr>client_factories = []\<rparr>"


section \<open>Selection serves the active configuration\<close>

definition distinct_upstreams :: "ConfigSnapshot \<Rightarrow> bool" where
  "distinct_upstreams s \<longleftrightarrow> distinct (map fst (snapshot_upstreams s))"

text \<open>The selector of a running proxy, with the configuration it serves.\<close>

inductive selector_reach :: "ConfigSnapshot \<Rightarrow> RuntimeUpstreamSelector \<Rightarrow> bool" where
  reach_start: "selector_from_snapshot s = Ok rs \<Longrightarrow> selector_reach s rs"
| reach_publisher: "selector_reach s rs \<Longrightarrow> selector_reach s (fst (install_runtime_status_publisher b rs))"
| reach_select: "selector_reach s rs \<Longrightarrow> selector_reach s (fst (snd (selector_select svc rs)))"
| reach_retry: "selector_reach s rs \<Longrightarrow> selector_reach s (fst (snd (select_retry svc attempted rs)))"
| reach_release: "selector_reach s rs \<Longrightarrow> selector_reach s (fst (release_drain_reference r rs))"
| reach_availability: "selector_reach s rs \<Longrightarrow> selector_reach s (snd (apply_availability s a rs))"
| reach_reconcile: "selector_reach s rs \<Longrightarrow> selector_reconcile s s' rs = (Ok (), rs', pub) \<Longrightarrow> selector_reach s' rs'"

text \<open>Every active upstream of the configuration has an active entry of the current generation.\<close>

definition tracker_serves :: "ConfigSnapshot \<Rightarrow> nat \<Rightarrow> UpstreamDrainTracker \<Rightarrow> bool" where
  "tracker_serves s g t \<longleftrightarrow> btree_wf (dt_entries t) \<and> dt_current_generation t = Some g \<and>
    (\<forall>k. map_of (desired_states s) k = Some Active \<longrightarrow>
      (\<exists>e. map_of (dt_entries t) (g, k) = Some e \<and> de_state e = DrainActive))"

definition selector_inv :: "ConfigSnapshot \<Rightarrow> RuntimeUpstreamSelector \<Rightarrow> bool" where
  "selector_inv s rs \<longleftrightarrow> normalized_endpoint_map s = Ok (rs_endpoints rs) \<and>
    tracker_serves s (rs_drain_generation rs) (rs_drain_tracker rs)"

lemma tracker_servesD:
  "tracker_serves s g t \<Longrightarrow> map_of (desired_states s) k = Some Active \<Longrightarrow>
    \<exists>e. map_of (dt_entries t) (g, k) = Some e \<and> de_state e = DrainActive"
  unfolding tracker_serves_def by metis

lemma tracker_serves_insert:
  assumes t: "tracker_serves s g t" and e: "map_of (dt_entries t) gk = Some e" and e': "de_state e = DrainActive \<Longrightarrow> de_state e' = DrainActive"
    and t': "dt_entries t' = btree_insert gk e' (dt_entries t)" "dt_current_generation t' = dt_current_generation t"
  shows "tracker_serves s g t'"
proof -
  have wf: "btree_wf (dt_entries t)" using t by (simp add: tracker_serves_def)
  have "\<exists>f. map_of (dt_entries t') (g, k) = Some f \<and> de_state f = DrainActive"
    if k: "map_of (desired_states s) k = Some Active" for k
  proof -
    obtain f where f: "map_of (dt_entries t) (g, k) = Some f" "de_state f = DrainActive"
      using tracker_servesD[OF t k] by metis
    show ?thesis
    proof (cases "(g, k) = gk")
      case True
      then show ?thesis using f e e' by (intro exI[of _ e']) (simp add: t'(1) btree_insert_lookup[OF wf])
    next
      case False
      then show ?thesis using f by (intro exI[of _ f]) (simp add: t'(1) btree_insert_lookup[OF wf])
    qed
  qed
  then show ?thesis using t wf unfolding tracker_serves_def t' by (simp add: btree_insert_wf)
qed

lemma acquire_serves: "tracker_serves s g t \<Longrightarrow> tracker_serves s g (snd (drain_acquire h k t))"
proof -
  assume t: "tracker_serves s g t"
  show ?thesis
  proof (cases "map_of (dt_entries t) (h, k)")
    case None
    then show ?thesis using t by (simp add: drain_acquire_def)
  next
    case (Some e)
    then show ?thesis using t tracker_serves_insert[OF t Some, of "e\<lparr>de_leases := insert (dt_next_lease_id t) (de_leases e)\<rparr>"]
      by (simp add: drain_acquire_def Let_def)
  qed
qed

lemma release_serves: "tracker_serves s g t \<Longrightarrow> tracker_serves s g (snd (drain_release r t))"
proof -
  assume t: "tracker_serves s g t"
  show ?thesis
  proof (cases "map_of (dt_entries t) (ref_generation r, ref_key r)")
    case None
    then show ?thesis using t by (simp add: drain_release_def)
  next
    case (Some e)
    have save: "tracker_serves s g (t\<lparr>dt_entries := btree_insert (ref_generation r, ref_key r) e' (dt_entries t)\<rparr>)"
      if "de_state e = DrainActive \<longrightarrow> de_state e' = DrainActive" for e'
      using that by (intro tracker_serves_insert[OF t Some, of e']) simp_all
    show ?thesis using t Some
      by (cases "de_state e") (simp_all add: drain_release_def Let_def save)
  qed
qed

lemma reconcile_serves:
  assumes "btree_wf (dt_entries t)"
  shows "tracker_serves s g (drain_reconcile s g t)"
proof -
  let ?d = "desired_states s"
  let ?fresh = "map (\<lambda>(key, a). ((g, key), fresh_entry a)) ?d"
  let ?old = "case dt_current_generation t of None \<Rightarrow> dt_entries t
      | Some current \<Rightarrow> btree_map (retire_entry ?d current) (dt_entries t)"
  have old: "btree_wf ?old" using assms by (simp split: option.splits)
  have "distinct (map fst ?d)" by (rule btree_wf_distinct) (simp add: desired_states_def)
  then have dist: "distinct (map fst ?fresh)"
    by (simp add: comp_def case_prod_beta distinct_map inj_on_def)
  have fresh: "map_of (map (\<lambda>(key, a). ((g, key), fresh_entry a)) d) (g, k) = map_option fresh_entry (map_of d k)" for d k
    by (induction d) auto
  have "map_of (dt_entries (drain_reconcile s g t)) (g, k) = Some (fresh_entry Active)" if "map_of ?d k = Some Active" for k
    using btree_extend_lookup[OF old, of ?fresh] that fresh[of ?d k]
    by (simp add: drain_reconcile_def Let_def map_of_rev[OF dist] map_add_def)
  then show ?thesis unfolding tracker_serves_def
    using btree_extend_wf[OF old] by (simp add: drain_reconcile_def Let_def fresh_entry_def)
qed

lemma lease_serves:
  assumes "selector_inv s rs"
  shows "selector_inv s (fst (snd (lease_upstream svc ident ep rs)))"
proof -
  obtain res t where acq: "drain_acquire (rs_drain_generation rs) (svc_id svc, ident) (rs_drain_tracker rs) = (res, t)"
    by fastforce
  have t: "tracker_serves s (rs_drain_generation rs) t"
    using acquire_serves[of s "rs_drain_generation rs" "rs_drain_tracker rs" "rs_drain_generation rs" "(svc_id svc, ident)"]
      assms by (simp add: selector_inv_def acq)
  show ?thesis using assms t
    by (simp add: lease_upstream_def acq selector_inv_def Let_def
      split: prod.splits DrainAcquireResult.splits option.splits)
qed

lemma selector_reach_inv: "selector_reach s rs \<Longrightarrow> selector_inv s rs"
proof (induction rule: selector_reach.induct)
  case (reach_start s rs)
  then have "normalized_endpoint_map s = Ok (rs_endpoints rs)" "rs_drain_generation rs = 1"
    "rs_drain_tracker rs = drain_from_snapshot s 1"
    by (auto simp: selector_from_snapshot_def rbind_Ok_iff apply_availability_def split: prod.splits result.splits if_splits)
  then show ?case
    using reconcile_serves[of new_tracker s 1] by (simp add: selector_inv_def drain_from_snapshot_def new_tracker_def)
next
  case (reach_select s rs svc)
  have "selector_inv s (rs\<lparr>rs_sequences := q\<rparr>)" for q using reach_select.IH by (simp add: selector_inv_def)
  then show ?case using reach_select.IH lease_serves
    by (simp add: selector_select_def split: UpstreamSelection.splits option.splits)
next
  case (reach_retry s rs svc attempted)
  then show ?case using lease_serves by (simp add: select_retry_def split: UpstreamSelection.splits option.splits)
next
  case (reach_release s rs r)
  then show ?case by (simp add: selector_inv_def release_drain_reference_def Let_def release_serves)
next
  case (reach_availability s rs a)
  then show ?case by (simp add: selector_inv_def apply_availability_def)
next
  case (reach_reconcile s rs s' rs' pub)
  obtain eps where eps: "normalized_endpoint_map s' = Ok eps"
    using reach_reconcile.hyps(2) by (auto simp: selector_reconcile_def split: result.splits)
  have "btree_wf (dt_entries (rs_drain_tracker rs))"
    using reach_reconcile.IH by (simp add: selector_inv_def tracker_serves_def)
  from reconcile_serves[OF this, of s' "wrap64 (rs_drain_generation rs + 1)"] show ?case
    using reach_reconcile.hyps(2) eps by (auto simp: selector_reconcile_def Let_def selector_inv_def split: if_splits)
qed (simp add: selector_inv_def install_runtime_status_publisher_def Let_def)

lemma endpoint_map_lookup:
  assumes "endpoint_map us acc = Ok eps" "btree_wf acc" "distinct (map fst us)"
  shows "((key, svc, u) \<in> set us \<longrightarrow>
      (\<exists>ep. map_of eps key = Some ep \<and> endpoint_parse (up_url u) = Ok ep)) \<and>
    (key \<notin> set (map fst us) \<longrightarrow> map_of eps key = map_of acc key)"
  using assms
proof (induction us acc rule: endpoint_map.induct)
  case (2 k s v rest acc)
  obtain ep where ep: "endpoint_parse (up_url v) = Ok ep" using "2.prems"(1) by (cases "endpoint_parse (up_url v)") auto
  have rest: "endpoint_map rest (btree_insert k ep acc) = Ok eps" using "2.prems"(1) ep by simp
  note IH = "2.IH"[OF ep rest btree_insert_wf[OF "2.prems"(2)]]
  have d: "distinct (map fst rest)" "k \<notin> set (map fst rest)" using "2.prems"(3) by simp_all
  note lookup = btree_insert_lookup[OF "2.prems"(2), of k ep]
  show ?case
  proof (intro conjI impI)
    assume mem: "(key, svc, u) \<in> set ((k, s, v) # rest)"
    show "\<exists>ep. map_of eps key = Some ep \<and> endpoint_parse (up_url u) = Ok ep"
    proof (cases "(key, svc, u) = (k, s, v)")
      case True
      then show ?thesis using conjunct2[OF IH[OF d(1)]] d(2) ep lookup by simp
    next
      case False
      then have "(key, svc, u) \<in> set rest" using mem by (metis set_ConsD)
      then show ?thesis using conjunct1[OF IH[OF d(1)]] by (rule rev_mp)
    qed
  next
    assume "key \<notin> set (map fst ((k, s, v) # rest))"
    then have "key \<notin> set (map fst rest)" "key \<noteq> k" by simp_all
    then show "map_of eps key = map_of acc key" using conjunct2[OF IH[OF d(1)]] lookup by simp
  qed
qed simp

lemma service_upstream_mem:
  assumes "svc \<in> set (cs_services s)" "u \<in> set (svc_upstreams svc)"
  shows "((svc_id svc, up_id u), svc, u) \<in> set (snapshot_upstreams s)"
  unfolding snapshot_upstreams_def set_concat set_map
  by (intro UN_I[OF imageI[OF assms(1)]]) (simp add: assms(2))

lemma find_unique:
  assumes "u \<in> set xs" "P u" "\<And>v. v \<in> set xs \<Longrightarrow> P v \<Longrightarrow> v = u"
  shows "find P xs = Some u"
proof (cases "find P xs")
  case None
  then show ?thesis using assms(1,2) by (auto simp: find_None_iff)
next
  case (Some v)
  then have "v \<in> set xs" "P v" by (auto simp: find_Some_iff)
  from assms(3)[OF this] Some show ?thesis by simp
qed

lemma service_upstream_unique:
  assumes "distinct_upstreams s" "svc \<in> set (cs_services s)" "u \<in> set (svc_upstreams svc)"
  shows "find (\<lambda>v. up_id v = up_id u) (svc_upstreams svc) = Some u"
proof -
  have "v = u" if "v \<in> set (svc_upstreams svc)" "up_id v = up_id u" for v
  proof -
    have "((svc_id svc, up_id u), svc, v) \<in> set (snapshot_upstreams s)"
      using service_upstream_mem[OF assms(2) that(1)] unfolding that(2) .
    from eq_key_imp_eq_value[OF assms(1)[unfolded distinct_upstreams_def] this service_upstream_mem[OF assms(2,3)]]
    show ?thesis by simp
  qed
  then show ?thesis using assms(3) by (intro find_unique) simp_all
qed

definition served :: "ConfigSnapshot \<Rightarrow> Service \<Rightarrow> Upstream \<Rightarrow> RuntimeUpstreamSelection \<Rightarrow> RuntimeUpstreamSelector \<Rightarrow> bool" where
  "served s svc u sel rs \<longleftrightarrow> sn_upstream_id sel = up_id u \<and> endpoint_parse (up_url u) = Ok (sn_endpoint sel) \<and>
    sn_tls sel = up_tls u \<and> ref_key (sn_drain_reference sel) = (svc_id svc, up_id u) \<and>
    (\<exists>e. map_of (dt_entries (rs_drain_tracker rs)) (ref_generation (sn_drain_reference sel), svc_id svc, up_id u) = Some e \<and>
      ref_lease_id (sn_drain_reference sel) \<in> de_leases e)"

lemma desired_active:
  assumes "distinct_upstreams s" "svc \<in> set (cs_services s)" "u \<in> set (svc_upstreams svc)"
  shows "map_of (desired_states s) (svc_id svc, up_id u) = Some (up_administrative_state u)"
proof -
  let ?kvs = "map (\<lambda>(key, _, u). (key, up_administrative_state u)) (snapshot_upstreams s)"
  have keys: "map fst ?kvs = map fst (snapshot_upstreams s)" by (simp add: case_prod_beta)
  have d: "distinct (map fst ?kvs)" using assms(1) unfolding keys distinct_upstreams_def .
  have "((svc_id svc, up_id u), up_administrative_state u) \<in> set ?kvs"
    using imageI[OF service_upstream_mem[OF assms(2,3)], of "\<lambda>(key, _, u). (key, up_administrative_state u)"] by simp
  then show ?thesis
    using map_of_eq_Some_iff[OF d] by (simp add: desired_states_def btree_collect_lookup map_of_rev[OF d])
qed

lemma lease_granted:
  assumes inv: "selector_inv s rs" and s: "distinct_upstreams s" "svc \<in> set (cs_services s)"
    and u: "u \<in> set (svc_upstreams svc)" "up_administrative_state u = Active"
  shows "\<exists>ep sel rs' pub. map_of (rs_endpoints rs) (svc_id svc, up_id u) = Some ep \<and>
    (\<forall>q. lease_upstream svc (up_id u) ep (rs\<lparr>rs_sequences := q\<rparr>) = (Some sel, rs'\<lparr>rs_sequences := q\<rparr>, pub)) \<and>
    served s svc u sel rs'"
proof -
  let ?g = "rs_drain_generation rs" and ?t = "rs_drain_tracker rs" and ?k = "(svc_id svc, up_id u)"
  have serves: "tracker_serves s ?g ?t" using inv by (simp add: selector_inv_def)
  obtain e where e: "map_of (dt_entries ?t) (?g, ?k) = Some e" "de_state e = DrainActive"
    using tracker_servesD[OF serves] desired_active[OF s u(1)] u(2) by metis
  have eps: "endpoint_map (snapshot_upstreams s) [] = Ok (rs_endpoints rs)"
    using inv by (simp add: selector_inv_def normalized_endpoint_map_def)
  obtain ep where ep: "map_of (rs_endpoints rs) ?k = Some ep" "endpoint_parse (up_url u) = Ok ep"
    using conjunct1[OF endpoint_map_lookup[OF eps btree_wf_Nil s(1)[unfolded distinct_upstreams_def]]]
      service_upstream_mem[OF s(2) u(1)] by meson
  let ?i = "dt_next_lease_id ?t"
  let ?r = "\<lparr>ref_generation = ?g, ref_key = ?k, ref_lease_id = ?i\<rparr>"
  let ?t' = "?t\<lparr>dt_next_lease_id := wrap64 (?i + 1),
      dt_entries := btree_insert (?g, ?k) (e\<lparr>de_leases := insert ?i (de_leases e)\<rparr>) (dt_entries ?t)\<rparr>"
  let ?sel = "\<lparr>sn_upstream_id = up_id u, sn_endpoint = ep, sn_tls = up_tls u, sn_drain_reference = ?r\<rparr>"
  let ?rs = "rs\<lparr>rs_drain_tracker := ?t'\<rparr>"
  have acq: "drain_acquire ?g ?k ?t = ((Acquired, Some ?r), ?t')"
    using serves e by (simp add: drain_acquire_def Let_def tracker_serves_def)
  have "lease_upstream svc (up_id u) ep (rs\<lparr>rs_sequences := q\<rparr>) =
      (Some ?sel, ?rs\<lparr>rs_sequences := q\<rparr>, publish_runtime_status ?rs)" for q
    using acq service_upstream_unique[OF s u(1)]
    by (cases rs) (simp add: lease_upstream_def Let_def publish_runtime_status_def)
  moreover have "served s svc u ?sel ?rs"
    using ep(2) serves by (simp add: served_def tracker_serves_def btree_insert_lookup)
  ultimately show ?thesis using ep(1) by blast
qed

lemma eligible_retain:
  "eligible_upstreams (svc\<lparr>svc_upstreams := filter Q (svc_upstreams svc)\<rparr>) a = filter Q (eligible_upstreams svc a)"
  by (simp add: eligible_upstreams_def health_enabled_def conj_commute cong: conj_cong)

lemma selected_eligible:
  assumes "select_upstream svc a n = Selected ident j"
  shows "\<exists>u \<in> set (eligible_upstreams svc a). ident = up_id u"
proof -
  let ?us = "eligible_upstreams svc a"
  have "?us \<noteq> []" "ident = up_id (?us ! (n mod length ?us))"
    using assms by (auto simp: select_upstream_def Let_def split: if_splits)
  then show ?thesis by (intro bexI[of _ "?us ! (n mod length ?us)"]) simp_all
qed

lemma eligible_active:
  "u \<in> set (eligible_upstreams svc a) \<Longrightarrow> u \<in> set (svc_upstreams svc) \<and> up_administrative_state u = Active"
  by (simp add: eligible_upstreams_def)

lemma served_sequences [simp]: "served s svc u sel (rs\<lparr>rs_sequences := q\<rparr>) = served s svc u sel rs"
  by (simp add: served_def)

text \<open>
  C12: Selection serves the active configuration. Whatever configurations, availability, selections and
  releases came before, a selection for a configured service is refused exactly when the service has no
  eligible upstream; otherwise it names an eligible upstream of the service, with the endpoint of that
  upstream's URL and its TLS profile, and the drain tracker holds the lease it returns. A retry does the
  same among the upstreams not yet attempted.\<close>

theorem selection_serves_configuration:
  assumes "selector_reach s rs" "distinct_upstreams s" "svc \<in> set (cs_services s)"
  shows "(case selector_select svc rs of
       (None, _) \<Rightarrow> eligible_upstreams svc (service_availability svc rs) = []
     | (Some sel, rs', _) \<Rightarrow> \<exists>u \<in> set (eligible_upstreams svc (service_availability svc rs)). served s svc u sel rs') \<and>
    (case select_retry svc attempted rs of
       (None, _) \<Rightarrow> \<forall>u \<in> set (eligible_upstreams svc (service_availability svc rs)). up_id u \<in> attempted
     | (Some sel, rs', _) \<Rightarrow> \<exists>u \<in> set (eligible_upstreams svc (service_availability svc rs)).
         up_id u \<notin> attempted \<and> served s svc u sel rs')"
proof
  let ?a = "service_availability svc rs" and ?n = "service_sequence svc rs"
  note inv = selector_reach_inv[OF assms(1)]
  note lease = lease_granted[OF inv assms(2,3) conjunct1[OF eligible_active] conjunct2[OF eligible_active]]
  show "case selector_select svc rs of (None, _) \<Rightarrow> eligible_upstreams svc ?a = []
      | (Some sel, rs', _) \<Rightarrow> \<exists>u \<in> set (eligible_upstreams svc ?a). served s svc u sel rs'"
  proof (cases "select_upstream svc ?a ?n")
    case (Selected ident j)
    obtain u where u: "u \<in> set (eligible_upstreams svc ?a)" "ident = up_id u" using selected_eligible[OF Selected] by blast
    obtain ep sel rs' pub where l: "map_of (rs_endpoints rs) (svc_id svc, up_id u) = Some ep"
      "\<forall>q. lease_upstream svc (up_id u) ep (rs\<lparr>rs_sequences := q\<rparr>) = (Some sel, rs'\<lparr>rs_sequences := q\<rparr>, pub)"
      "served s svc u sel rs'" using lease[OF u(1) u(1)] by blast
    have "selector_select svc rs = (Some sel, rs'\<lparr>rs_sequences := btree_insert (svc_id svc) j (rs_sequences rs)\<rparr>, pub)"
      by (simp add: selector_select_def Selected u(2) l(1,2))
    then show ?thesis using l(3) by simp (rule bexI[OF _ u(1)], simp)
  next
    case NoEligibleUpstream
    then show ?thesis by (simp add: selector_select_def select_upstream_def Let_def split: if_splits)
  qed
  let ?svc = "svc\<lparr>svc_upstreams := filter (\<lambda>u. up_id u \<notin> attempted) (svc_upstreams svc)\<rparr>"
  show "case select_retry svc attempted rs of
      (None, _) \<Rightarrow> \<forall>u \<in> set (eligible_upstreams svc ?a). up_id u \<in> attempted
      | (Some sel, rs', _) \<Rightarrow> \<exists>u \<in> set (eligible_upstreams svc ?a). up_id u \<notin> attempted \<and> served s svc u sel rs'"
  proof (cases "select_upstream ?svc ?a ?n")
    case (Selected ident j)
    obtain u where u: "u \<in> set (eligible_upstreams svc ?a)" "up_id u \<notin> attempted" "ident = up_id u"
      using selected_eligible[OF Selected] by (auto simp: eligible_retain)
    obtain ep sel rs' pub where l: "map_of (rs_endpoints rs) (svc_id svc, up_id u) = Some ep"
      "lease_upstream svc (up_id u) ep (rs\<lparr>rs_sequences := rs_sequences rs\<rparr>) = (Some sel, rs'\<lparr>rs_sequences := rs_sequences rs\<rparr>, pub)"
      "served s svc u sel rs'" using lease[OF u(1) u(1)] by blast
    have "select_retry svc attempted rs = (Some sel, rs'\<lparr>rs_sequences := rs_sequences rs\<rparr>, pub)"
      using l(2) by (simp add: select_retry_def Selected u(3) l(1))
    then show ?thesis using u(2) l(3) by simp (rule bexI[OF _ u(1)], simp)
  next
    case NoEligibleUpstream
    then show ?thesis
      by (auto simp: select_retry_def select_upstream_def Let_def eligible_retain filter_empty_conv split: if_splits)
  qed
qed

lemma sample_config_distinct: "distinct_upstreams sample_config" by code_simp

theorem selection_serves_configuration_witness:
  "\<exists>sel rs' pub u. selector_select sample_service (rt_selector sample_runtime) = (Some sel, rs', pub) \<and>
     u \<in> set (svc_upstreams sample_service) \<and> served sample_config sample_service u sel rs'"
proof -
  let ?rs = "rt_selector sample_runtime"
  have "case selector_from_snapshot sample_config of Ok rs \<Rightarrow> rs = ?rs | Err _ \<Rightarrow> False" by code_simp
  then have "selector_from_snapshot sample_config = Ok ?rs"
    by (cases "selector_from_snapshot sample_config") simp_all
  then have reach: "selector_reach sample_config ?rs" by (rule reach_start)
  have svc: "sample_service \<in> set (cs_services sample_config)" by (simp add: sample_config_def)
  have "fst (selector_select sample_service ?rs) \<noteq> None" by code_simp
  then obtain sel rs' pub where sel: "selector_select sample_service ?rs = (Some sel, rs', pub)"
    by (cases "selector_select sample_service ?rs") auto
  from selection_serves_configuration[OF reach sample_config_distinct svc]
  obtain u where "u \<in> set (eligible_upstreams sample_service (service_availability sample_service ?rs))"
    "served sample_config sample_service u sel rs'" unfolding sel by auto
  then show ?thesis using sel eligible_active by blast
qed

section \<open>What availability reaches selection\<close>

definition nested_lookup :: "(string, (string, UpstreamAvailability) btree) btree \<Rightarrow> UpstreamHealthKey \<Rightarrow> UpstreamAvailability option" where
  "nested_lookup m key = (case map_of m (fst key) of None \<Rightarrow> None | Some inner \<Rightarrow> map_of inner (snd key))"

definition nested_wf :: "(string, (string, UpstreamAvailability) btree) btree \<Rightarrow> bool" where
  "nested_wf m \<longleftrightarrow> btree_wf m \<and> (\<forall>a inner. map_of m a = Some inner \<longrightarrow> btree_wf inner)"

lemma nested_insert:
  assumes "nested_wf m"
  shows "nested_wf (btree_insert a (btree_insert b v (case map_of m a of None \<Rightarrow> [] | Some inner \<Rightarrow> inner)) m)"
    and "nested_lookup (btree_insert a (btree_insert b v (case map_of m a of None \<Rightarrow> [] | Some inner \<Rightarrow> inner)) m) key =
      (if key = (a, b) then Some v else nested_lookup m key)"
proof -
  let ?inner = "case map_of m a of None \<Rightarrow> [] | Some inner \<Rightarrow> inner"
  have wf: "btree_wf m" "btree_wf ?inner" using assms by (auto simp: nested_wf_def split: option.splits)
  show "nested_wf (btree_insert a (btree_insert b v ?inner) m)"
    using assms wf by (simp add: nested_wf_def btree_insert_wf btree_insert_lookup)
  show "nested_lookup (btree_insert a (btree_insert b v ?inner) m) key =
      (if key = (a, b) then Some v else nested_lookup m key)"
  proof (cases "map_of m a")
    case None
    then show ?thesis by (cases key) (simp add: nested_lookup_def btree_insert_lookup[OF wf(1)])
  next
    case (Some inner)
    then have "btree_wf inner" using wf(2) by simp
    then show ?thesis using Some by (cases key) (simp add: nested_lookup_def btree_insert_lookup wf(1))
  qed
qed

lemma by_service_lookup:
  assumes "btree_wf entries"
  shows "nested_lookup (by_service entries) key = map_of entries key"
proof -
  have "nested_wf (by_service xs) \<and> nested_lookup (by_service xs) key = map_of (rev xs) key" for xs
  proof (induction xs rule: rev_induct)
    case Nil
    show ?case by (simp add: by_service_def nested_wf_def nested_lookup_def)
  next
    case (snoc x xs)
    obtain k v where x: "x = (k, v)" by (cases x)
    have step: "by_service (xs @ [x]) = btree_insert (fst k)
        (btree_insert (snd k) v (case map_of (by_service xs) (fst k) of None \<Rightarrow> [] | Some inner \<Rightarrow> inner)) (by_service xs)"
      by (simp add: by_service_def x)
    show ?case unfolding step using nested_insert[OF conjunct1[OF snoc]] snoc by (simp add: x)
  qed
  then show ?thesis using map_of_rev[OF btree_wf_distinct[OF assms]] by simp
qed

lemma applied_availability:
  assumes "apply_availability s a rs = (Ok (), rs')" "btree_wf (has_entries a)"
  shows "service_availability svc rs' ident = map_of (has_entries a) (svc_id svc, ident)"
proof -
  have "rs_availability rs' = by_service (has_entries a)"
    using assms(1) by (auto simp: apply_availability_def split: if_splits)
  then have "service_availability svc rs' ident = nested_lookup (by_service (has_entries a)) (svc_id svc, ident)"
    by (simp add: service_availability_def nested_lookup_def split: option.splits)
  then show ?thesis by (simp add: by_service_lookup[OF assms(2)])
qed

lemma unchecked_selection:
  assumes "sp_health_check (svc_policy svc) = HealthCheckDisabled" "apply_availability s a rs = (Ok (), rs')"
  shows "fst (selector_select svc rs') = fst (selector_select svc rs)"
proof -
  have rs': "rs' = rs\<lparr>rs_availability := by_service (has_entries a), rs_availability_generation := Some (has_generation a)\<rparr>"
    using assms(2) by (auto simp: apply_availability_def split: if_splits)
  have "select_upstream svc b n = select_upstream svc c n" for b c n
    using assms(1) by (simp add: select_upstream_def eligible_upstreams_def health_enabled_def)
  then have sel: "select_upstream svc (service_availability svc rs') n = select_upstream svc (service_availability svc rs) n" for n
    by blast
  have lease: "fst (lease_upstream svc ident ep (rs'\<lparr>rs_sequences := q\<rparr>)) = fst (lease_upstream svc ident ep (rs\<lparr>rs_sequences := q\<rparr>))"
    for ident ep q
    by (simp add: rs' lease_upstream_def Let_def split: prod.splits DrainAcquireResult.splits option.splits)
  have same: "service_sequence svc rs' = service_sequence svc rs" "rs_endpoints rs' = rs_endpoints rs"
    "rs_sequences rs' = rs_sequences rs" by (simp_all add: rs' service_sequence_def)
  show ?thesis unfolding selector_select_def same sel
    by (simp add: lease split: UpstreamSelection.splits option.splits)
qed

lemma effective_entries_wf: "btree_wf m \<Longrightarrow> btree_wf (effective_entries ph us m)"
  by (induction ph us m rule: effective_entries.induct) (simp_all add: Let_def btree_insert_wf)


definition sample_ejection :: PassiveHealthSupervisor where
  "sample_ejection = snd (passive_handle \<lparr>po_revision_id = ''r1'', po_generation = 1, po_key = (''api'', ''a''),
       po_outcome = PassiveFailure PassiveConnect, po_observed_at_ms = 7\<rparr>
     (passive_register (''api'', ''a'') \<lparr>failure_threshold = 1, ejection_ms = 1000\<rparr> True (passive_new ''r1'' 1)))"

definition sample_selector :: RuntimeUpstreamSelector where
  "sample_selector = (case selector_from_snapshot (sample_snapshot Active) of Ok rs \<Rightarrow> rs)"


text \<open>
  Publication is not undone: an activation rejected for its availability has already published the
  status of the configuration it did not install.
\<close>

lemma rejected_activation_publishes:
  assumes "rs_publisher (rt_selector st)" "normalized_endpoint_map next_config = Ok eps"
    and "has_revision_id availability \<noteq> cs_revision_id next_config"
  shows "\<exists>e status. activate_snapshot next_config availability st = (AckRejected e, st, [status]) \<and>
    rss_revision_id status = cs_revision_id next_config"
  using assms
  by (simp add: activate_snapshot_def activation_candidate_def selector_reconcile_def apply_availability_def Let_def
    publish_runtime_status_def operational_snapshot_def)

end
