(* ===== verification/Spec2Isabelle.thy ===== *)
theory Spec2Isabelle
  imports Charges Connection ProxyMessages RuntimeSelector
begin

text \<open>
  Verification library of the Edge reverse proxy: the root theory. The theories below it model
  the components of the program, one theory per component.
\<close>

end
